(* ===== verification/Prelude.thy ===== *)
theory Prelude
  imports Main "HOL-Library.Word" "HOL-Library.List_Lexorder"
begin

text \<open>
  Shared vocabulary of the development: the machine types of the Go sources, Go's
  \<open>error\<close> values, the fixed-width big- and little-endian encodings written by
  \<open>encoding/binary\<close>, the conversions between \<open>int64\<close>, \<open>uint64\<close> and \<open>uint32\<close>,
  \<open>encoding/hex\<close>, and the generic lemmas on lists, results and encodings that the
  component theories use.

  Unsigned integers are words, so that \<open>+\<close> wraps as in Go. Signed 64-bit values
  (\<open>int64\<close>, \<open>int\<close>, \<open>time.Duration\<close>) are integers, with \<open>wrap64\<close> applied wherever an
  operation of the source can leave the range. A \<open>[]byte\<close> is a list of bytes; where the
  source tells a nil slice from an empty one the model has an option.
\<close>

section \<open>Types\<close>

type_synonym byte = "8 word"
type_synonym bytes = "byte list"
type_synonym uint32 = "32 word"
type_synonym uint64 = "64 word"

text \<open>
  Go errors. \<open>Err\<close> is \<open>errors.New\<close>; \<open>Errf\<close> is \<open>fmt.Errorf\<close> with numeric arguments;
  \<open>Wrap\<close> is \<open>fmt.Errorf\<close> around another error; \<open>ExtErr\<close> is an error handed back by
  code outside the repository. A panic of the source is the error \<open>Panic\<close>.
\<close>

datatype error =
    Err string
  | Errf string "int list"
  | Wrap string error
  | ExtErr string
  | Panic string

type_synonym 'a result = "error + 'a"

section \<open>Named collections\<close>

named_theorems wire \<open>encodings and decodings cancel\<close>
named_theorems bytelen \<open>lengths of encoded values\<close>
named_theorems shape \<open>what an operation keeps of its argument\<close>

section \<open>Results\<close>

definition is_ok :: "'a result \<Rightarrow> bool" where
  "is_ok r = (case r of Inl _ \<Rightarrow> False | Inr _ \<Rightarrow> True)"

lemma is_ok_simps [simp]: "is_ok (Inl e) = False" "is_ok (Inr x) = True"
  by (simp_all add: is_ok_def)

lemma is_ok_iff: "is_ok r \<longleftrightarrow> (\<exists>x. r = Inr x)"
  by (cases r) auto

text \<open>A loop that converts every element and returns at the first error.\<close>

fun mapE :: "('a \<Rightarrow> 'b result) \<Rightarrow> 'a list \<Rightarrow> 'b list result" where
  "mapE f [] = Inr []"
| "mapE f (x # xs) =
     (case f x of
        Inl e \<Rightarrow> Inl e
      | Inr y \<Rightarrow> (case mapE f xs of Inl e \<Rightarrow> Inl e | Inr ys \<Rightarrow> Inr (y # ys)))"

lemma mapE_length: "mapE f xs = Inr ys \<Longrightarrow> length ys = length xs"
  by (induction xs arbitrary: ys) (auto split: sum.splits)

lemma mapE_inverse:
  assumes "\<And>x. x \<in> set xs \<Longrightarrow> f (g x) = Inr x"
  shows "mapE f (map g xs) = Inr xs"
  using assms by (induction xs) auto

lemma mapE_nth:
  assumes "mapE f xs = Inr ys" and "i < length xs"
  shows "f (xs ! i) = Inr (ys ! i)"
  using assms
proof (induction xs arbitrary: ys i)
  case (Cons x xs)
  then show ?case by (cases i) (auto split: sum.splits)
qed simp

lemma mapE_set: "mapE f xs = Inr ys \<Longrightarrow> y \<in> set ys \<Longrightarrow> \<exists>x \<in> set xs. f x = Inr y"
  by (induction xs arbitrary: ys) (auto split: sum.splits)

lemma mapE_Inr_iff: "(\<exists>ys. mapE f xs = Inr ys) \<longleftrightarrow> (\<forall>x \<in> set xs. is_ok (f x))"
  by (induction xs) (auto simp: is_ok_iff split: sum.splits)

lemma mapE_cong_set:
  assumes "\<And>x. x \<in> set xs \<Longrightarrow> f x = g x"
  shows "mapE f xs = mapE g xs"
  using assms by (induction xs) (auto split: sum.split)

section \<open>Conversions between Go's integer types\<close>

text \<open>Two's complement wrap-around of an \<open>int64\<close> operation.\<close>

definition wrap64 :: "int \<Rightarrow> int" where
  "wrap64 x = (x + 2 ^ 63) mod 2 ^ 64 - 2 ^ 63"

definition maxInt64 :: int where "maxInt64 = 2 ^ 63 - 1"
definition minInt64 :: int where "minInt64 = - (2 ^ 63)"

definition is_int64 :: "int \<Rightarrow> bool" where
  "is_int64 x \<longleftrightarrow> - (2 ^ 63) \<le> x \<and> x < 2 ^ 63"

lemma wrap64_id [simp]: "is_int64 x \<Longrightarrow> wrap64 x = x"
  by (simp add: wrap64_def is_int64_def)

lemma is_int64_wrap64 [simp]: "is_int64 (wrap64 x)"
proof -
  have "0 \<le> (x + 2 ^ 63) mod 2 ^ 64" "(x + 2 ^ 63) mod 2 ^ 64 < 2 ^ 64" by simp_all
  then show ?thesis unfolding wrap64_def is_int64_def by auto
qed

text \<open>\<open>uint64(x)\<close>, \<open>int64(u)\<close>, \<open>uint32(x)\<close>.\<close>

definition to_uint64 :: "int \<Rightarrow> uint64" where "to_uint64 x = word_of_int x"
definition to_uint32 :: "int \<Rightarrow> uint32" where "to_uint32 x = word_of_int x"
definition to_int64 :: "uint64 \<Rightarrow> int" where "to_int64 u = wrap64 (uint u)"

lemma unat_byte: "unat (b :: byte) < 256"
  using unsigned_less [where w = b] by simp

lemma unat_uint32: "unat (w :: uint32) < 2 ^ 32"
  using unsigned_less [where w = w] by simp

lemma unat_uint64: "unat (u :: uint64) < 2 ^ 64"
  using unsigned_less [where w = u] by simp

lemma uint_to_uint64: "0 \<le> x \<Longrightarrow> x < 2 ^ 64 \<Longrightarrow> uint (to_uint64 x) = x"
  by (simp add: to_uint64_def uint_word_of_int)

lemma uint_to_uint32: "0 \<le> x \<Longrightarrow> x < 2 ^ 32 \<Longrightarrow> uint (to_uint32 x) = x"
  by (simp add: to_uint32_def uint_word_of_int)

lemma to_int64_small: "uint u < 2 ^ 63 \<Longrightarrow> to_int64 u = uint u"
  using uint_ge_0 [of u] by (simp add: to_int64_def is_int64_def order.trans [OF _ uint_ge_0])

lemma to_int64_to_uint64 [wire]:
  assumes "is_int64 x"
  shows "to_int64 (to_uint64 x) = x"
proof -
  have "(x mod 2 ^ 64 + 2 ^ 63) mod 2 ^ 64 = (x + 2 ^ 63) mod (2 ^ 64 :: int)"
    by (simp add: mod_add_left_eq)
  then show ?thesis
    using assms by (simp add: to_int64_def to_uint64_def uint_word_of_int wrap64_def is_int64_def)
qed

section \<open>Fixed-width integer encodings\<close>

text \<open>
  \<open>be_bytes n v\<close> is what \<open>binary.Write\<close> with \<open>binary.BigEndian\<close> writes for an \<open>n\<close>-byte
  unsigned value; \<open>le_bytes\<close> is the little-endian order. Signed values are written as
  their two's complement.
\<close>

fun be_bytes :: "nat \<Rightarrow> nat \<Rightarrow> bytes" where
  "be_bytes 0 v = []"
| "be_bytes (Suc n) v = be_bytes n (v div 256) @ [of_nat (v mod 256)]"

definition le_bytes :: "nat \<Rightarrow> nat \<Rightarrow> bytes" where
  "le_bytes n v = rev (be_bytes n v)"

definition be_int64 :: "int \<Rightarrow> bytes" where
  "be_int64 x = be_bytes 8 (nat (x mod 2 ^ 64))"

definition le_int64 :: "int \<Rightarrow> bytes" where
  "le_int64 x = le_bytes 8 (nat (x mod 2 ^ 64))"

definition be_uint64 :: "uint64 \<Rightarrow> bytes" where "be_uint64 u = be_bytes 8 (unat u)"
definition be_uint32 :: "uint32 \<Rightarrow> bytes" where "be_uint32 u = be_bytes 4 (unat u)"
definition le_uint64 :: "uint64 \<Rightarrow> bytes" where "le_uint64 u = le_bytes 8 (unat u)"
definition le_uint32 :: "uint32 \<Rightarrow> bytes" where "le_uint32 u = le_bytes 4 (unat u)"

text \<open>The value a big-endian byte string stands for.\<close>

definition be_val :: "bytes \<Rightarrow> nat" where
  "be_val bs = foldl (\<lambda>a b. a * 256 + unat b) 0 bs"

lemma be_val_Nil [simp]: "be_val [] = 0"
  by (simp add: be_val_def)

lemma be_val_snoc [simp]: "be_val (bs @ [b]) = be_val bs * 256 + unat b"
  by (simp add: be_val_def)

lemma length_be_bytes [bytelen, simp]: "length (be_bytes n v) = n"
  by (induction n arbitrary: v) auto

lemma length_le_bytes [bytelen, simp]: "length (le_bytes n v) = n"
  by (simp add: le_bytes_def)

lemma length_be_le [bytelen, simp]:
  "length (be_uint64 u) = 8" "length (be_uint32 w) = 4" "length (be_int64 x) = 8"
  "length (le_uint64 u) = 8" "length (le_uint32 w) = 4" "length (le_int64 x) = 8"
  by (simp_all add: be_uint64_def be_uint32_def be_int64_def le_uint64_def le_uint32_def le_int64_def)

lemma be_val_be_bytes [wire]: "be_val (be_bytes n v) = v mod 256 ^ n"
proof (induction n arbitrary: v)
  case (Suc n)
  have "unat (of_nat (v mod 256) :: byte) = v mod 256"
    by (simp add: unat_of_nat)
  then show ?case
    by (simp add: Suc.IH mod_mult2_eq)
qed simp

lemma be_val_bound: "be_val bs < 256 ^ length bs"
proof (induction bs rule: rev_induct)
  case (snoc b bs)
  have "unat b < 256" by (rule unat_byte)
  then show ?case using snoc.IH by simp
qed simp

lemma be_val_Cons: "be_val (b # bs) = unat b * 256 ^ length bs + be_val bs"
proof (induction bs rule: rev_induct)
  case (snoc x xs)
  have "be_val (b # xs @ [x]) = be_val (b # xs) * 256 + unat x"
    using be_val_snoc [of "b # xs" x] by simp
  then show ?case using snoc.IH by (simp add: algebra_simps)
qed (simp add: be_val_def)

lemma be_bytes_inject:
  assumes "v < 256 ^ n" "w < 256 ^ n" "be_bytes n v = be_bytes n w"
  shows "v = w"
proof -
  have "be_val (be_bytes n v) = be_val (be_bytes n w)" using assms(3) by simp
  then show ?thesis using assms(1,2) by (simp add: be_val_be_bytes)
qed

text \<open>
  On byte strings of one length the lexicographic order of \<open>bytes.Compare\<close> (and of
  boltdb's keys) is the order of the values.
\<close>

lemma be_val_less_iff:
  assumes "length xs = length ys"
  shows "xs < ys \<longleftrightarrow> be_val xs < be_val ys"
  using assms
proof (induction xs ys rule: list_induct2)
  case (Cons x xs y ys)
  let ?m = "256 ^ length xs :: nat"
  have bx: "be_val xs < ?m" and b_y: "be_val ys < ?m"
    using be_val_bound [of xs] be_val_bound [of ys] Cons.hyps by simp_all
  have less: "unat a * ?m + be_val as < unat b * ?m + be_val bs"
    if "a < b" "be_val as < ?m" for a b :: byte and as bs :: bytes
  proof -
    have "unat a + 1 \<le> unat b" using that(1) by (simp add: word_less_nat_alt)
    then have "(unat a + 1) * ?m \<le> unat b * ?m" by (rule mult_le_mono1)
    then show ?thesis using that(2) by simp
  qed
  consider "x < y" | "x = y" | "y < x" by (rule linorder_cases)
  then show ?case
  proof cases
    case 1
    then show ?thesis using less [OF 1 bx] Cons.hyps by (simp add: be_val_Cons)
  next
    case 2
    then show ?thesis using Cons by (simp add: be_val_Cons)
  next
    case 3
    then have "x \<noteq> y" "\<not> x < y" by auto
    then show ?thesis using less [OF 3 b_y, of xs] Cons.hyps by (simp add: be_val_Cons)
  qed
qed simp

lemma be_uint64_inject [simp]: "be_uint64 u = be_uint64 v \<longleftrightarrow> u = v"
proof
  assume "be_uint64 u = be_uint64 v"
  then have "unat u = unat v"
    using be_bytes_inject [of "unat u" 8 "unat v"] unat_uint64 [of u] unat_uint64 [of v]
    by (simp add: be_uint64_def)
  then show "u = v" by (rule unsigned_word_eqI)
qed simp

lemma be_uint64_less_iff [simp]: "be_uint64 u < be_uint64 v \<longleftrightarrow> u < v"
  using unat_uint64 [of u] unat_uint64 [of v]
  by (simp add: be_val_less_iff be_val_be_bytes be_uint64_def word_less_nat_alt)

lemma be_uint64_le_iff [simp]: "be_uint64 u \<le> be_uint64 v \<longleftrightarrow> u \<le> v"
  by (metis be_uint64_less_iff linorder_not_less)

section \<open>Lists\<close>

text \<open>The successor of a \<open>uint64\<close> that is not the greatest.\<close>

lemma word_succ_less: "k \<noteq> - 1 \<Longrightarrow> k < k + (1 :: uint64)"
  using inc_less_eq_iff [of k "k + 1"] by simp

lemma unat_succ: "k \<noteq> - 1 \<Longrightarrow> unat (k + (1 :: uint64)) = unat k + 1"
  using word_succ_less [of k] unat_plus_simple [of k 1] by (simp add: less_imp_le)

lemma word_le_succ_iff: "k \<noteq> - 1 \<Longrightarrow> r \<le> k + (1 :: uint64) \<longleftrightarrow> r \<le> k \<or> r = k + 1"
  by (auto simp: word_le_nat_alt unat_succ word_unat_eq_iff)

lemma unat_max_uint64: "unat (- 1 :: uint64) = 2 ^ 64 - 1"
  by (simp add: unsigned_minus_1_eq_mask mask_eq_exp_minus_1)

lemma append_eq_same_length:
  "length xs = length us \<Longrightarrow> xs @ ys = us @ vs \<longleftrightarrow> xs = us \<and> ys = vs"
  by simp

lemma distinct_filter_one: "distinct xs \<Longrightarrow> k \<in> set xs \<Longrightarrow> filter (\<lambda>x. x = k) xs = [k]"
  by (induction xs) (auto simp: filter_empty_conv)

lemma filter_idem_distinct: "x \<notin> set xs \<Longrightarrow> filter (\<lambda>y. y \<noteq> x) xs = xs"
  by (induction xs) auto

section \<open>Integer quotients\<close>

lemma quotient_bounds:
  assumes "0 \<le> d" "(1::int) \<le> P"
  shows "0 \<le> d div P" "d div P * P \<le> d" "d < (d div P + 1) * P" "d div P \<le> d"
proof -
  have e: "d div P * P + d mod P = d" by simp
  have m: "0 \<le> d mod P" "d mod P < P" using assms(2) by simp_all
  show lo: "d div P * P \<le> d" using e m by linarith
  have "(d div P + 1) * P = d div P * P + P" by (simp add: distrib_right)
  then show "d < (d div P + 1) * P" using e m by linarith
  show q: "0 \<le> d div P" using assms by (simp add: pos_imp_zdiv_nonneg_iff)
  have "d div P * 1 \<le> d div P * P" using q assms(2) by (intro mult_left_mono) simp_all
  then show "d div P \<le> d" using lo by simp
qed

end
