(* ===== verification/Go_Strings.thy ===== *)
theory Go_Strings
  imports Prelude
begin

text \<open>
  The string functions of Go's standard library that the sources use: \<open>encoding/hex\<close> and
  \<open>net.SplitHostPort\<close>.
\<close>

section \<open>Hexadecimal\<close>

definition hexchar :: "nat \<Rightarrow> char" where
  "hexchar n = ''0123456789abcdef'' ! n"

fun hex_byte :: "byte \<Rightarrow> string" where
  "hex_byte b = [hexchar (unat b div 16), hexchar (unat b mod 16)]"

definition hex_EncodeToString :: "bytes \<Rightarrow> string" where
  "hex_EncodeToString bs = concat (map hex_byte bs)"

text \<open>\<open>fromHexChar\<close> accepts lower and upper case digits.\<close>

definition fromHexChar :: "char \<Rightarrow> nat option" where
  "fromHexChar c =
     (let n = of_char c :: nat
      in if 48 \<le> n \<and> n \<le> 57 then Some (n - 48)
         else if 97 \<le> n \<and> n \<le> 102 then Some (n - 97 + 10)
         else if 65 \<le> n \<and> n \<le> 70 then Some (n - 65 + 10)
         else None)"

text \<open>
  \<open>hex.DecodeString\<close>: digits are checked pairwise; an odd length is reported only when
  the last character is itself a digit.
\<close>

fun hex_DecodeString :: "string \<Rightarrow> bytes result" where
  "hex_DecodeString [] = Inr []"
| "hex_DecodeString [c] =
     (case fromHexChar c of
        None \<Rightarrow> Inl (Err ''encoding/hex: invalid byte'')
      | Some _ \<Rightarrow> Inl (Err ''encoding/hex: odd length hex string''))"
| "hex_DecodeString (c # d # cs) =
     (case fromHexChar c of
        None \<Rightarrow> Inl (Err ''encoding/hex: invalid byte'')
      | Some a \<Rightarrow>
          (case fromHexChar d of
             None \<Rightarrow> Inl (Err ''encoding/hex: invalid byte'')
           | Some b \<Rightarrow>
               (case hex_DecodeString cs of
                  Inl e \<Rightarrow> Inl e
                | Inr bs \<Rightarrow> Inr (of_nat (16 * a + b) # bs))))"

lemma fromHexChar_hexchar [wire]: "n < 16 \<Longrightarrow> fromHexChar (hexchar n) = Some n"
proof -
  assume "n < 16"
  then have "n \<in> {0,1,2,3,4,5,6,7,8,9,10,11,12,13,14,15}" by (simp only: insert_iff empty_iff) presburger
  then show ?thesis by (auto simp: hexchar_def fromHexChar_def)
qed

lemma hex_decode_encode [wire, simp]: "hex_DecodeString (hex_EncodeToString bs) = Inr bs"
proof (induction bs)
  case (Cons b bs)
  have "unat b div 16 < 16" using unat_byte [of b] by simp
  then have "fromHexChar (hexchar (unat b div 16)) = Some (unat b div 16)"
    by (rule fromHexChar_hexchar)
  moreover have "fromHexChar (hexchar (unat b mod 16)) = Some (unat b mod 16)"
    by (rule fromHexChar_hexchar) simp
  ultimately show ?case using Cons by (simp add: hex_EncodeToString_def)
qed (simp add: hex_EncodeToString_def)

lemma hex_encode_inject [simp]: "hex_EncodeToString a = hex_EncodeToString b \<longleftrightarrow> a = b"
  by (metis hex_decode_encode sum.inject(2))

lemma length_hex_encode [bytelen]: "length (hex_EncodeToString bs) = 2 * length bs"
  by (induction bs) (simp_all add: hex_EncodeToString_def)

lemma hex_encode_eq_Nil [simp]: "hex_EncodeToString bs = [] \<longleftrightarrow> bs = []"
  using length_hex_encode [of bs] by (auto simp: hex_EncodeToString_def)

section \<open>Host and port\<close>

fun index_of :: "'a \<Rightarrow> 'a list \<Rightarrow> nat option" where
  "index_of x [] = None"
| "index_of x (y # ys) = (if x = y then Some 0 else map_option Suc (index_of x ys))"

definition last_index_of :: "'a \<Rightarrow> 'a list \<Rightarrow> nat option" where
  "last_index_of x xs = map_option (\<lambda>i. length xs - 1 - i) (index_of x (rev xs))"

definition colon :: char where "colon = CHR '':''"
definition lbracket :: char where "lbracket = CHR ''[''"
definition rbracket :: char where "rbracket = CHR '']''"

text \<open>The checks after the host has been cut out: no stray bracket behind \<open>j\<close> and \<open>k\<close>.\<close>

definition split_finish :: "string \<Rightarrow> string \<Rightarrow> nat \<Rightarrow> nat \<Rightarrow> nat \<Rightarrow> (string \<times> string) result" where
  "split_finish hostport host i j k =
     (if lbracket \<in> set (drop j hostport) then Inl (Err ''unexpected '[' in address'')
      else if rbracket \<in> set (drop k hostport) then Inl (Err ''unexpected ']' in address'')
      else Inr (host, drop (i + 1) hostport))"

definition SplitHostPort :: "string \<Rightarrow> (string \<times> string) result" where
  "SplitHostPort hostport =
     (case last_index_of colon hostport of
        None \<Rightarrow> Inl (Err ''missing port in address'')
      | Some i \<Rightarrow>
          if hostport ! 0 = lbracket then
            (case index_of rbracket hostport of
               None \<Rightarrow> Inl (Err ''missing ']' in address'')
             | Some e \<Rightarrow>
                 if e + 1 = length hostport then Inl (Err ''missing port in address'')
                 else if e + 1 = i then
                   split_finish hostport (take (e - 1) (drop 1 hostport)) i 1 (e + 1)
                 else if hostport ! (e + 1) = colon then Inl (Err ''too many colons in address'')
                 else Inl (Err ''missing port in address''))
          else if colon \<in> set (take i hostport) then Inl (Err ''too many colons in address'')
          else split_finish hostport (take i hostport) i 0 0)"

lemma index_of_nth: "index_of x xs = Some i \<Longrightarrow> i < length xs \<and> xs ! i = x"
  by (induction xs arbitrary: i) (auto split: if_splits)

lemma index_of_None: "index_of x xs = None \<longleftrightarrow> x \<notin> set xs"
  by (induction xs) auto

lemma last_index_of_nth:
  assumes "last_index_of x xs = Some i"
  shows "i < length xs \<and> xs ! i = x"
proof -
  from assms obtain j where "index_of x (rev xs) = Some j" and i: "i = length xs - 1 - j"
    by (auto simp: last_index_of_def)
  then have "j < length xs" "rev xs ! j = x" using index_of_nth by fastforce+
  then show ?thesis by (auto simp: i rev_nth)
qed

lemma last_index_of_append:
  "x \<notin> set ys \<Longrightarrow> last_index_of x (xs @ x # ys) = Some (length xs)"
proof -
  assume "x \<notin> set ys"
  then have "index_of x (rev ys @ x # rev xs) = Some (length ys)"
  proof (induction ys rule: rev_induct)
    case (snoc y ys)
    then show ?case by auto
  qed simp
  then show ?thesis by (simp add: last_index_of_def)
qed

text \<open>A \<open>host:port\<close> address without further colons or brackets splits as expected.\<close>

lemma SplitHostPort_plain:
  assumes "colon \<notin> set host" "colon \<notin> set port"
    and "lbracket \<notin> set host" "lbracket \<notin> set port" "rbracket \<notin> set host" "rbracket \<notin> set port"
  shows "SplitHostPort (host @ colon # port) = Inr (host, port)"
proof -
  have "(host @ colon # port) ! 0 \<noteq> lbracket"
    using assms(3) by (cases host) (auto simp: colon_def lbracket_def)
  moreover have "colon \<noteq> lbracket" "colon \<noteq> rbracket" by (simp_all add: colon_def lbracket_def rbracket_def)
  ultimately show ?thesis
    using assms by (simp add: SplitHostPort_def last_index_of_append split_finish_def)
qed

end
