(* ===== verification/Keys.thy ===== *)
theory Keys
  imports Go_Strings
begin

text \<open>
  \<open>src/key/keys.go\<close>, \<open>node.go\<close>, \<open>curve.go\<close> and \<open>encoding.go\<close>: identities, key pairs,
  nodes, shares and distributed public keys, with their hashes, self-signatures and their
  TOML and protobuf forms.

  The elliptic curve, the signature schemes and blake2b come from other modules. They are
  the fields of the record \<open>suite\<close>, over a type \<open>'p\<close> of points and a type \<open>'s\<close> of
  scalars; every definition that uses them takes the suite as its first argument. What
  the code relies on is stated by the predicates \<open>codec_laws\<close> and \<open>auth_laws\<close>.
\<close>

section \<open>The cryptographic suite\<close>

record 's PriShare =
  sh_I :: int
  sh_V :: 's

record ('p, 's) suite =
  pt_marshal :: "'p \<Rightarrow> bytes"
  pt_unmarshal :: "bytes \<Rightarrow> 'p result"
  pt_equal :: "'p \<Rightarrow> 'p \<Rightarrow> bool"
  pt_mul_base :: "'s \<Rightarrow> 'p"
  sc_marshal :: "'s \<Rightarrow> bytes"
  sc_unmarshal :: "bytes \<Rightarrow> 's result"
  blake2b :: "bytes \<Rightarrow> bytes"
  auth_sign :: "'s \<Rightarrow> bytes \<Rightarrow> bytes result"
  auth_verify :: "'p \<Rightarrow> bytes \<Rightarrow> bytes \<Rightarrow> error option"
  dkg_sign :: "'s \<Rightarrow> bytes \<Rightarrow> bytes result"
  dkg_verify :: "'p \<Rightarrow> bytes \<Rightarrow> bytes \<Rightarrow> error option"
  dkg_MinimumT :: "int \<Rightarrow> int"
  poly_commit :: "'p list \<Rightarrow> 'p"
  tbls_sign :: "'s PriShare \<Rightarrow> bytes \<Rightarrow> bytes result"
  tbls_index_of :: "bytes \<Rightarrow> int"
  tbls_verify_partial :: "'p list \<Rightarrow> bytes \<Rightarrow> bytes \<Rightarrow> error option"
  tbls_recover :: "'p list \<Rightarrow> bytes \<Rightarrow> bytes list \<Rightarrow> int \<Rightarrow> int \<Rightarrow> bytes result"
  tbls_verify_recovered :: "'p \<Rightarrow> bytes \<Rightarrow> bytes \<Rightarrow> error option"

text \<open>
  Documented behaviour of kyber: unmarshalling inverts marshalling, and \<open>Equal\<close> is
  equality of points.
\<close>

definition codec_laws :: "('p, 's) suite \<Rightarrow> bool" where
  "codec_laws S \<longleftrightarrow>
     (\<forall>p. pt_unmarshal S (pt_marshal S p) = Inr p)
   \<and> (\<forall>p q. pt_equal S p q \<longleftrightarrow> p = q)
   \<and> (\<forall>s. sc_unmarshal S (sc_marshal S s) = Inr s)"

text \<open>
  Documented behaviour of the BLS scheme: signing succeeds and a signature verifies under
  the public key of the signing key.
\<close>

definition auth_laws :: "('p, 's) suite \<Rightarrow> bool" where
  "auth_laws S \<longleftrightarrow>
     (\<forall>k m. \<exists>sig. auth_sign S k m = Inr sig \<and> auth_verify S (pt_mul_base S k) m sig = None)"

lemma codec_lawsD [simp]:
  assumes "codec_laws S"
  shows "pt_unmarshal S (pt_marshal S p) = Inr p" "pt_equal S p q \<longleftrightarrow> p = q"
    "sc_unmarshal S (sc_marshal S s) = Inr s"
  using assms by (simp_all add: codec_laws_def)

lemma pt_marshal_inject: "codec_laws S \<Longrightarrow> pt_marshal S p = pt_marshal S q \<longleftrightarrow> p = q"
  by (metis codec_lawsD(1) sum.inject(2))

section \<open>\<open>encoding.go\<close>\<close>

definition PointToString :: "('p, 's) suite \<Rightarrow> 'p \<Rightarrow> string" where
  "PointToString S p = hex_EncodeToString (pt_marshal S p)"

definition ScalarToString :: "('p, 's) suite \<Rightarrow> 's \<Rightarrow> string" where
  "ScalarToString S s = hex_EncodeToString (sc_marshal S s)"

definition StringToPoint :: "('p, 's) suite \<Rightarrow> string \<Rightarrow> 'p result" where
  "StringToPoint S s =
     (case hex_DecodeString s of Inl e \<Rightarrow> Inl e | Inr buff \<Rightarrow> pt_unmarshal S buff)"

definition StringToScalar :: "('p, 's) suite \<Rightarrow> string \<Rightarrow> 's result" where
  "StringToScalar S s =
     (case hex_DecodeString s of Inl e \<Rightarrow> Inl e | Inr buff \<Rightarrow> sc_unmarshal S buff)"

lemma StringToPoint_PointToString [wire]: "codec_laws S \<Longrightarrow> StringToPoint S (PointToString S p) = Inr p"
  by (simp add: StringToPoint_def PointToString_def)

lemma StringToScalar_ScalarToString [wire]:
  "codec_laws S \<Longrightarrow> StringToScalar S (ScalarToString S s) = Inr s"
  by (simp add: StringToScalar_def ScalarToString_def)

section \<open>Identities and key pairs\<close>

record 'p Identity =
  id_Key :: 'p
  id_Addr :: string
  id_TLS :: bool
  id_Signature :: bytes

record ('p, 's) Pair =
  pair_Key :: 's
  pair_Public :: "'p Identity"

definition Identity_Address :: "'p Identity \<Rightarrow> string" where
  "Identity_Address i = id_Addr i"

definition Identity_IsTLS :: "'p Identity \<Rightarrow> bool" where
  "Identity_IsTLS i = id_TLS i"

definition Identity_Hash :: "('p, 's) suite \<Rightarrow> 'p Identity \<Rightarrow> bytes" where
  "Identity_Hash S i = blake2b S (pt_marshal S (id_Key i))"

definition Identity_ValidSignature :: "('p, 's) suite \<Rightarrow> 'p Identity \<Rightarrow> error option" where
  "Identity_ValidSignature S i =
     (let msg = Identity_Hash S i in auth_verify S (id_Key i) msg (id_Signature i))"

definition Identity_Equal :: "('p, 's) suite \<Rightarrow> 'p Identity \<Rightarrow> 'p Identity \<Rightarrow> bool" where
  "Identity_Equal S i i2 =
     (if id_Addr i \<noteq> id_Addr i2 then False
      else if id_TLS i \<noteq> id_TLS i2 then False
      else if \<not> pt_equal S (id_Key i) (id_Key i2) then False
      else True)"

text \<open>\<open>SelfSign\<close> drops the error of the signing call; a failed call leaves a nil signature.\<close>

definition Pair_SelfSign :: "('p, 's) suite \<Rightarrow> ('p, 's) Pair \<Rightarrow> ('p, 's) Pair" where
  "Pair_SelfSign S p =
     (let msg = Identity_Hash S (pair_Public p);
          signature = (case auth_sign S (pair_Key p) msg of Inl _ \<Rightarrow> [] | Inr s \<Rightarrow> s)
      in p\<lparr>pair_Public := (pair_Public p)\<lparr>id_Signature := signature\<rparr>\<rparr>)"

text \<open>\<open>NewKeyPair\<close>, with the scalar it picks as an argument.\<close>

definition NewKeyPair :: "('p, 's) suite \<Rightarrow> 's \<Rightarrow> string \<Rightarrow> ('p, 's) Pair" where
  "NewKeyPair S k address =
     (let pubKey = pt_mul_base S k;
          pub = \<lparr>id_Key = pubKey, id_Addr = address, id_TLS = False, id_Signature = []\<rparr>;
          p = \<lparr>pair_Key = k, pair_Public = pub\<rparr>
      in Pair_SelfSign S p)"

definition NewTLSKeyPair :: "('p, 's) suite \<Rightarrow> 's \<Rightarrow> string \<Rightarrow> ('p, 's) Pair" where
  "NewTLSKeyPair S k address =
     (let kp = NewKeyPair S k address;
          kp = kp\<lparr>pair_Public := (pair_Public kp)\<lparr>id_TLS := True\<rparr>\<rparr>
      in Pair_SelfSign S kp)"

text \<open>\<open>ByKey.Less\<close>: identities are ordered by the bytes of their keys.\<close>

definition ByKey_Less :: "('p, 's) suite \<Rightarrow> 'p Identity \<Rightarrow> 'p Identity \<Rightarrow> bool" where
  "ByKey_Less S a b = (pt_marshal S (id_Key a) < pt_marshal S (id_Key b))"

section \<open>Nodes, shares and distributed keys\<close>

record 'p Node =
  node_Identity :: "'p Identity"
  node_Index :: uint32

definition Node_Hash :: "('p, 's) suite \<Rightarrow> 'p Node \<Rightarrow> bytes" where
  "Node_Hash S n = blake2b S (le_uint32 (node_Index n) @ pt_marshal S (id_Key (node_Identity n)))"

definition Node_Equal :: "('p, 's) suite \<Rightarrow> 'p Node \<Rightarrow> 'p Node \<Rightarrow> bool" where
  "Node_Equal S n n2 \<longleftrightarrow>
     node_Index n = node_Index n2 \<and> Identity_Equal S (node_Identity n) (node_Identity n2)"

record 'p DistPublic =
  Coefficients :: "'p list"

record ('p, 's) Share =
  Commits :: "'p list"
  share_Share :: "'s PriShare"

definition Share_PubPoly :: "('p, 's) Share \<Rightarrow> 'p list" where
  "Share_PubPoly s = Commits s"

definition Share_PrivateShare :: "('p, 's) Share \<Rightarrow> 's PriShare" where
  "Share_PrivateShare s = share_Share s"

definition Share_Public :: "('p, 's) Share \<Rightarrow> 'p DistPublic" where
  "Share_Public s = \<lparr>Coefficients = Commits s\<rparr>"

definition DistPublic_PubPoly :: "'p DistPublic \<Rightarrow> 'p list" where
  "DistPublic_PubPoly d = Coefficients d"

text \<open>\<open>Key\<close> indexes the slice of coefficients and panics when it is empty.\<close>

definition DistPublic_Key :: "'p DistPublic \<Rightarrow> 'p result" where
  "DistPublic_Key d =
     (case Coefficients d of [] \<Rightarrow> Inl (Panic ''index out of range'') | c # _ \<Rightarrow> Inr c)"

definition DistPublic_Hash :: "('p, 's) suite \<Rightarrow> 'p DistPublic \<Rightarrow> bytes" where
  "DistPublic_Hash S d = blake2b S (concat (map (pt_marshal S) (Coefficients d)))"

definition DistPublic_Equal :: "('p, 's) suite \<Rightarrow> 'p DistPublic \<Rightarrow> 'p DistPublic \<Rightarrow> bool" where
  "DistPublic_Equal S d d2 =
     (if length (Coefficients d) \<noteq> length (Coefficients d2) then False
      else list_all2 (pt_equal S) (Coefficients d) (Coefficients d2))"

lemma Identity_Equal_iff:
  "codec_laws S \<Longrightarrow> Identity_Equal S i j \<longleftrightarrow>
     id_Addr i = id_Addr j \<and> id_TLS i = id_TLS j \<and> id_Key i = id_Key j"
  by (simp add: Identity_Equal_def)

lemma DistPublic_Equal_iff:
  assumes "codec_laws S"
  shows "DistPublic_Equal S d e \<longleftrightarrow> Coefficients d = Coefficients e"
proof -
  have "pt_equal S = (=)" using assms by (intro ext) simp
  then show ?thesis by (auto simp: DistPublic_Equal_def list.rel_eq)
qed

lemma Node_Equal_iff:
  "codec_laws S \<Longrightarrow> Node_Equal S n m \<longleftrightarrow> node_Index n = node_Index m
     \<and> id_Addr (node_Identity n) = id_Addr (node_Identity m)
     \<and> id_TLS (node_Identity n) = id_TLS (node_Identity m)
     \<and> id_Key (node_Identity n) = id_Key (node_Identity m)"
  by (simp add: Node_Equal_def Identity_Equal_iff)

section \<open>A concrete suite\<close>

text \<open>
  A transparent suite on byte strings, on which the examples evaluate: a key is its own
  public key, a signature is the key followed by the message, and a recovered signature is
  the commitment followed by the message.
\<close>

definition plain_suite :: "(bytes, bytes) suite" where
  "plain_suite =
     \<lparr>pt_marshal = (\<lambda>p. p), pt_unmarshal = Inr, pt_equal = (=), pt_mul_base = (\<lambda>k. k),
      sc_marshal = (\<lambda>k. k), sc_unmarshal = Inr, blake2b = (\<lambda>b. 7 # b),
      auth_sign = (\<lambda>k m. Inr (k @ m)),
      auth_verify = (\<lambda>p m s. if s = p @ m then None else Some (ExtErr ''bls: invalid signature'')),
      dkg_sign = (\<lambda>k m. Inr (k @ m)),
      dkg_verify = (\<lambda>p m s. if s = p @ m then None else Some (ExtErr ''schnorr: invalid signature'')),
      dkg_MinimumT = (\<lambda>n. n div 2 + 1),
      poly_commit = (\<lambda>cs. case cs of [] \<Rightarrow> [] | c # _ \<Rightarrow> c),
      tbls_sign = (\<lambda>sh m. Inr (be_bytes 2 (nat (sh_I sh)) @ m)),
      tbls_index_of = (\<lambda>s. int (be_val (take 2 s))),
      tbls_verify_partial = (\<lambda>cs m s. if drop 2 s = m then None else Some (ExtErr ''tbls: invalid partial'')),
      tbls_recover = (\<lambda>cs m ps t n. if t \<le> int (length ps) then Inr ((case cs of [] \<Rightarrow> [] | c # _ \<Rightarrow> c) @ m)
                                     else Inl (ExtErr ''share: not enough good public shares'')),
      tbls_verify_recovered = (\<lambda>p m s. if s = p @ m then None else Some (ExtErr ''bls: invalid signature''))\<rparr>"

lemma plain_suite_laws: "codec_laws plain_suite" "auth_laws plain_suite"
  by (simp_all add: codec_laws_def auth_laws_def plain_suite_def)

section \<open>Self-signatures\<close>

lemma Pair_SelfSign_shape [shape]:
  "pair_Key (Pair_SelfSign S p) = pair_Key p"
  "id_Key (pair_Public (Pair_SelfSign S p)) = id_Key (pair_Public p)"
  "id_Addr (pair_Public (Pair_SelfSign S p)) = id_Addr (pair_Public p)"
  "id_TLS (pair_Public (Pair_SelfSign S p)) = id_TLS (pair_Public p)"
  by (simp_all add: Pair_SelfSign_def Let_def)

lemma Pair_SelfSign_valid:
  assumes "auth_laws S" "id_Key (pair_Public p) = pt_mul_base S (pair_Key p)"
  shows "Identity_ValidSignature S (pair_Public (Pair_SelfSign S p)) = None"
proof -
  obtain sig where "auth_sign S (pair_Key p) (Identity_Hash S (pair_Public p)) = Inr sig"
    "auth_verify S (pt_mul_base S (pair_Key p)) (Identity_Hash S (pair_Public p)) sig = None"
    using assms(1) unfolding auth_laws_def by blast
  then show ?thesis
    using assms(2) by (simp add: Identity_ValidSignature_def Pair_SelfSign_def Identity_Hash_def Let_def)
qed

text \<open>
  A freshly generated identity, with or without TLS, carries a valid signature of its own
  key, and the TLS variant differs from the plain one only in the TLS flag and the signature.
\<close>

lemma new_key_pairs_are_self_signed:
  assumes "auth_laws S"
  shows "Identity_ValidSignature S (pair_Public (NewKeyPair S k addr)) = None
       \<and> Identity_ValidSignature S (pair_Public (NewTLSKeyPair S k addr)) = None
       \<and> id_TLS (pair_Public (NewTLSKeyPair S k addr)) \<and> \<not> id_TLS (pair_Public (NewKeyPair S k addr))
       \<and> pair_Key (NewTLSKeyPair S k addr) = k
       \<and> id_Key (pair_Public (NewTLSKeyPair S k addr)) = pt_mul_base S k
       \<and> id_Addr (pair_Public (NewTLSKeyPair S k addr)) = addr"
  using assms by (simp add: NewKeyPair_def NewTLSKeyPair_def Let_def Pair_SelfSign_valid shape)

lemma new_key_pairs_are_self_signed_example:
  "Identity_ValidSignature plain_suite (pair_Public (NewKeyPair plain_suite [1] ''a:1'')) = None"
  using new_key_pairs_are_self_signed [OF plain_suite_laws(2)] by blast

end
