(* ===== verification/Keys_Codec.thy ===== *)
theory Keys_Codec
  imports Keys
begin

text \<open>
  The TOML and protobuf forms of the values of \<open>src/key/keys.go\<close> and \<open>src/key/node.go\<close>.
  A value handed to a \<open>FromTOML\<close> method is an interface, modelled by the datatype
  \<open>toml_value\<close> with one constructor per TOML struct, so that the failed type assertions of
  the source are branches of the model.
\<close>

section \<open>TOML structs\<close>

record PairTOML =
  pairt_Key :: string

record PublicTOML =
  pubt_Address :: string
  pubt_Key :: string
  pubt_TLS :: bool
  pubt_Signature :: string

record NodeTOML =
  nodet_Public :: PublicTOML
  nodet_Index :: uint32

record ShareTOML =
  sharet_Index :: int
  sharet_Share :: string
  sharet_Commits :: "string list"
  sharet_PrivatePoly :: "string list"

record DistPublicTOML =
  distt_Coefficients :: "string list"

record GroupTOML =
  gt_Threshold :: int
  gt_Period :: string
  gt_CatchupPeriod :: string
  gt_Nodes :: "NodeTOML list"
  gt_GenesisTime :: int
  gt_TransitionTime :: int
  gt_GenesisSeed :: string
  gt_PublicKey :: "DistPublicTOML option"

datatype toml_value =
    PairT PairTOML
  | PublicT PublicTOML
  | NodeT NodeTOML
  | ShareT ShareTOML
  | DistPublicT DistPublicTOML
  | GroupT GroupTOML

section \<open>Key pairs and identities\<close>

definition Pair_TOML :: "('p, 's) suite \<Rightarrow> ('p, 's) Pair \<Rightarrow> PairTOML" where
  "Pair_TOML S p = \<lparr>pairt_Key = ScalarToString S (pair_Key p)\<rparr>"

text \<open>The private half only: the public half of the decoded pair is a blank identity.\<close>

definition Pair_FromTOML :: "('p, 's) suite \<Rightarrow> toml_value \<Rightarrow> 's result" where
  "Pair_FromTOML S v =
     (case v of
        PairT ptoml \<Rightarrow> StringToScalar S (pairt_Key ptoml)
      | _ \<Rightarrow> Inl (Err ''private can't decode toml from non PairTOML struct''))"

definition Identity_TOML :: "('p, 's) suite \<Rightarrow> 'p Identity \<Rightarrow> PublicTOML" where
  "Identity_TOML S i =
     \<lparr>pubt_Address = id_Addr i,
      pubt_Key = PointToString S (id_Key i),
      pubt_TLS = id_TLS i,
      pubt_Signature = hex_EncodeToString (id_Signature i)\<rparr>"

definition Identity_FromTOML :: "('p, 's) suite \<Rightarrow> toml_value \<Rightarrow> 'p Identity result" where
  "Identity_FromTOML S v =
     (case v of
        PublicT ptoml \<Rightarrow>
          (case StringToPoint S (pubt_Key ptoml) of
             Inl e \<Rightarrow> Inl (Wrap ''decoding public key'' e)
           | Inr k \<Rightarrow>
               let i = \<lparr>id_Key = k, id_Addr = pubt_Address ptoml, id_TLS = pubt_TLS ptoml,
                        id_Signature = []\<rparr>
               in if pubt_Signature ptoml \<noteq> [] then
                    (case hex_DecodeString (pubt_Signature ptoml) of
                       Inl e \<Rightarrow> Inl e
                     | Inr s \<Rightarrow> Inr (i\<lparr>id_Signature := s\<rparr>))
                  else Inr i)
      | _ \<Rightarrow> Inl (Err ''public can't decode from non PublicTOML struct''))"

lemma Pair_TOML_roundtrip [wire]:
  "codec_laws S \<Longrightarrow> Pair_FromTOML S (PairT (Pair_TOML S p)) = Inr (pair_Key p)"
  by (simp add: Pair_FromTOML_def Pair_TOML_def wire)

lemma Identity_TOML_roundtrip [wire]:
  "codec_laws S \<Longrightarrow> Identity_FromTOML S (PublicT (Identity_TOML S i)) = Inr i"
  by (cases i) (simp add: Identity_FromTOML_def Identity_TOML_def Let_def wire)

section \<open>Nodes\<close>

definition Node_TOML :: "('p, 's) suite \<Rightarrow> 'p Node \<Rightarrow> NodeTOML" where
  "Node_TOML S n =
     \<lparr>nodet_Public = Identity_TOML S (node_Identity n), nodet_Index = node_Index n\<rparr>"

definition Node_FromTOML :: "('p, 's) suite \<Rightarrow> toml_value \<Rightarrow> 'p Node result" where
  "Node_FromTOML S v =
     (case v of
        NodeT ntoml \<Rightarrow>
          (case Identity_FromTOML S (PublicT (nodet_Public ntoml)) of
             Inl e \<Rightarrow> Inl e
           | Inr i \<Rightarrow> Inr \<lparr>node_Identity = i, node_Index = nodet_Index ntoml\<rparr>)
      | _ \<Rightarrow> Inl (Panic ''interface conversion''))"

lemma Node_TOML_roundtrip [wire]:
  "codec_laws S \<Longrightarrow> Node_FromTOML S (NodeT (Node_TOML S n)) = Inr n"
  by (simp add: Node_FromTOML_def Node_TOML_def wire)

section \<open>Shares and distributed keys\<close>

definition Share_TOML :: "('p, 's) suite \<Rightarrow> ('p, 's) Share \<Rightarrow> ShareTOML" where
  "Share_TOML S s =
     \<lparr>sharet_Index = sh_I (share_Share s),
      sharet_Share = ScalarToString S (sh_V (share_Share s)),
      sharet_Commits = map (PointToString S) (Commits s),
      sharet_PrivatePoly = []\<rparr>"

definition Share_FromTOML :: "('p, 's) suite \<Rightarrow> toml_value \<Rightarrow> ('p, 's) Share result" where
  "Share_FromTOML S v =
     (case v of
        ShareT t \<Rightarrow>
          (case mapE (\<lambda>(i, c).
                 case StringToPoint S c of
                   Inl e \<Rightarrow> Inl (Wrap ''share.Commit corruputed'' e)
                 | Inr p \<Rightarrow> Inr p) (enumerate 0 (sharet_Commits t)) of
             Inl e \<Rightarrow> Inl e
           | Inr commits \<Rightarrow>
               (case StringToScalar S (sharet_Share t) of
                  Inl e \<Rightarrow> Inl (Wrap ''share.Share corrupted'' e)
                | Inr sshare \<Rightarrow>
                    Inr \<lparr>Commits = commits,
                         share_Share = \<lparr>sh_I = sharet_Index t, sh_V = sshare\<rparr>\<rparr>))
      | _ \<Rightarrow> Inl (Err ''invalid struct received for share''))"

definition DistPublic_TOML :: "('p, 's) suite \<Rightarrow> 'p DistPublic \<Rightarrow> DistPublicTOML" where
  "DistPublic_TOML S d = \<lparr>distt_Coefficients = map (PointToString S) (Coefficients d)\<rparr>"

definition DistPublic_FromTOML :: "('p, 's) suite \<Rightarrow> toml_value \<Rightarrow> 'p DistPublic result" where
  "DistPublic_FromTOML S v =
     (case v of
        DistPublicT dtoml \<Rightarrow>
          (case mapE (StringToPoint S) (distt_Coefficients dtoml) of
             Inl e \<Rightarrow> Inl e
           | Inr points \<Rightarrow> Inr \<lparr>Coefficients = points\<rparr>)
      | _ \<Rightarrow> Inl (Err ''wrong interface: expected DistPublicTOML''))"

lemma DistPublic_TOML_roundtrip [wire]:
  "codec_laws S \<Longrightarrow> DistPublic_FromTOML S (DistPublicT (DistPublic_TOML S d)) = Inr d"
  by (simp add: DistPublic_FromTOML_def DistPublic_TOML_def mapE_inverse wire)

lemma mapE_enumerate: "mapE (\<lambda>(i, c). f c) (enumerate n xs) = mapE f xs"
  by (induction xs arbitrary: n) (simp_all split: sum.split)

lemma Share_TOML_roundtrip [wire]:
  assumes "codec_laws S"
  shows "Share_FromTOML S (ShareT (Share_TOML S s)) = Inr s"
proof -
  have "mapE (\<lambda>c. case StringToPoint S c of
           Inl e \<Rightarrow> Inl (Wrap ''share.Commit corruputed'' e) | Inr p \<Rightarrow> Inr p)
         (map (PointToString S) (Commits s)) = Inr (Commits s)"
    using assms by (intro mapE_inverse) (simp add: wire)
  then show ?thesis using assms
    by (simp add: Share_FromTOML_def Share_TOML_def mapE_enumerate wire)
qed

section \<open>Protobuf\<close>

record ProtoIdentity =
  pi_Address :: string
  pi_Key :: bytes
  pi_Tls :: bool
  pi_Signature :: bytes

record ProtoNode =
  pn_Public :: "ProtoIdentity option"
  pn_Index :: uint32

text \<open>A nil message has the zero value in every getter.\<close>

definition pi_GetAddress :: "ProtoIdentity option \<Rightarrow> string" where
  "pi_GetAddress n = (case n of None \<Rightarrow> [] | Some m \<Rightarrow> pi_Address m)"

definition pi_GetKey :: "ProtoIdentity option \<Rightarrow> bytes" where
  "pi_GetKey n = (case n of None \<Rightarrow> [] | Some m \<Rightarrow> pi_Key m)"

definition pi_GetSignature :: "ProtoIdentity option \<Rightarrow> bytes" where
  "pi_GetSignature n = (case n of None \<Rightarrow> [] | Some m \<Rightarrow> pi_Signature m)"

definition IdentityFromProto :: "('p, 's) suite \<Rightarrow> ProtoIdentity option \<Rightarrow> 'p Identity result" where
  "IdentityFromProto S n =
     (case SplitHostPort (pi_GetAddress n) of
        Inl e \<Rightarrow> Inl e
      | Inr _ \<Rightarrow>
          (case pt_unmarshal S (pi_GetKey n) of
             Inl e \<Rightarrow> Inl e
           | Inr public \<Rightarrow>
               (case n of
                  None \<Rightarrow> Inl (Panic ''nil pointer dereference'')
                | Some m \<Rightarrow>
                    Inr \<lparr>id_Key = public, id_Addr = pi_GetAddress n, id_TLS = pi_Tls m,
                         id_Signature = pi_GetSignature n\<rparr>)))"

definition Identity_ToProto :: "('p, 's) suite \<Rightarrow> 'p Identity \<Rightarrow> ProtoIdentity" where
  "Identity_ToProto S i =
     \<lparr>pi_Address = id_Addr i, pi_Key = pt_marshal S (id_Key i), pi_Tls = id_TLS i,
      pi_Signature = id_Signature i\<rparr>"

definition NodeFromProto :: "('p, 's) suite \<Rightarrow> ProtoNode \<Rightarrow> 'p Node result" where
  "NodeFromProto S n =
     (case IdentityFromProto S (pn_Public n) of
        Inl e \<Rightarrow> Inl e
      | Inr i \<Rightarrow> Inr \<lparr>node_Identity = i, node_Index = pn_Index n\<rparr>)"

lemma IdentityFromProto_None: "IdentityFromProto S None = Inl (Err ''missing port in address'')"
  by (simp add: IdentityFromProto_def pi_GetAddress_def SplitHostPort_def last_index_of_def)

lemma IdentityFromProto_no_panic: "IdentityFromProto S n = Inl (Panic m) \<Longrightarrow> n \<noteq> None"
  by (cases n) (simp_all add: IdentityFromProto_None)

lemma Identity_proto_roundtrip [wire]:
  assumes "codec_laws S" "is_ok (SplitHostPort (id_Addr i))"
  shows "IdentityFromProto S (Some (Identity_ToProto S i)) = Inr i"
  using assms
  by (auto simp: IdentityFromProto_def Identity_ToProto_def is_ok_iff pi_GetAddress_def
      pi_GetKey_def pi_GetSignature_def)

lemma IdentityFromProto_address: "IdentityFromProto S n = Inr i \<Longrightarrow> is_ok (SplitHostPort (id_Addr i))"
  by (auto simp: IdentityFromProto_def split: sum.splits option.splits)

end
