(* ===== verification/Go_Float.thy ===== *)
theory Go_Float
  imports Prelude Complex_Main
begin

text \<open>
  The part of Go's \<open>float64\<close> and \<open>math\<close> that the round arithmetic of
  \<open>src/chain/time.go\<close> uses. A finite \<open>float64\<close> is a rational number; every operation
  rounds its exact result to 53 significant bits, to nearest, ties to even. The values
  the sources compute lie between \<open>2^-30\<close> and \<open>2^64\<close> in magnitude, or are zero, so the
  model has no subnormal numbers and no overflow.

  Converting a \<open>float64\<close> that does not fit to \<open>uint64\<close> is implementation-dependent in Go;
  the conversion takes the implementation's choice as a parameter.
\<close>

section \<open>Binary logarithm of a rational\<close>

fun nlog2 :: "nat \<Rightarrow> nat" where
  "nlog2 n = (if n < 2 then 0 else Suc (nlog2 (n div 2)))"

declare nlog2.simps [simp del]

lemma nlog2_bounds: "0 < n \<Longrightarrow> 2 ^ nlog2 n \<le> n \<and> n < 2 ^ Suc (nlog2 n)"
proof (induction n rule: nlog2.induct)
  case (1 n)
  show ?case
  proof (cases "n < 2")
    case True
    with "1.prems" show ?thesis by (simp add: nlog2.simps [of n])
  next
    case False
    then have "2 ^ nlog2 (n div 2) \<le> n div 2 \<and> n div 2 < 2 ^ Suc (nlog2 (n div 2))"
      using "1.IH" by simp
    with False show ?thesis by (simp add: nlog2.simps [of n]) linarith
  qed
qed

lemma nlog2_unique:
  assumes "2 ^ k \<le> n" "n < 2 ^ Suc k"
  shows "nlog2 n = k"
proof -
  have "0 < n" using assms(1) by (rule less_le_trans [rotated]) simp
  then have b: "2 ^ nlog2 n \<le> n" "n < 2 ^ Suc (nlog2 n)" using nlog2_bounds by simp_all
  have "(2::nat) ^ nlog2 n < 2 ^ Suc k" "(2::nat) ^ k < 2 ^ Suc (nlog2 n)"
    using b assms by linarith+
  then have "nlog2 n < Suc k" "k < Suc (nlog2 n)"
    by (simp_all only: power_strict_increasing_iff one_less_numeral_iff semiring_norm)
  then show ?thesis by simp
qed

lemma pow2_le_of_nat: "2 ^ k \<le> n \<Longrightarrow> (2::rat) ^ k \<le> of_nat n"
  using of_nat_mono [of "2 ^ k" n, where ?'a = rat] by simp

lemma of_nat_less_pow2: "n + 1 \<le> 2 ^ k \<Longrightarrow> of_nat n + 1 \<le> (2::rat) ^ k"
  using of_nat_mono [of "n + 1" "2 ^ k", where ?'a = rat] by (simp add: add.commute)

text \<open>The exponent of a positive rational: \<open>2^e \<le> q < 2^(e+1)\<close>.\<close>

definition ilog2 :: "rat \<Rightarrow> int" where
  "ilog2 q = (if 1 \<le> q then int (nlog2 (nat \<lfloor>q\<rfloor>)) else - int (Suc (nlog2 (nat (\<lceil>1 / q\<rceil> - 1)))))"

lemma ilog2_ge1:
  assumes "1 \<le> q"
  shows "2 ^ nat (ilog2 q) \<le> q" "q < 2 ^ Suc (nat (ilog2 q))" "0 \<le> ilog2 q"
proof -
  let ?n = "nat \<lfloor>q\<rfloor>"
  have pos: "0 < ?n" using assms by simp
  have fl: "of_nat ?n \<le> q" "q < of_nat ?n + 1" 
    using assms floor_correct [of q] by (simp_all add: of_nat_nat)
  from nlog2_bounds [OF pos] have b: "2 ^ nlog2 ?n \<le> ?n" "?n + 1 \<le> 2 ^ Suc (nlog2 ?n)" by auto
  have "(2::rat) ^ nlog2 ?n \<le> of_nat ?n"
    using b(1) by (rule pow2_le_of_nat)
  moreover have "of_nat ?n + 1 \<le> (2::rat) ^ Suc (nlog2 ?n)"
    using b(2) by (rule of_nat_less_pow2)
  moreover have e: "nat (ilog2 q) = nlog2 ?n" using assms by (simp add: ilog2_def)
  ultimately show "2 ^ nat (ilog2 q) \<le> q" "q < 2 ^ Suc (nat (ilog2 q))"
    using fl by (simp_all only: e)
  show "0 \<le> ilog2 q" using assms by (simp add: ilog2_def)
qed

lemma ilog2_lt1:
  assumes "0 < q" "q < 1"
  shows "ilog2 q < 0" "1 \<le> q * 2 ^ nat (- ilog2 q)" "q * 2 ^ nat (- ilog2 q) < 2"
proof -
  let ?m = "nat (\<lceil>1 / q\<rceil> - 1)"
  have q1: "1 < 1 / q" using assms by simp
  then have c: "2 \<le> \<lceil>1 / q\<rceil>" by linarith
  then have pos: "0 < ?m" by simp
  have cl: "of_nat ?m < 1 / q" "1 / q \<le> of_nat ?m + 1"
    using c by (simp_all add: of_nat_nat) linarith+
  from nlog2_bounds [OF pos] have b: "2 ^ nlog2 ?m \<le> ?m" "?m + 1 \<le> 2 ^ Suc (nlog2 ?m)" by auto
  have lo: "(2::rat) ^ nlog2 ?m \<le> of_nat ?m"
    using b(1) by (rule pow2_le_of_nat)
  have hi: "of_nat ?m + 1 \<le> (2::rat) ^ Suc (nlog2 ?m)"
    using b(2) by (rule of_nat_less_pow2)
  have e: "ilog2 q = - int (Suc (nlog2 ?m))" using assms by (simp add: ilog2_def)
  show "ilog2 q < 0" by (simp add: e)
  have en: "nat (- ilog2 q) = Suc (nlog2 ?m)" by (simp add: e)
  have "1 / q \<le> 2 ^ Suc (nlog2 ?m)" using cl(2) hi by linarith
  then show "1 \<le> q * 2 ^ nat (- ilog2 q)"
    using assms(1) by (simp only: en) (simp add: field_simps)
  have "2 ^ nlog2 ?m < 1 / q" using cl(1) lo by linarith
  then show "q * 2 ^ nat (- ilog2 q) < 2"
    using assms(1) by (simp only: en) (simp add: field_simps)
qed

section \<open>Rounding to 53 bits\<close>

definition round_even :: "rat \<Rightarrow> int" where
  "round_even x =
     (let f = \<lfloor>x\<rfloor>; d = x - of_int f
      in if d < 1 / 2 then f else if 1 / 2 < d then f + 1 else if even f then f else f + 1)"

lemma round_even_of_int [simp]: "round_even (of_int n) = n"
  by (simp add: round_even_def)

lemma round_even_error: "\<bar>of_int (round_even x) - x\<bar> \<le> 1 / 2"
  by (auto simp: round_even_def Let_def abs_if) linarith+

text \<open>
  The value of the last place of a 53-bit significand. For \<open>q\<close> below one the exponent is
  negative and the power is written as a quotient.
\<close>

definition pow2 :: "int \<Rightarrow> rat" where
  "pow2 e = (if 0 \<le> e then 2 ^ nat e else 1 / 2 ^ nat (- e))"

lemma pow2_pos [simp]: "0 < pow2 e"
  by (simp add: pow2_def)

lemma pow2_ilog2_le: "0 < q \<Longrightarrow> pow2 (ilog2 q) \<le> q"
proof -
  assume q: "0 < q"
  show ?thesis
  proof (cases "1 \<le> q")
    case True
    then show ?thesis using ilog2_ge1 [OF True] by (simp add: pow2_def)
  next
    case False
    then have "q < 1" by simp
    then show ?thesis using ilog2_lt1 [OF q] by (simp add: pow2_def field_simps)
  qed
qed

lemma pow2_minus: "pow2 (e - 52) = pow2 e / 2 ^ 52"
proof -
  have half: "pow2 (e - 1) = pow2 e / 2" for e
  proof -
    consider "1 \<le> e" | "e = 0" | "e < 0" by linarith
    then show ?thesis
    proof cases
      case 1
      then have "nat e = Suc (nat (e - 1))" by simp
      with 1 show ?thesis by (simp add: pow2_def)
    next
      case 3
      then have "nat (1 - e) = Suc (nat (- e))" by simp
      with 3 show ?thesis by (simp add: pow2_def)
    qed (simp add: pow2_def)
  qed
  have "pow2 (e - int n) = pow2 e / 2 ^ n" for n
  proof (induction n)
    case (Suc n)
    have "pow2 (e - int (Suc n)) = pow2 (e - int n - 1)" by (simp add: algebra_simps)
    then show ?case by (simp add: half Suc.IH)
  qed simp
  from this [of 52] show ?thesis by simp
qed

definition rnd53 :: "rat \<Rightarrow> rat" where
  "rnd53 q =
     (if q = 0 then 0
      else let u = pow2 (ilog2 \<bar>q\<bar> - 52) in of_int (round_even (q / u)) * u)"

lemma rnd53_0 [simp]: "rnd53 0 = 0"
  by (simp add: rnd53_def)

lemma rnd53_error: "\<bar>rnd53 q - q\<bar> \<le> \<bar>q\<bar> / 2 ^ 53"
proof (cases "q = 0")
  case False
  define u where "u = pow2 (ilog2 \<bar>q\<bar> - 52)"
  have u: "0 < u" by (simp add: u_def)
  have "\<bar>of_int (round_even (q / u)) - q / u\<bar> * u \<le> 1 / 2 * u"
    using round_even_error [of "q / u"] u by (intro mult_right_mono) simp_all
  moreover have "\<bar>of_int (round_even (q / u)) - q / u\<bar> * u = \<bar>of_int (round_even (q / u)) * u - q\<bar>"
  proof -
    have "\<bar>of_int (round_even (q / u)) - q / u\<bar> * u = \<bar>(of_int (round_even (q / u)) - q / u) * u\<bar>"
      using u by (simp add: abs_mult)
    also have "(of_int (round_even (q / u)) - q / u) * u = of_int (round_even (q / u)) * u - q"
      using u by (simp add: field_simps)
    finally show ?thesis .
  qed
  ultimately have "\<bar>of_int (round_even (q / u)) * u - q\<bar> \<le> u / 2" by linarith
  moreover have "rnd53 q = of_int (round_even (q / u)) * u"
    using False by (simp add: rnd53_def u_def Let_def)
  ultimately have "\<bar>rnd53 q - q\<bar> \<le> u / 2" by simp
  also have "u \<le> \<bar>q\<bar> / 2 ^ 52"
    using pow2_ilog2_le [of "\<bar>q\<bar>"] False by (simp add: u_def pow2_minus)
  finally show ?thesis by simp
qed simp

lemma rnd53_of_int:
  assumes "\<bar>n\<bar> < 2 ^ 53"
  shows "rnd53 (of_int n) = of_int n"
proof (cases "n = 0")
  case False
  define q :: rat where "q = \<bar>of_int n\<bar>"
  have q1: "1 \<le> q" using False by (simp add: q_def flip: of_int_abs)
  have "q = of_int \<bar>n\<bar>" by (simp add: q_def)
  also have "\<dots> < of_int (2 ^ 53)" using assms by (simp only: of_int_less_iff)
  finally have "(2::rat) ^ nat (ilog2 q) < 2 ^ 53"
    using ilog2_ge1(1) [OF q1] by simp
  then have "nat (ilog2 q) < 53" by (rule power_less_imp_less_exp [rotated]) simp
  then have le: "nat (ilog2 q) \<le> 52" by simp
  have p: "pow2 (ilog2 q - 52) = 2 ^ nat (ilog2 q) / 2 ^ 52"
    using ilog2_ge1(3) [OF q1] by (simp only: pow2_minus) (simp add: pow2_def)
  have "(2::rat) ^ 52 = 2 ^ (52 - nat (ilog2 q)) * 2 ^ nat (ilog2 q)"
    using le by (simp flip: power_add)
  then have u: "pow2 (ilog2 q - 52) = 1 / 2 ^ (52 - nat (ilog2 q))"
    by (simp add: p field_simps)
  have "of_int n / pow2 (ilog2 q - 52) = (of_int (n * 2 ^ (52 - nat (ilog2 q))) :: rat)"
    by (simp add: u)
  then have "round_even (of_int n / pow2 (ilog2 q - 52)) = n * 2 ^ (52 - nat (ilog2 q))"
    by (metis round_even_of_int)
  then show ?thesis
    using False by (simp add: rnd53_def q_def [symmetric] u)
qed simp

section \<open>The operations\<close>

datatype float64 = Fin rat | PosInf | NegInf | NaN

text \<open>\<open>float64(n)\<close> of an integer, \<open>+\<close>, \<open>/\<close>, \<open>math.Floor\<close>.\<close>

definition f_of_int :: "int \<Rightarrow> float64" where
  "f_of_int n = Fin (rnd53 (of_int n))"

fun f_add :: "float64 \<Rightarrow> float64 \<Rightarrow> float64" where
  "f_add (Fin a) (Fin b) = Fin (rnd53 (a + b))"
| "f_add NaN y = NaN"
| "f_add x NaN = NaN"
| "f_add PosInf NegInf = NaN"
| "f_add NegInf PosInf = NaN"
| "f_add PosInf y = PosInf"
| "f_add NegInf y = NegInf"
| "f_add x y = y"

fun f_div :: "float64 \<Rightarrow> float64 \<Rightarrow> float64" where
  "f_div (Fin a) (Fin b) =
     (if b = 0 then (if a = 0 then NaN else if 0 < a then PosInf else NegInf)
      else Fin (rnd53 (a / b)))"
| "f_div NaN y = NaN"
| "f_div x NaN = NaN"
| "f_div (Fin a) y = Fin 0"
| "f_div PosInf (Fin b) = (if 0 \<le> b then PosInf else NegInf)"
| "f_div NegInf (Fin b) = (if 0 \<le> b then NegInf else PosInf)"
| "f_div x y = NaN"

fun f_floor :: "float64 \<Rightarrow> float64" where
  "f_floor (Fin a) = Fin (of_int \<lfloor>a\<rfloor>)"
| "f_floor x = x"

text \<open>Truncation towards zero, the conversion of a finite float to an integer type.\<close>

definition trunc_rat :: "rat \<Rightarrow> int" where
  "trunc_rat q = (if 0 \<le> q then \<lfloor>q\<rfloor> else \<lceil>q\<rceil>)"

text \<open>
  \<open>uint64(f)\<close>: \<open>impl\<close> is the value the implementation gives where the truncated value
  does not fit.
\<close>

definition f_to_uint64 :: "(float64 \<Rightarrow> uint64) \<Rightarrow> float64 \<Rightarrow> uint64" where
  "f_to_uint64 impl f =
     (case f of
        Fin q \<Rightarrow> (if 0 \<le> trunc_rat q \<and> trunc_rat q < 2 ^ 64 then to_uint64 (trunc_rat q) else impl f)
      | _ \<Rightarrow> impl f)"

text \<open>
  The key fact: for integers below \<open>2^53\<close> the floor of the rounded quotient is the
  integer quotient.
\<close>

lemma floor_rnd53_div:
  assumes "0 \<le> x" "x < 2 ^ 53" "0 < y"
  shows "\<lfloor>rnd53 (of_int x / of_int y)\<rfloor> = x div y"
proof -
  define q :: rat where "q = of_int x / of_int y"
  define k where "k = x div y"
  have y: "(0::rat) < of_int y" and q0: "0 \<le> q" using assms by (simp_all add: q_def)
  have "x = k * y + x mod y" by (simp add: k_def)
  moreover have "0 \<le> x mod y" "x mod y < y" using assms(3) by simp_all
  ultimately have "k * y \<le> x" "x < (k + 1) * y" by (simp_all add: algebra_simps)
  then have lo: "k * y \<le> x" and hi: "x + 1 \<le> (k + 1) * y" by simp_all
  have klo: "of_int k \<le> q"
    using lo y by (simp add: q_def pos_le_divide_eq flip: of_int_mult)
  have "of_int (x + 1) \<le> (of_int ((k + 1) * y) :: rat)" using hi by (simp only: of_int_le_iff)
  then have khi: "q + 1 / of_int y \<le> of_int k + 1"
    using y by (simp add: q_def field_simps)
  have "(of_int x :: rat) < of_int (2 ^ 53)" using assms(2) by (simp only: of_int_less_iff)
  then have eps: "q / 2 ^ 53 < 1 / of_int y" using y by (simp add: q_def field_simps)
  have err: "\<bar>rnd53 q - q\<bar> \<le> q / 2 ^ 53" using rnd53_error [of q] q0 by simp
  have up: "rnd53 q < of_int k + 1" using err eps khi by linarith
  have down: "of_int k \<le> rnd53 q"
  proof (cases "k * y = x")
    case True
    then have "q = of_int k" using y by (simp add: q_def field_simps flip: of_int_mult)
    moreover have "\<bar>k\<bar> < 2 ^ 53"
    proof -
      have "0 \<le> k" using assms by (simp add: k_def pos_imp_zdiv_nonneg_iff)
      moreover have "k \<le> x" using True assms \<open>0 \<le> k\<close>
        by (metis mult_cancel_left1 mult_left_mono mult.right_neutral int_one_le_iff_zero_less)
      ultimately show ?thesis using assms(2) by simp
    qed
    ultimately show ?thesis by (simp add: rnd53_of_int)
  next
    case False
    then have "k * y + 1 \<le> x" using lo by simp
    then have le: "of_int (k * y + 1) \<le> (of_int x :: rat)" by (simp only: of_int_le_iff)
    have "of_int k + 1 / of_int y = (of_int (k * y + 1) :: rat) / of_int y"
      using y by (simp add: field_simps)
    also have "\<dots> \<le> q" unfolding q_def using le y by (intro divide_right_mono) simp_all
    finally have "of_int k + 1 / of_int y \<le> q" .
    then show ?thesis using err eps by linarith
  qed
  have "\<lfloor>rnd53 q\<rfloor> = k" using up down by (simp add: floor_eq_iff)
  then show ?thesis by (simp add: q_def k_def)
qed

end
