(* ===== verification/Chain_Time.thy ===== *)
theory Chain_Time
  imports Go_Float
begin

text \<open>
  \<open>src/chain/time.go\<close>: the arithmetic that ties round numbers to wall-clock seconds.
  A period is a \<open>time.Duration\<close>, a signed number of nanoseconds; times are Unix seconds
  in \<open>int64\<close>; rounds are \<open>uint64\<close>. The functions go through \<open>float64\<close> as the source
  does, and wrap as the source does; the lemmas show that for whole-second periods and
  times of any practical size they compute the integer quotient and never wrap.
\<close>

section \<open>Durations\<close>

definition Second :: int where "Second = 1000000000"

text \<open>Go's \<open>/\<close> and \<open>%\<close> on \<open>int64\<close> truncate towards zero.\<close>

definition quot64 :: "int \<Rightarrow> int \<Rightarrow> int" where
  "quot64 a b = sgn a * sgn b * (\<bar>a\<bar> div \<bar>b\<bar>)"

definition rem64 :: "int \<Rightarrow> int \<Rightarrow> int" where
  "rem64 a b = a - b * quot64 a b"

text \<open>\<open>time.Duration.Seconds\<close>.\<close>

definition Seconds :: "int \<Rightarrow> float64" where
  "Seconds d =
     f_add (f_of_int (quot64 d Second)) (f_div (f_of_int (rem64 d Second)) (Fin 1000000000))"

text \<open>The conversion of a non-negative duration's seconds to an unsigned integer.\<close>

definition trunc_seconds :: "int \<Rightarrow> int" where
  "trunc_seconds d = (case Seconds d of Fin q \<Rightarrow> trunc_rat q | _ \<Rightarrow> 0)"

section \<open>The functions\<close>

definition maxTimeBuffer :: int where
  "maxTimeBuffer = 2 ^ 36"

definition TimeOfRoundErrorValue :: int where
  "TimeOfRoundErrorValue = maxInt64 - maxTimeBuffer"

text \<open>
  \<open>int(math.Log2(period.Seconds() + 1))\<close> is the exponent of the argument, which is at
  least one; \<open>math.Log2\<close> is exact enough for this unless the argument lies within one
  unit in the last place below a power of two, which needs a fractional period of more
  than twelve days.
\<close>

definition periodBits :: "int \<Rightarrow> nat" where
  "periodBits period =
     (case f_add (Seconds period) (Fin 1) of Fin q \<Rightarrow> nat (ilog2 q) | _ \<Rightarrow> 0)"

definition TimeOfRound :: "int \<Rightarrow> int \<Rightarrow> uint64 \<Rightarrow> int" where
  "TimeOfRound period genesis rnd =
     (if rnd = 0 then genesis
      else if period < 0 then TimeOfRoundErrorValue
      else if drop_bit (periodBits period + 2) (- 1) \<le> rnd then TimeOfRoundErrorValue
      else
        let delta = (rnd - 1) * to_uint64 (trunc_seconds period);
            val = wrap64 (genesis + to_int64 delta)
        in if maxInt64 - maxTimeBuffer < val then TimeOfRoundErrorValue else val)"

definition NextRound :: "(float64 \<Rightarrow> uint64) \<Rightarrow> int \<Rightarrow> int \<Rightarrow> int \<Rightarrow> uint64 \<times> int" where
  "NextRound impl now period genesis =
     (if now < genesis then (1, genesis)
      else
        let fromGenesis = wrap64 (now - genesis);
            nextRound = f_to_uint64 impl (f_floor (f_div (f_of_int fromGenesis) (Seconds period))) + 1;
            nextTime = wrap64 (genesis + to_int64 (nextRound * f_to_uint64 impl (Seconds period)))
        in (nextRound + 1, nextTime))"

definition CurrentRound :: "(float64 \<Rightarrow> uint64) \<Rightarrow> int \<Rightarrow> int \<Rightarrow> int \<Rightarrow> uint64" where
  "CurrentRound impl now period genesis =
     (let nextRound = fst (NextRound impl now period genesis)
      in if nextRound \<le> 1 then nextRound else nextRound - 1)"

lemma TimeOfRound_0 [simp]: "TimeOfRound p g 0 = g"
  by (simp add: TimeOfRound_def)

section \<open>Whole-second periods\<close>

text \<open>
  The periods the wire format can carry: a positive \<open>uint32\<close> number of seconds; and the
  genesis times of the next hundred years.
\<close>

definition period_ok :: "int \<Rightarrow> bool" where
  "period_ok P \<longleftrightarrow> 1 \<le> P \<and> P < 2 ^ 32"

definition genesis_ok :: "int \<Rightarrow> bool" where
  "genesis_ok g \<longleftrightarrow> 0 \<le> g \<and> g < 2 ^ 32"

lemma Seconds_whole:
  assumes "0 \<le> P" "P < 2 ^ 53"
  shows "Seconds (P * Second) = Fin (of_int P)"
proof -
  have "quot64 (P * Second) Second = P"
    using assms by (cases "P = 0") (simp_all add: quot64_def Second_def abs_mult)
  moreover from this have "rem64 (P * Second) Second = 0" by (simp add: rem64_def)
  ultimately show ?thesis using assms by (simp add: Seconds_def f_of_int_def rnd53_of_int)
qed

lemma trunc_seconds_whole: "0 \<le> P \<Longrightarrow> P < 2 ^ 53 \<Longrightarrow> trunc_seconds (P * Second) = P"
  by (simp add: trunc_seconds_def Seconds_whole trunc_rat_def)

lemma f_to_uint64_whole:
  assumes "0 \<le> P" "P < 2 ^ 53"
  shows "f_to_uint64 impl (Seconds (P * Second)) = to_uint64 P"
  using assms by (simp add: Seconds_whole f_to_uint64_def trunc_rat_def)

lemma periodBits_whole:
  assumes "0 \<le> P" "P < 2 ^ 52"
  shows "2 ^ periodBits (P * Second) \<le> P + 1" "P + 1 < 2 ^ Suc (periodBits (P * Second))"
proof -
  have "rnd53 (of_int P + 1) = of_int (P + 1)"
    using rnd53_of_int [of "P + 1"] assms by simp
  then have e: "periodBits (P * Second) = nat (ilog2 (of_int (P + 1)))"
    using assms by (simp add: periodBits_def Seconds_whole)
  have ge: "(1::rat) \<le> of_int (P + 1)" using assms by simp
  have "(of_int (2 ^ periodBits (P * Second)) :: rat) \<le> of_int (P + 1)"
    using ilog2_ge1(1) [OF ge] by (simp add: e)
  then show "2 ^ periodBits (P * Second) \<le> P + 1" by (simp only: of_int_le_iff)
  have "(of_int (P + 1) :: rat) < of_int (2 ^ Suc (periodBits (P * Second)))"
    using ilog2_ge1(2) [OF ge] by (simp add: e)
  then show "P + 1 < 2 ^ Suc (periodBits (P * Second))" by (simp only: of_int_less_iff)
qed

text \<open>The guard of \<open>TimeOfRound\<close>: the largest round it accepts.\<close>

lemma uint_mask64: "m \<le> 64 \<Longrightarrow> uint (mask m :: uint64) = 2 ^ m - 1"
proof -
  assume m: "m \<le> 64"
  have "uint (take_bit m (- 1) :: uint64) = take_bit m (mask 64)"
    by (simp only: unsigned_take_bit_eq unsigned_minus_1_eq_mask) simp
  also have "\<dots> = mask m" using m by (simp add: take_bit_of_mask)
  finally show ?thesis by (simp add: take_bit_minus_one_eq_mask mask_eq_exp_minus_1)
qed

lemma uint_guard: "k \<le> 60 \<Longrightarrow> uint (drop_bit (k + 2) (- 1 :: uint64)) = 2 ^ (62 - k) - 1"
  by (simp add: uint_mask64)

lemma periodBits_le:
  assumes "period_ok P"
  shows "periodBits (P * Second) \<le> 32"
proof -
  have "(2::int) ^ periodBits (P * Second) \<le> P + 1"
    using assms by (intro periodBits_whole) (simp_all add: period_ok_def)
  also have "\<dots> < 2 ^ 33" using assms by (simp add: period_ok_def)
  finally have "periodBits (P * Second) < 33" by (rule power_less_imp_less_exp [rotated]) simp
  then show ?thesis by simp
qed

text \<open>Below the guard the sum of genesis time and offset stays inside \<open>int64\<close>.\<close>

lemma offset_bound:
  assumes P: "period_ok P" and g: "genesis_ok g"
    and r: "0 \<le> r" "r < 2 ^ (62 - periodBits (P * Second))"
  shows "r * P + g < 2 ^ 63"
proof -
  define k where "k = periodBits (P * Second)"
  have P0: "0 \<le> P" using P by (simp add: period_ok_def)
  have hi: "P + 1 < 2 ^ Suc k"
    unfolding k_def using P by (intro periodBits_whole) (simp_all add: period_ok_def)
  have r': "r \<le> 2 ^ (62 - k)" using r by (simp add: k_def)
  show ?thesis
  proof (cases "k \<le> 31")
    case True
    have "r * P \<le> 2 ^ (62 - k) * (2 ^ Suc k - 2)"
      using hi r' P0 by (intro mult_mono) simp_all
    also have "\<dots> = 2 ^ (62 - k) * 2 ^ Suc k - 2 ^ (62 - k) * 2" by (simp add: algebra_simps)
    also have "(2::int) ^ (62 - k) * 2 ^ Suc k = 2 ^ 63"
    proof -
      have "62 - k + Suc k = 63" using True by simp
      then show ?thesis by (simp only: power_add [symmetric])
    qed
    also have "(2::int) ^ (62 - k) * 2 = 2 ^ (63 - k)"
    proof -
      have "63 - k = Suc (62 - k)" using True by simp
      then show ?thesis by (simp only: power_Suc2)
    qed
    finally have "r * P \<le> 2 ^ 63 - 2 ^ (63 - k)" .
    moreover have "(2::int) ^ 32 \<le> 2 ^ (63 - k)" using True by (intro power_increasing) simp_all
    ultimately show ?thesis using g by (simp add: genesis_ok_def)
  next
    case False
    then have k: "k = 32" using periodBits_le [OF P] by (simp add: k_def)
    have "r * P \<le> 2 ^ 30 * 2 ^ 32"
      using r' P k by (intro mult_mono) (simp_all add: period_ok_def)
    then show ?thesis using g by (simp add: genesis_ok_def)
  qed
qed

lemma uint_minus_1: "u \<noteq> 0 \<Longrightarrow> uint (u - 1 :: uint64) = uint u - 1"
proof -
  assume "u \<noteq> 0"
  then have "1 \<le> uint u" using uint_ge_0 [of u] by (metis uint_0_iff int_one_le_iff_zero_less order_le_less)
  moreover have "uint u < 2 ^ 64" using uint_lt2p [of u] by simp
  ultimately show ?thesis by (simp add: uint_word_ariths)
qed

lemma uint_mult_to_uint64:
  assumes "0 \<le> P" "uint u * P < 2 ^ 64"
  shows "uint (u * to_uint64 P :: uint64) = uint u * P"
proof -
  have "uint (u * to_uint64 P) = (uint u * (P mod 2 ^ 64)) mod 2 ^ 64"
    by (simp add: uint_word_ariths to_uint64_def uint_word_of_int)
  also have "\<dots> = uint u * P" using assms by (simp add: mod_mult_right_eq)
  finally show ?thesis .
qed

lemma TimeOfRound_whole:
  assumes P: "period_ok P" and g: "genesis_ok g" and r: "r \<noteq> 0"
  shows "TimeOfRound (P * Second) g r =
    (if 2 ^ (62 - periodBits (P * Second)) - 1 \<le> uint r
        \<or> TimeOfRoundErrorValue < g + (uint r - 1) * P
     then TimeOfRoundErrorValue else g + (uint r - 1) * P)"
proof -
  define k where "k = periodBits (P * Second)"
  have k: "k \<le> 32" using periodBits_le [OF P] by (simp add: k_def)
  have pos: "\<not> P * Second < 0" using P by (simp add: period_ok_def Second_def)
  have guard: "drop_bit (k + 2) (- 1) \<le> r \<longleftrightarrow> 2 ^ (62 - k) - 1 \<le> uint r"
    using uint_guard [of k] k by (simp add: word_le_def)
  show ?thesis
  proof (cases "2 ^ (62 - k) - 1 \<le> uint r")
    case True
    then show ?thesis using guard pos r by (simp add: TimeOfRound_def k_def)
  next
    case False
    have u: "uint (r - 1) = uint r - 1" using r by (rule uint_minus_1)
    have r0: "0 \<le> uint r - 1" using u uint_ge_0 [of "r - 1"] by simp
    have b: "(uint r - 1) * P + g < 2 ^ 63"
      using offset_bound [OF P g r0] False by (simp add: k_def)
    have g0: "0 \<le> g" and P0: "0 \<le> P" and P53: "P < 2 ^ 53"
      using P g by (simp_all add: period_ok_def genesis_ok_def)
    have nn: "0 \<le> (uint r - 1) * P" using r0 P0 by simp
    have d: "uint ((r - 1) * to_uint64 P) = (uint r - 1) * P"
      using uint_mult_to_uint64 [of P "r - 1"] P0 b g0 u by simp
    have "to_int64 ((r - 1) * to_uint64 P) = (uint r - 1) * P"
      using b g0 d by (simp add: to_int64_small)
    moreover have "is_int64 (g + (uint r - 1) * P)"
      using b nn g0 by (simp add: is_int64_def)
    moreover have "\<not> drop_bit (k + 2) (- 1) \<le> r" using guard False by simp
    ultimately show ?thesis
      using False pos r P0 P53
      by (simp add: TimeOfRound_def k_def trunc_seconds_whole TimeOfRoundErrorValue_def)
  qed
qed

lemma NextRound_whole:
  assumes P: "period_ok P" and g: "genesis_ok g" and now: "g \<le> now" "now - g < 2 ^ 53"
  shows "NextRound impl now (P * Second) g =
           (to_uint64 ((now - g) div P + 2), g + ((now - g) div P + 1) * P)"
proof -
  define d where "d = now - g"
  define q where "q = d div P"
  have d: "0 \<le> d" "d < 2 ^ 53" using now by (simp_all add: d_def)
  have P1: "1 \<le> P" "P < 2 ^ 32" using P by (simp_all add: period_ok_def)
  have q0: "0 \<le> q" and qd: "q * P < 2 ^ 53" and q53: "q < 2 ^ 53"
    using quotient_bounds [OF d(1) P1(1)] d(2) by (simp_all add: q_def)
  have w: "wrap64 (now - g) = d" using d by (simp add: d_def [symmetric] is_int64_def)
  have "f_floor (f_div (f_of_int d) (Seconds (P * Second))) = Fin (of_int q)"
    using d P1 by (simp add: Seconds_whole f_of_int_def rnd53_of_int floor_rnd53_div q_def)
  then have fl: "f_to_uint64 impl (f_floor (f_div (f_of_int d) (Seconds (P * Second)))) = to_uint64 q"
    using q0 q53 by (simp add: f_to_uint64_def trunc_rat_def)
  have nr: "to_uint64 q + 1 = to_uint64 (q + 1)" "2 + to_uint64 q = to_uint64 (q + 2)"
    by (simp_all add: to_uint64_def)
  have b: "(q + 1) * P < 2 ^ 54"
    using qd P1 by (simp add: algebra_simps)
  have u: "uint (to_uint64 (q + 1)) = q + 1"
    using q0 q53 by (intro uint_to_uint64) simp_all
  have m: "uint (to_uint64 (q + 1) * to_uint64 P) = (q + 1) * P"
    using uint_mult_to_uint64 [of P "to_uint64 (q + 1)"] u b P1 by simp
  have "0 \<le> (q + 1) * P" using q0 P1 by simp
  then have t: "wrap64 (g + to_int64 (to_uint64 (q + 1) * to_uint64 P)) = g + (q + 1) * P"
    using b m g by (simp add: to_int64_small is_int64_def genesis_ok_def)
  show ?thesis
    using now w fl nr t P1 by (simp add: NextRound_def Let_def f_to_uint64_whole d_def [symmetric] q_def [symmetric] del: one_add_one)
qed

lemma CurrentRound_whole:
  assumes "period_ok P" "genesis_ok g" "g \<le> now" "now - g < 2 ^ 53"
  shows "CurrentRound impl now (P * Second) g = to_uint64 ((now - g) div P + 1)"
proof -
  define q where "q = (now - g) div P"
  have q: "0 \<le> q" "q < 2 ^ 53"
    using quotient_bounds [of "now - g" P] assms by (simp_all add: q_def period_ok_def)
  have "uint (to_uint64 (q + 2)) = q + 2" using q by (intro uint_to_uint64) simp_all
  then have "\<not> to_uint64 (q + 2) \<le> 1" using q by (simp add: word_le_def)
  then show ?thesis
    using NextRound_whole [OF assms] by (simp add: CurrentRound_def q_def [symmetric] to_uint64_def)
qed

text \<open>Times within \<open>2^53\<close> seconds of genesis are far below the error value.\<close>

lemma TimeOfRound_small:
  assumes P: "period_ok P" and g: "genesis_ok g" and q: "0 \<le> q" "q * P < 2 ^ 54"
  shows "TimeOfRound (P * Second) g (to_uint64 (q + 1)) = g + q * P"
proof -
  define k where "k = periodBits (P * Second)"
  have P1: "1 \<le> P" "P < 2 ^ 32" using P by (simp_all add: period_ok_def)
  have k: "k \<le> 32" "2 ^ k \<le> P + 1"
    unfolding k_def using periodBits_le [OF P] P1 by (simp, intro periodBits_whole) simp_all
  have "q * 1 \<le> q * P" using P1 q by (intro mult_left_mono) simp_all
  then have "q + 1 < 2 ^ 64" using q by simp
  then have u: "uint (to_uint64 (q + 1)) = q + 1" using q by (intro uint_to_uint64) simp_all
  have "q * 2 ^ k \<le> q * (P + 1)" using k q by (intro mult_left_mono) simp_all
  also have "\<dots> \<le> 2 * (q * P)" using \<open>q * 1 \<le> q * P\<close> distrib_left [of q P 1] by linarith
  also have "\<dots> < 2 * 2 ^ 54" using q(2) by linarith
  finally have "q * 2 ^ k < 2 ^ 55" by simp
  moreover have "2 ^ (62 - k) * 2 ^ k = (2::int) ^ 62" using k by (simp flip: power_add)
  moreover have "(2::int) ^ k \<le> 2 ^ 32" using k by (intro power_increasing) simp_all
  ultimately have "(q + 2) * 2 ^ k < 2 ^ (62 - k) * 2 ^ k" by (simp add: algebra_simps)
  then have "q + 2 < 2 ^ (62 - k)" by simp
  moreover have "\<not> TimeOfRoundErrorValue < g + q * P"
    using q g by (simp add: TimeOfRoundErrorValue_def maxInt64_def maxTimeBuffer_def genesis_ok_def)
  moreover have "to_uint64 (q + 1) \<noteq> 0" using u q by auto
  ultimately show ?thesis using TimeOfRound_whole [OF P g] u by (simp add: k_def)
qed

section \<open>Properties\<close>



text \<open>
  Round numbers and times are inverse: the current round at the time of round \<open>r\<close>
  is \<open>r\<close>.
\<close>

lemma CurrentRound_TimeOfRound:
  assumes "period_ok P" and "genesis_ok g" and "r \<noteq> 0" and "(uint r - 1) * P < 2 ^ 53"
  shows "CurrentRound impl (TimeOfRound (P * Second) g r) (P * Second) g = r"
proof -
  define q where "q = uint r - 1"
  have q0: "0 \<le> q" using uint_minus_1 [OF assms(3)] uint_ge_0 [of "r - 1"] by (simp add: q_def)
  have r: "r = to_uint64 (q + 1)" by (simp add: q_def to_uint64_def)
  have P1: "1 \<le> P" using assms(1) by (simp add: period_ok_def)
  have lt: "q * P < 2 ^ 53" using assms(4) by (simp add: q_def)
  have "TimeOfRound (P * Second) g r = g + q * P"
    unfolding r using assms(1,2) q0 lt by (intro TimeOfRound_small) simp_all
  moreover have "0 \<le> q * P" using q0 P1 by simp
  ultimately show ?thesis
    using assms(1,2) lt P1 by (simp add: CurrentRound_whole r)
qed

lemma CurrentRound_TimeOfRound_example:
  "CurrentRound (\<lambda>_. 0) (TimeOfRound (30 * Second) 1595431050 100) (30 * Second) 1595431050 = 100"
  using CurrentRound_TimeOfRound [of 30 1595431050 100 "\<lambda>_. 0"]
  by (simp add: period_ok_def genesis_ok_def)

text \<open>
  C32. \<open>TimeOfRound\<close> never wraps around: for every round, however large, the time lies
  between genesis and the error value, and later rounds are never earlier in time.
\<close>

theorem TimeOfRound_mono_bounded:
  assumes "period_ok P" and "genesis_ok g" and "r \<le> s"
  shows "g \<le> TimeOfRound (P * Second) g r
    \<and> TimeOfRound (P * Second) g r \<le> TimeOfRound (P * Second) g s
    \<and> TimeOfRound (P * Second) g s \<le> TimeOfRoundErrorValue"
proof -
  have ge: "g \<le> TimeOfRoundErrorValue"
    using assms(2) by (simp add: TimeOfRoundErrorValue_def maxInt64_def maxTimeBuffer_def genesis_ok_def)
  have nn: "0 \<le> (uint u - 1) * P" if "u \<noteq> 0" for u :: uint64
    using uint_minus_1 [OF that] uint_ge_0 [of "u - 1"] assms(1) by (simp add: period_ok_def)
  have rs: "uint r \<le> uint s" using assms(3) by (simp add: word_le_def)
  have mono: "(uint r - 1) * P \<le> (uint s - 1) * P"
    using rs assms(1) by (intro mult_right_mono) (simp_all add: period_ok_def)
  have s: "g \<le> TimeOfRound (P * Second) g s \<and> TimeOfRound (P * Second) g s \<le> TimeOfRoundErrorValue"
    using ge nn [of s] by (cases "s = 0") (auto simp: TimeOfRound_whole [OF assms(1,2)])
  show ?thesis
  proof (cases "r = 0")
    case True
    then show ?thesis using s by simp
  next
    case False
    then have "s \<noteq> 0" using rs by (metis linorder_not_le uint_0_iff word_le_0_iff assms(3))
    then show ?thesis
      using False ge nn [OF False] mono rs s
      by (auto simp: TimeOfRound_whole [OF assms(1,2) False] TimeOfRound_whole [OF assms(1,2) \<open>s \<noteq> 0\<close>])
  qed
qed

theorem TimeOfRound_mono_bounded_witness:
  "TimeOfRound (30 * Second) 1595431050 5 \<le> TimeOfRound (30 * Second) 1595431050 (- 1)"
  using TimeOfRound_mono_bounded [of 30 1595431050 5 "- 1"]
  by (simp add: period_ok_def genesis_ok_def)

end
