(* ===== verification/Go_Duration.thy ===== *)
theory Go_Duration
  imports Chain_Time
begin

text \<open>
  \<open>time.Duration.String\<close> and \<open>time.ParseDuration\<close> of Go's standard library, which the
  group file uses for the period and the catchup period, and the round trip for the
  whole-second durations that group files hold.
\<close>

section \<open>Printing\<close>

definition digit :: "nat \<Rightarrow> char" where
  "digit n = char_of (48 + n)"

fun fmtInt :: "nat \<Rightarrow> string" where
  "fmtInt n = (if n < 10 then [digit n] else fmtInt (n div 10) @ [digit (n mod 10)])"

declare fmtInt.simps [simp del]

text \<open>
  \<open>fmtFrac\<close> prints \<open>u / 10^prec\<close>'s fraction, dropping trailing zeros and, when nothing is
  left, the decimal point; it returns the integer part.
\<close>

fun fracDigits :: "nat \<Rightarrow> nat \<Rightarrow> bool \<Rightarrow> string \<Rightarrow> bool \<times> string" where
  "fracDigits 0 v started acc = (started, acc)"
| "fracDigits (Suc k) v started acc =
     (let d = v mod 10; started' = (started \<or> d \<noteq> 0)
      in fracDigits k (v div 10) started' (if started' then digit d # acc else acc))"

definition fmtFrac :: "nat \<Rightarrow> nat \<Rightarrow> string \<times> nat" where
  "fmtFrac v prec =
     (let (p, ds) = fracDigits prec v False []
      in (if p then CHR ''.'' # ds else [], v div 10 ^ prec))"

text \<open>The micro sign of the unit of microseconds, in UTF-8.\<close>

definition micro :: string where
  "micro = [char_of (194::nat), char_of (181::nat)]"

definition Duration_String :: "int \<Rightarrow> string" where
  "Duration_String d =
     (let u = nat \<bar>d\<bar>;
          body =
            (if u = 0 then ''0s''
             else if u < 1000 then fmtInt u @ ''ns''
             else if u < 1000000 then (let (f, i) = fmtFrac u 3 in fmtInt i @ f @ micro @ ''s'')
             else if u < 1000000000 then (let (f, i) = fmtFrac u 6 in fmtInt i @ f @ ''ms'')
             else
               (let (f, i) = fmtFrac u 9;
                    secs = fmtInt (i mod 60) @ f @ ''s'';
                    m = i div 60
                in if m = 0 then secs
                   else let mins = fmtInt (m mod 60) @ ''m'' @ secs; h = m div 60
                        in if h = 0 then mins else fmtInt h @ ''h'' @ mins))
      in if d < 0 then CHR ''-'' # body else body)"

section \<open>Parsing\<close>

definition is_digit :: "char \<Rightarrow> bool" where
  "is_digit c \<longleftrightarrow> 48 \<le> (of_char c :: nat) \<and> (of_char c :: nat) \<le> 57"

text \<open>\<open>leadingInt\<close> reads a decimal number and fails on overflow of an \<open>int64\<close>.\<close>

fun leadingInt :: "int \<Rightarrow> string \<Rightarrow> (int \<times> string) option" where
  "leadingInt x [] = Some (x, [])"
| "leadingInt x (c # cs) =
     (if \<not> is_digit c then Some (x, c # cs)
      else if maxInt64 div 10 < x then None
      else let y = wrap64 (wrap64 (x * 10 + int (of_char c)) - 48)
           in if y < 0 then None else leadingInt y cs)"

text \<open>\<open>leadingFraction\<close> reads the digits after the point; past overflow it only skips.\<close>

fun leadingFraction :: "int \<Rightarrow> rat \<Rightarrow> bool \<Rightarrow> string \<Rightarrow> int \<times> rat \<times> string" where
  "leadingFraction x scale overflow [] = (x, scale, [])"
| "leadingFraction x scale overflow (c # cs) =
     (if \<not> is_digit c then (x, scale, c # cs)
      else if overflow then leadingFraction x scale True cs
      else if maxInt64 div 10 < x then leadingFraction x scale True cs
      else let y = wrap64 (wrap64 (x * 10 + int (of_char c)) - 48)
           in if y < 0 then leadingFraction x scale True cs
              else leadingFraction y (rnd53 (scale * 10)) False cs)"

definition unitMap :: "string \<Rightarrow> int option" where
  "unitMap u =
     (if u = ''ns'' then Some 1
      else if u = ''us'' \<or> u = micro @ ''s'' \<or> u = [char_of (206::nat), char_of (188::nat)] @ ''s'' then Some 1000
      else if u = ''ms'' then Some 1000000
      else if u = ''s'' then Some Second
      else if u = ''m'' then Some (60 * Second)
      else if u = ''h'' then Some (3600 * Second)
      else None)"

text \<open>One number with its unit, from the front of the string: its value and the rest.\<close>

definition parse_term :: "string \<Rightarrow> (int \<times> string) option" where
  "parse_term s =
     (if s = [] \<or> \<not> (hd s = CHR ''.'' \<or> is_digit (hd s)) then None
      else
        case leadingInt 0 s of
          None \<Rightarrow> None
        | Some (v, s1) \<Rightarrow>
            let pre = (length s \<noteq> length s1);
                (f, scale, s2, post) =
                  (if s1 \<noteq> [] \<and> hd s1 = CHR ''.'' then
                     (let (f, scale, s2) = leadingFraction 0 1 False (tl s1)
                      in (f, scale, s2, length (tl s1) \<noteq> length s2))
                   else (0, 1, s1, False));
                u = takeWhile (\<lambda>c. \<not> (c = CHR ''.'' \<or> is_digit c)) s2;
                rest = dropWhile (\<lambda>c. \<not> (c = CHR ''.'' \<or> is_digit c)) s2
            in if \<not> pre \<and> \<not> post then None
               else if u = [] then None
               else
                 case unitMap u of
                   None \<Rightarrow> None
                 | Some unit \<Rightarrow>
                     if maxInt64 div unit < v then None
                     else
                       let v1 = v * unit;
                           v2 = (if 0 < f
                                 then wrap64 (v1 + trunc_rat (rnd53 (rnd53 (of_int f) * rnd53 (of_int unit / scale))))
                                 else v1)
                       in if v2 < 0 then None else Some (v2, rest))"

lemma leadingInt_length: "leadingInt x s = Some (v, r) \<Longrightarrow> length r \<le> length s"
  by (induction x s rule: leadingInt.induct) (auto simp: Let_def split: if_splits)

lemma leadingFraction_length: "leadingFraction x sc ov s = (f, sc', r) \<Longrightarrow> length r \<le> length s"
  by (induction x sc ov s rule: leadingFraction.induct) (auto simp: Let_def split: if_splits)

lemma parse_term_length:
  assumes "parse_term s = Some (v, r)"
  shows "length r < length s"
proof -
  have drop: "length (dropWhile Q xs) < length xs" if "takeWhile Q xs \<noteq> []" for Q and xs :: string
    using that by (cases xs) (auto split: if_splits simp: le_imp_less_Suc length_dropWhile_le)
  obtain v1 s1 where s1: "leadingInt 0 s = Some (v1, s1)"
    using assms by (auto simp: parse_term_def split: if_splits option.splits)
  have l1: "length s1 \<le> length s" using s1 by (rule leadingInt_length)
  show ?thesis
  proof (cases "s1 \<noteq> [] \<and> hd s1 = CHR ''.''")
    case True
    obtain f sc s2 where f: "leadingFraction 0 1 False (tl s1) = (f, sc, s2)" by (metis prod_cases3)
    have "length s2 \<le> length (tl s1)" using f by (rule leadingFraction_length)
    then show ?thesis
      using assms True s1 f l1 drop [of _ s2]
      by (fastforce simp: parse_term_def Let_def split: if_splits option.splits)
  next
    case False
    then show ?thesis
      using assms s1 l1 drop [of _ s1]
      by (fastforce simp: parse_term_def Let_def split: if_splits option.splits)
  qed
qed

function parse_loop :: "string \<Rightarrow> int \<Rightarrow> int option" where
  "parse_loop s d =
     (if s = [] then Some d
      else case parse_term s of
             None \<Rightarrow> None
           | Some (v, rest) \<Rightarrow>
               let d' = wrap64 (d + v) in if d' < 0 then None else parse_loop rest d')"
  by pat_completeness auto
termination
  by (relation "measure (\<lambda>(s, d). length s)") (auto dest: parse_term_length)

declare parse_loop.simps [simp del]

definition ParseDuration :: "string \<Rightarrow> int result" where
  "ParseDuration orig =
     (let neg = (orig \<noteq> [] \<and> hd orig = CHR ''-'');
          s = (if orig \<noteq> [] \<and> (hd orig = CHR ''-'' \<or> hd orig = CHR ''+'') then tl orig else orig)
      in if s = ''0'' then Inr 0
         else if s = [] then Inl (Err ''time: invalid duration'')
         else case parse_loop s 0 of
                None \<Rightarrow> Inl (Err ''time: invalid duration'')
              | Some d \<Rightarrow> Inr (if neg then - d else d))"

section \<open>Round trip of whole seconds\<close>

lemma of_char_digit [simp]: "n < 10 \<Longrightarrow> (of_char (digit n) :: nat) = 48 + n"
  by (simp add: digit_def)

lemma is_digit_digit [simp]: "n < 10 \<Longrightarrow> is_digit (digit n)"
  by (simp add: is_digit_def)

lemma leadingInt_digit:
  assumes "n < 10" "int (10 * q + n) \<le> maxInt64"
  shows "leadingInt (int q) (digit n # r) = leadingInt (int (10 * q + n)) r"
proof -
  have q: "\<not> maxInt64 div 10 < int q" using assms by (auto simp: maxInt64_def)
  have "wrap64 (wrap64 (int q * 10 + int (48 + n)) - 48) = int (10 * q + n)"
    using assms by (simp add: wrap64_def maxInt64_def mod_simps algebra_simps)
  with q assms show ?thesis by (simp add: Let_def)
qed

lemma leadingInt_fmtInt:
  "int n \<le> maxInt64 \<Longrightarrow> leadingInt 0 (fmtInt n @ r) = leadingInt (int n) r"
proof (induction n arbitrary: r rule: fmtInt.induct)
  case (1 n)
  show ?case
  proof (cases "n < 10")
    case True
    then show ?thesis
      using leadingInt_digit [of n 0 r] "1.prems" by (simp add: fmtInt.simps [of n])
  next
    case False
    have "leadingInt 0 (fmtInt n @ r) = leadingInt (int (n div 10)) (digit (n mod 10) # r)"
      using False "1.IH" [OF False, of "digit (n mod 10) # r"] "1.prems"
      by (subst fmtInt.simps) (auto simp: maxInt64_def)
    also have "\<dots> = leadingInt (int (10 * (n div 10) + n mod 10)) r"
      using "1.prems" by (intro leadingInt_digit) auto
    finally show ?thesis by simp
  qed
qed

lemma fmtInt_first: "\<exists>c cs. fmtInt n = c # cs \<and> is_digit c"
proof (induction n rule: fmtInt.induct)
  case (1 n)
  show ?case
    by (cases "n < 10") (use 1 in \<open>fastforce simp: fmtInt.simps [of n]\<close>)+
qed

text \<open>A printed number followed by a one-letter unit parses as one term.\<close>

lemma parse_term_unit:
  assumes u: "unitMap [c] = Some unit" and c: "\<not> is_digit c" "c \<noteq> CHR ''.''"
    and r: "r = [] \<or> is_digit (hd r)"
    and b: "int n \<le> maxInt64 div unit" "0 < unit"
  shows "parse_term (fmtInt n @ c # r) = Some (int n * unit, r)"
proof -
  obtain d ds where f: "fmtInt n = d # ds" "is_digit d" using fmtInt_first by blast
  have "maxInt64 div unit \<le> maxInt64"
    using b zdiv_mono2 [of maxInt64 1 unit] by (simp add: maxInt64_def)
  then have l: "leadingInt 0 (fmtInt n @ c # r) = Some (int n, c # r)"
    using b c by (subst leadingInt_fmtInt) auto
  have t: "takeWhile (\<lambda>c. \<not> (c = CHR ''.'' \<or> is_digit c)) (c # r) = [c]"
          "dropWhile (\<lambda>c. \<not> (c = CHR ''.'' \<or> is_digit c)) (c # r) = r"
    using c r by (cases r; auto)+
  show ?thesis
    using f l t u c b by (simp add: parse_term_def Let_def not_less)
qed

lemma fmtInt_hd_digit [simp]: "is_digit (hd (fmtInt n))" "fmtInt n \<noteq> []"
  using fmtInt_first [of n] by auto

lemma parse_loop_term:
  assumes "parse_term s = Some (v, rest)" "0 \<le> d" "0 \<le> v" "d + v \<le> maxInt64"
  shows "parse_loop s d = parse_loop rest (d + v)"
proof -
  have "s \<noteq> []" using assms(1) by (auto simp: parse_term_def)
  moreover have "wrap64 (d + v) = d + v"
    using assms by (simp add: wrap64_def maxInt64_def)
  ultimately show ?thesis
    using assms by (simp add: parse_loop.simps [of s])
qed

lemma parse_loop_unit:
  assumes "unitMap [c] = Some unit" "\<not> is_digit c" "c \<noteq> CHR ''.''"
    and "r = [] \<or> is_digit (hd r)" "0 < unit" "0 \<le> d" "d + int n * unit \<le> maxInt64"
  shows "parse_loop (fmtInt n @ c # r) d = parse_loop r (d + int n * unit)"
proof (rule parse_loop_term)
  have "int n \<le> maxInt64 div unit"
    using assms zdiv_mono1 [of "int n * unit" maxInt64 unit] by simp
  then show "parse_term (fmtInt n @ c # r) = Some (int n * unit, r)"
    using assms by (intro parse_term_unit) auto
qed (use assms in auto)

lemma fracDigits_zero: "fracDigits k 0 False [] = (False, [])"
  by (induction k) auto

lemma fracDigits_mult: "fracDigits k (n * 10 ^ k) False [] = (False, [])"
proof (induction k arbitrary: n)
  case (Suc k)
  have "n * 10 ^ Suc k mod 10 = 0" "n * 10 ^ Suc k div 10 = n * 10 ^ k" by simp_all
  then show ?case using Suc by (simp only: fracDigits.simps Let_def) simp
qed simp

lemma fmtFrac_whole [simp]: "fmtFrac (n * 1000000000) 9 = ([], n)"
  using fracDigits_mult [of 9 n] by (simp add: fmtFrac_def)

lemma Duration_String_seconds:
  "Duration_String (int n * Second) =
     (if n = 0 then ''0s''
      else if n < 60 then fmtInt n @ ''s''
      else if n < 3600 then fmtInt (n div 60) @ ''m'' @ fmtInt (n mod 60) @ ''s''
      else fmtInt (n div 3600) @ ''h'' @ fmtInt (n div 60 mod 60) @ ''m'' @ fmtInt (n mod 60) @ ''s'')"
proof -
  have u: "nat \<bar>int n * Second\<bar> = n * 1000000000"
    by (simp add: Second_def abs_mult nat_mult_distrib)
  have d: "n div 60 div 60 = n div 3600" by (simp add: div_mult2_eq [symmetric])
  show ?thesis
    unfolding Duration_String_def u
    using d by (auto simp: Let_def Second_def)
qed

lemma unitMap_hms [simp]:
  "unitMap ''s'' = Some Second" "unitMap ''m'' = Some (60 * Second)" "unitMap ''h'' = Some (3600 * Second)"
  by (simp_all add: unitMap_def micro_def)

lemma not_digit_hms [simp]:
  "\<not> is_digit (CHR ''s'')" "\<not> is_digit (CHR ''m'')" "\<not> is_digit (CHR ''h'')" "\<not> is_digit (CHR ''-'')"
  "\<not> is_digit (CHR ''+'')"
  by (simp_all add: is_digit_def)

lemma fmtInt_0: "fmtInt 0 = ''0''"
  by code_simp

lemmas parse_loop_h = parse_loop_unit [where c = "CHR ''h''" and unit = "3600 * Second"]
lemmas parse_loop_m = parse_loop_unit [where c = "CHR ''m''" and unit = "60 * Second"]
lemmas parse_loop_s = parse_loop_unit [where c = "CHR ''s''" and unit = Second and r = "[]"]

lemma Second_pos [simp]: "0 < Second"
  by (simp add: Second_def)

lemma parse_loop_s_end:
  assumes "0 \<le> d" "d + int c * Second \<le> maxInt64"
  shows "parse_loop (fmtInt c @ ''s'') d = Some (d + int c * Second)"
  using assms by (simp add: parse_loop_s parse_loop.simps [of "[]"])

lemma parse_loop_m_end:
  assumes "0 \<le> d" "d + int b * (60 * Second) + int c * Second \<le> maxInt64"
  shows "parse_loop (fmtInt b @ ''m'' @ fmtInt c @ ''s'') d = Some (d + int b * (60 * Second) + int c * Second)"
proof -
  have "d + int b * (60 * Second) \<le> maxInt64" using assms by (simp add: Second_def)
  then show ?thesis
    using assms by (simp add: parse_loop_m) (rule parse_loop_s_end, simp_all add: Second_def)
qed

lemma parse_loop_h_end:
  assumes "0 \<le> d" "d + int a * (3600 * Second) + int b * (60 * Second) + int c * Second \<le> maxInt64"
  shows "parse_loop (fmtInt a @ ''h'' @ fmtInt b @ ''m'' @ fmtInt c @ ''s'') d =
           Some (d + int a * (3600 * Second) + int b * (60 * Second) + int c * Second)"
proof -
  have "d + int a * (3600 * Second) \<le> maxInt64" using assms by (simp add: Second_def)
  then have "parse_loop (fmtInt a @ ''h'' @ fmtInt b @ ''m'' @ fmtInt c @ ''s'') d =
             parse_loop (fmtInt b @ ''m'' @ fmtInt c @ ''s'') (d + int a * (3600 * Second))"
    using assms by (simp add: parse_loop_h)
  also have "\<dots> = Some (d + int a * (3600 * Second) + int b * (60 * Second) + int c * Second)"
    using assms by (intro parse_loop_m_end) (simp_all add: Second_def)
  finally show ?thesis .
qed

lemma ParseDuration_digit:
  assumes "parse_loop (fmtInt n @ c # r) 0 = Some d"
  shows "ParseDuration (fmtInt n @ c # r) = Inr d"
proof -
  obtain b bs where f: "fmtInt n = b # bs" "is_digit b" using fmtInt_first by blast
  then have "b \<noteq> CHR ''-''" "b \<noteq> CHR ''+''" by auto
  with f assms show ?thesis by (simp add: ParseDuration_def)
qed

lemma hms_split:
  fixes n :: nat
  shows "int (n div 60) * (60 * Second) + int (n mod 60) * Second = int n * Second"
    and "int (n div 3600) * (3600 * Second) + int (n div 60 mod 60) * (60 * Second) + int (n mod 60) * Second
         = int n * Second"
proof -
  have ms: "int (n div 60) * 60 + int (n mod 60) = int n"
    using arg_cong [OF div_mult_mod_eq [of n 60], of int] unfolding of_nat_add of_nat_mult of_nat_numeral .
  have h: "int (n div 3600) * 60 + int (n div 60 mod 60) = int (n div 60)"
    using div_mult_mod_eq [of "n div 60" 60] by (simp add: div_mult2_eq [symmetric] flip: of_nat_mult of_nat_add)
  show "int (n div 60) * (60 * Second) + int (n mod 60) * Second = int n * Second"
    using arg_cong [OF ms, of "\<lambda>x. x * Second"] by (simp only: distrib_right mult.assoc)
  have "int (n div 3600) * (3600 * Second) + int (n div 60 mod 60) * (60 * Second)
        = (int (n div 3600) * 60 + int (n div 60 mod 60)) * (60 * Second)"
    by (simp add: distrib_right)
  then show "int (n div 3600) * (3600 * Second) + int (n div 60 mod 60) * (60 * Second) + int (n mod 60) * Second
         = int n * Second"
    unfolding h using arg_cong [OF ms, of "\<lambda>x. x * Second"] by (simp only: distrib_right mult.assoc)
qed

theorem ParseDuration_Duration_String [wire]:
  assumes "0 \<le> p" "p * Second \<le> maxInt64"
  shows "ParseDuration (Duration_String (p * Second)) = Inr (p * Second)"
proof -
  obtain n where p: "p = int n" using assms(1) nonneg_int_cases by blast
  have "parse_loop (fmtInt (n div 3600) @ ''h'' @ fmtInt (n div 60 mod 60) @ ''m'' @ fmtInt (n mod 60) @ ''s'') 0
        = Some (int n * Second)"
    using parse_loop_h_end [of 0 "n div 3600" "n div 60 mod 60" "n mod 60"] assms(2)
    unfolding p add_0_left hms_split by blast
  then have h: "ParseDuration (fmtInt (n div 3600) @ ''h'' @ fmtInt (n div 60 mod 60) @ ''m'' @ fmtInt (n mod 60) @ ''s'')
                = Inr (int n * Second)"
    unfolding append_Cons append_Nil by (rule ParseDuration_digit)
  have "parse_loop (fmtInt (n div 60) @ ''m'' @ fmtInt (n mod 60) @ ''s'') 0 = Some (int n * Second)"
    using parse_loop_m_end [of 0 "n div 60" "n mod 60"] assms(2)
    unfolding p add_0_left hms_split by blast
  then have m: "ParseDuration (fmtInt (n div 60) @ ''m'' @ fmtInt (n mod 60) @ ''s'') = Inr (int n * Second)"
    unfolding append_Cons append_Nil by (rule ParseDuration_digit)
  have "parse_loop (fmtInt n @ ''s'') 0 = Some (int n * Second)"
    using parse_loop_s_end [of 0 n] assms(2) unfolding p add_0_left by blast
  then have s: "ParseDuration (fmtInt n @ ''s'') = Inr (int n * Second)"
    by (rule ParseDuration_digit)
  show ?thesis
    unfolding p Duration_String_seconds using h m s fmtInt_0 by (cases "n = 0") simp_all
qed

end
