(* ===== verification/Key_Group.thy ===== *)
theory Key_Group
  imports Keys_Codec Go_Duration "HOL-Library.Multiset"
begin

text \<open>
  \<open>src/key/group.go\<close>: the group, its hash and genesis seed, its TOML and protobuf forms,
  and the construction of a new group from a list of identities.

  \<open>Hash\<close> sorts the slice of nodes in place and \<open>GetGenesisSeed\<close> stores the seed it
  computes, so both, and their callers, return the group they leave behind. \<open>sort.Slice\<close>
  and \<open>sort.Sort\<close> fix no order among equal elements; the model keeps equal elements in
  their order, and the lemmas on order assume distinct indices or keys.
\<close>

section \<open>The group\<close>

record 'p Group =
  g_Threshold :: int
  g_Period :: int
  g_CatchupPeriod :: int
  g_Nodes :: "'p Node list"
  g_GenesisTime :: int
  g_GenesisSeed :: "bytes option"
  g_TransitionTime :: int
  g_PublicKey :: "'p DistPublic option"

definition Group_Find :: "('p, 's) suite \<Rightarrow> 'p Group \<Rightarrow> 'p Identity \<Rightarrow> 'p Node option" where
  "Group_Find S g pub = find (\<lambda>pu. Identity_Equal S (node_Identity pu) pub) (g_Nodes g)"

definition Group_Node :: "'p Group \<Rightarrow> uint32 \<Rightarrow> 'p Node option" where
  "Group_Node g i = find (\<lambda>n. node_Index n = i) (g_Nodes g)"

record 'p DkgNode =
  dn_Index :: uint32
  dn_Public :: 'p

definition Group_DKGNodes :: "'p Group \<Rightarrow> 'p DkgNode list" where
  "Group_DKGNodes g =
     map (\<lambda>n. \<lparr>dn_Index = node_Index n, dn_Public = id_Key (node_Identity n)\<rparr>) (g_Nodes g)"

definition Group_Points :: "'p Group \<Rightarrow> 'p list" where
  "Group_Points g = map (\<lambda>n. id_Key (node_Identity n)) (g_Nodes g)"

definition Group_Len :: "'p Group \<Rightarrow> int" where
  "Group_Len g = int (length (g_Nodes g))"

definition sort_nodes :: "'p Node list \<Rightarrow> 'p Node list" where
  "sort_nodes ns = sort_key node_Index ns"

definition Group_Hash :: "('p, 's) suite \<Rightarrow> 'p Group \<Rightarrow> bytes \<times> 'p Group" where
  "Group_Hash S g =
     (let g = g\<lparr>g_Nodes := sort_nodes (g_Nodes g)\<rparr>;
          buf = concat (map (Node_Hash S) (g_Nodes g))
              @ le_uint32 (to_uint32 (g_Threshold g))
              @ le_uint64 (to_uint64 (g_GenesisTime g))
              @ (if g_TransitionTime g \<noteq> 0 then le_int64 (g_TransitionTime g) else [])
              @ (case g_PublicKey g of None \<Rightarrow> [] | Some d \<Rightarrow> DistPublic_Hash S d)
      in (blake2b S buf, g))"

definition Group_GetGenesisSeed :: "('p, 's) suite \<Rightarrow> 'p Group \<Rightarrow> bytes \<times> 'p Group" where
  "Group_GetGenesisSeed S g =
     (case g_GenesisSeed g of
        Some seed \<Rightarrow> (seed, g)
      | None \<Rightarrow> let (h, g') = Group_Hash S g in (h, g'\<lparr>g_GenesisSeed := Some h\<rparr>))"

text \<open>The result of \<open>Equal\<close> with the two groups it leaves behind.\<close>

definition Group_Equal :: "('p, 's) suite \<Rightarrow> 'p Group \<Rightarrow> 'p Group \<Rightarrow> bool \<times> 'p Group \<times> 'p Group" where
  "Group_Equal S g g2 =
     (if g_Threshold g \<noteq> g_Threshold g2 then (False, g, g2)
      else if Duration_String (g_Period g) \<noteq> Duration_String (g_Period g2) then (False, g, g2)
      else if Group_Len g \<noteq> Group_Len g2 then (False, g, g2)
      else
        let (seed, g') = Group_GetGenesisSeed S g;
            (seed2, g2') = Group_GetGenesisSeed S g2
        in if seed \<noteq> seed2 then (False, g', g2')
           else if g_TransitionTime g' \<noteq> g_TransitionTime g2' then (False, g', g2')
           else if \<not> list_all2 (Node_Equal S) (g_Nodes g') (g_Nodes g2') then (False, g', g2')
           else
             (case (g_PublicKey g', g_PublicKey g2') of
                (Some d, Some d2) \<Rightarrow> (DistPublic_Equal S d d2, g', g2')
              | (Some _, None) \<Rightarrow> (False, g', g2')
              | (None, Some _) \<Rightarrow> (False, g', g2')
              | (None, None) \<Rightarrow> (True, g', g2')))"

section \<open>TOML\<close>

text \<open>
  \<open>FromTOML\<close> fills the receiver \<open>g\<close>: the transition time, the seed and the distributed key
  keep their previous value when the file has none.
\<close>

definition Group_FromTOML :: "('p, 's) suite \<Rightarrow> 'p Group \<Rightarrow> toml_value \<Rightarrow> 'p Group result" where
  "Group_FromTOML S g v =
     (case v of
        GroupT gt \<Rightarrow>
          (case mapE (\<lambda>(i, n). case Node_FromTOML S (NodeT n) of
                                  Inl e \<Rightarrow> Inl (Wrap ''group: unwrapping node'' e)
                                | Inr x \<Rightarrow> Inr x) (enumerate 0 (gt_Nodes gt)) of
             Inl e \<Rightarrow> Inl e
           | Inr nodes \<Rightarrow>
               if gt_Threshold gt < dkg_MinimumT S (int (length (gt_Nodes gt)))
               then Inl (Err ''group file have threshold 0'')
               else if int (length nodes) < gt_Threshold gt
               then Inl (Err ''group file threshold greater than number of participants'')
               else
                 (case (case gt_PublicKey gt of
                          None \<Rightarrow> Inr (g_PublicKey g)
                        | Some dt \<Rightarrow>
                            (case DistPublic_FromTOML S (DistPublicT dt) of
                               Inl e \<Rightarrow> Inl (Wrap ''group: unwrapping distributed public key'' e)
                             | Inr d \<Rightarrow> Inr (Some d))) of
                    Inl e \<Rightarrow> Inl e
                  | Inr pk \<Rightarrow>
                      (case ParseDuration (gt_Period gt) of
                         Inl e \<Rightarrow> Inl e
                       | Inr period \<Rightarrow>
                           (case (if gt_CatchupPeriod gt = [] then Inr 0
                                  else ParseDuration (gt_CatchupPeriod gt)) of
                              Inl e \<Rightarrow> Inl e
                            | Inr catchup \<Rightarrow>
                                let g' = g\<lparr>g_Threshold := gt_Threshold gt, g_Period := period,
                                          g_CatchupPeriod := catchup, g_Nodes := nodes,
                                          g_GenesisTime := gt_GenesisTime gt,
                                          g_TransitionTime :=
                                            (if gt_TransitionTime gt \<noteq> 0 then gt_TransitionTime gt
                                             else g_TransitionTime g),
                                          g_PublicKey := pk\<rparr>
                                in if gt_GenesisSeed gt \<noteq> [] then
                                     (case hex_DecodeString (gt_GenesisSeed gt) of
                                        Inl e \<Rightarrow> Inl (Wrap ''group: decoding genesis seed'' e)
                                      | Inr seed \<Rightarrow> Inr (g'\<lparr>g_GenesisSeed := Some seed\<rparr>))
                                   else Inr g'))))
      | _ \<Rightarrow> Inl (Err ''grouptoml unknown''))"

text \<open>The nodes are converted before \<open>GetGenesisSeed\<close> may sort them.\<close>

definition Group_TOML :: "('p, 's) suite \<Rightarrow> 'p Group \<Rightarrow> GroupTOML \<times> 'p Group" where
  "Group_TOML S g =
     (let nodes = map (Node_TOML S) (g_Nodes g);
          (seed, g') = Group_GetGenesisSeed S g
      in (\<lparr>gt_Threshold = g_Threshold g, gt_Period = Duration_String (g_Period g),
          gt_CatchupPeriod = Duration_String (g_CatchupPeriod g), gt_Nodes = nodes,
          gt_GenesisTime = g_GenesisTime g,
          gt_TransitionTime = (if g_TransitionTime g \<noteq> 0 then g_TransitionTime g else 0),
          gt_GenesisSeed = hex_EncodeToString seed,
          gt_PublicKey = map_option (DistPublic_TOML S) (g_PublicKey g)\<rparr>, g'))"

section \<open>New groups\<close>

definition copyAndSort :: "('p, 's) suite \<Rightarrow> 'p Identity list \<Rightarrow> 'p Node list" where
  "copyAndSort S xs =
     (let nl = sort_key (\<lambda>i. pt_marshal S (id_Key i)) xs
      in map (\<lambda>(i, idn). \<lparr>node_Identity = idn, node_Index = of_nat i\<rparr>) (enumerate 0 nl))"

definition NewGroup :: "('p, 's) suite \<Rightarrow> 'p Identity list \<Rightarrow> int \<Rightarrow> int \<Rightarrow> int \<Rightarrow> int \<Rightarrow> 'p Group" where
  "NewGroup S xs threshold genesis period catchupPeriod =
     \<lparr>g_Threshold = threshold, g_Period = period, g_CatchupPeriod = catchupPeriod,
      g_Nodes = copyAndSort S xs, g_GenesisTime = genesis, g_GenesisSeed = None,
      g_TransitionTime = 0, g_PublicKey = None\<rparr>"

definition LoadGroup :: "'p Node list \<Rightarrow> int \<Rightarrow> 'p DistPublic \<Rightarrow> int \<Rightarrow> int \<Rightarrow> 'p Group" where
  "LoadGroup xs genesis public period transition =
     \<lparr>g_Threshold = int (length (Coefficients public)), g_Period = period,
      g_CatchupPeriod = quot64 period 2, g_Nodes = xs, g_GenesisTime = genesis,
      g_GenesisSeed = None, g_TransitionTime = transition, g_PublicKey = Some public\<rparr>"

definition MinimumT :: "int \<Rightarrow> int" where
  "MinimumT n = drop_bit 1 n + 1"

definition DefaultThreshold :: "int \<Rightarrow> int" where
  "DefaultThreshold n = MinimumT n"

section \<open>Protobuf\<close>

record GroupPacket =
  gp_Nodes :: "ProtoNode list"
  gp_Threshold :: uint32
  gp_Period :: uint32
  gp_GenesisTime :: uint64
  gp_TransitionTime :: uint64
  gp_GenesisSeed :: "bytes option"
  gp_DistKey :: "bytes list"
  gp_CatchupPeriod :: uint32

text \<open>A nil packet has no nodes and the threshold zero, which is below any minimum.\<close>

definition GroupFromProto :: "('p, 's) suite \<Rightarrow> GroupPacket option \<Rightarrow> 'p Group result" where
  "GroupFromProto S pkt =
     (case mapE (NodeFromProto S) (case pkt of None \<Rightarrow> [] | Some g \<Rightarrow> gp_Nodes g) of
        Inl e \<Rightarrow> Inl e
      | Inr nodes \<Rightarrow>
          let n = int (length nodes);
              thr = (case pkt of None \<Rightarrow> 0 | Some g \<Rightarrow> uint (gp_Threshold g))
          in if thr < MinimumT n then Inl (Errf ''invalid threshold: %d vs %d (minimum)'' [thr, MinimumT n])
             else
               (case pkt of
                  None \<Rightarrow> Inl (Err ''genesis time zero'')
                | Some g \<Rightarrow>
                    let genesisTime = to_int64 (gp_GenesisTime g) in
                    if genesisTime = 0 then Inl (Err ''genesis time zero'')
                    else
                      let period = wrap64 (uint (gp_Period g) * Second) in
                      if period = 0 then Inl (Err ''period time is zero'')
                      else
                        let catchupPeriod = wrap64 (uint (gp_CatchupPeriod g) * Second) in
                        (case mapE (pt_unmarshal S) (gp_DistKey g) of
                           Inl e \<Rightarrow> Inl (Wrap ''invalid distributed key coefficients'' e)
                         | Inr coeffs \<Rightarrow>
                             if coeffs \<noteq> [] \<and> int (length coeffs) \<noteq> thr
                             then Inl (Errf ''public coefficient length %d is not equal to threshold %d''
                                         [int (length coeffs), thr])
                             else
                               Inr \<lparr>g_Threshold = thr, g_Period = period, g_CatchupPeriod = catchupPeriod,
                                    g_Nodes = nodes, g_GenesisTime = genesisTime,
                                    g_GenesisSeed = gp_GenesisSeed g,
                                    g_TransitionTime = to_int64 (gp_TransitionTime g),
                                    g_PublicKey = (if coeffs \<noteq> [] then Some \<lparr>Coefficients = coeffs\<rparr>
                                                   else None)\<rparr>)))"

text \<open>\<open>uint32(f)\<close>, with the implementation's value where the truncated one does not fit.\<close>

definition f_to_uint32 :: "(float64 \<Rightarrow> uint32) \<Rightarrow> float64 \<Rightarrow> uint32" where
  "f_to_uint32 impl f =
     (case f of
        Fin q \<Rightarrow> (if 0 \<le> trunc_rat q \<and> trunc_rat q < 2 ^ 32 then to_uint32 (trunc_rat q) else impl f)
      | _ \<Rightarrow> impl f)"

definition Node_ToProto :: "('p, 's) suite \<Rightarrow> 'p Node \<Rightarrow> ProtoNode" where
  "Node_ToProto S n =
     \<lparr>pn_Public = Some \<lparr>pi_Address = Identity_Address (node_Identity n),
                        pi_Key = pt_marshal S (id_Key (node_Identity n)),
                        pi_Tls = Identity_IsTLS (node_Identity n),
                        pi_Signature = id_Signature (node_Identity n)\<rparr>,
      pn_Index = node_Index n\<rparr>"

definition Group_ToProto ::
  "(float64 \<Rightarrow> uint32) \<Rightarrow> ('p, 's) suite \<Rightarrow> 'p Group \<Rightarrow> GroupPacket \<times> 'p Group" where
  "Group_ToProto impl S g =
     (let ids = map (Node_ToProto S) (g_Nodes g);
          (seed, g') = Group_GetGenesisSeed S g
      in (\<lparr>gp_Nodes = ids, gp_Threshold = to_uint32 (g_Threshold g),
          gp_Period = f_to_uint32 impl (Seconds (g_Period g)),
          gp_GenesisTime = to_uint64 (g_GenesisTime g),
          gp_TransitionTime = to_uint64 (g_TransitionTime g),
          gp_GenesisSeed = Some seed,
          gp_DistKey = (case g_PublicKey g of None \<Rightarrow> []
                        | Some d \<Rightarrow> map (pt_marshal S) (Coefficients d)),
          gp_CatchupPeriod = f_to_uint32 impl (Seconds (g_CatchupPeriod g))\<rparr>, g'))"

definition Group_UnsignedIdentities :: "('p, 's) suite \<Rightarrow> 'p Group \<Rightarrow> 'p Node list" where
  "Group_UnsignedIdentities S g =
     filter (\<lambda>n. Identity_ValidSignature S (node_Identity n) \<noteq> None) (g_Nodes g)"

section \<open>Seed and hash\<close>

text \<open>What \<open>Hash\<close> and \<open>GetGenesisSeed\<close> change of the group.\<close>

definition with_seed :: "('p, 's) suite \<Rightarrow> 'p Group \<Rightarrow> 'p Group" where
  "with_seed S g = g\<lparr>g_GenesisSeed := Some (fst (Group_GetGenesisSeed S g))\<rparr>"

lemma snd_Group_Hash [simp]: "snd (Group_Hash S g) = g\<lparr>g_Nodes := sort_nodes (g_Nodes g)\<rparr>"
  by (simp add: Group_Hash_def Let_def)

lemma mset_sort_nodes [simp]: "mset (sort_nodes ns) = mset ns"
  by (simp add: sort_nodes_def)

lemma length_sort_nodes [simp]: "length (sort_nodes ns) = length ns"
  by (simp add: sort_nodes_def)

lemma sort_nodes_idem [simp]: "sort_nodes (sort_nodes ns) = sort_nodes ns"
  unfolding sort_nodes_def by (rule sort_key_id_if_sorted) simp

lemma sort_key_perm:
  assumes "mset xs = mset ys" "distinct (map f xs)"
  shows "sort_key f xs = sort_key f ys"
  using assms by (intro sort_key_inj_key_eq) (auto simp: distinct_map)

lemma sort_nodes_perm:
  "mset ns = mset ms \<Longrightarrow> distinct (map node_Index ns) \<Longrightarrow> sort_nodes ns = sort_nodes ms"
  unfolding sort_nodes_def by (rule sort_key_perm)

lemma Group_Hash_nodes_cong:
  assumes "sort_nodes ns = sort_nodes (g_Nodes g)"
  shows "fst (Group_Hash S (g\<lparr>g_Nodes := ns\<rparr>)) = fst (Group_Hash S g)"
  using assms by (simp add: Group_Hash_def Let_def)

lemma Group_Hash_ignores [simp]:
  "fst (Group_Hash S (g\<lparr>g_GenesisSeed := x\<rparr>)) = fst (Group_Hash S g)"
  "fst (Group_Hash S (g\<lparr>g_Period := d\<rparr>)) = fst (Group_Hash S g)"
  "fst (Group_Hash S (g\<lparr>g_CatchupPeriod := d\<rparr>)) = fst (Group_Hash S g)"
  by (simp_all add: Group_Hash_def Let_def)

lemma snd_GetGenesisSeed:
  "snd (Group_GetGenesisSeed S g) =
     (if g_GenesisSeed g = None then (with_seed S g)\<lparr>g_Nodes := sort_nodes (g_Nodes g)\<rparr> else g)"
  by (auto simp: Group_GetGenesisSeed_def with_seed_def Group_Hash_def Let_def split: option.split)

lemma GetGenesisSeed_stable [simp]:
  "Group_GetGenesisSeed S (snd (Group_GetGenesisSeed S g)) = Group_GetGenesisSeed S g"
  by (cases "g_GenesisSeed g") (auto simp: Group_GetGenesisSeed_def case_prod_unfold Let_def)

section \<open>Round trips\<close>

text \<open>
  The groups a node works with: addresses with a port, whole-second periods in the range of
  the wire format, a threshold between the minimum and the number of nodes, and one
  coefficient per unit of threshold when the key is known.
\<close>

definition secs_ok :: "int \<Rightarrow> bool" where
  "secs_ok d \<longleftrightarrow> d mod Second = 0 \<and> 0 \<le> d \<and> d div Second < 2 ^ 32"

definition group_wf :: "'p Group \<Rightarrow> bool" where
  "group_wf g \<longleftrightarrow>
     MinimumT (Group_Len g) \<le> g_Threshold g \<and> g_Threshold g \<le> Group_Len g \<and> g_Threshold g < 2 ^ 32
   \<and> secs_ok (g_Period g) \<and> g_Period g \<noteq> 0 \<and> secs_ok (g_CatchupPeriod g)
   \<and> g_GenesisTime g \<noteq> 0 \<and> is_int64 (g_GenesisTime g) \<and> is_int64 (g_TransitionTime g)
   \<and> list_all (\<lambda>n. is_ok (SplitHostPort (id_Addr (node_Identity n)))) (g_Nodes g)
   \<and> (case g_PublicKey g of None \<Rightarrow> True | Some d \<Rightarrow> int (length (Coefficients d)) = g_Threshold g)"

lemma secs_okE:
  assumes "secs_ok d"
  obtains P where "d = P * Second" "0 \<le> P" "P < 2 ^ 32"
proof
  show "d = d div Second * Second" using assms by (auto simp: secs_ok_def)
  show "0 \<le> d div Second" "d div Second < 2 ^ 32"
    using assms by (auto simp: secs_ok_def Second_def pos_imp_zdiv_nonneg_iff)
qed

lemma secs_ok_wire [wire]:
  assumes "secs_ok d"
  shows "wrap64 (uint (f_to_uint32 impl (Seconds d)) * Second) = d"
proof -
  obtain P where P: "d = P * Second" "0 \<le> P" "P < 2 ^ 32" using assms by (rule secs_okE)
  then have "f_to_uint32 impl (Seconds d) = to_uint32 P"
    by (simp add: Seconds_whole f_to_uint32_def trunc_rat_def)
  moreover have "is_int64 d" using P by (simp add: is_int64_def Second_def)
  ultimately show ?thesis using P by (simp add: uint_to_uint32)
qed

lemma secs_ok_toml [wire]: "secs_ok d \<Longrightarrow> ParseDuration (Duration_String d) = Inr d"
  by (erule secs_okE, hypsubst, rule ParseDuration_Duration_String) (simp_all add: maxInt64_def Second_def)

lemma NodeFromProto_ToProto [wire]:
  assumes "codec_laws S" "is_ok (SplitHostPort (id_Addr (node_Identity n)))"
  shows "NodeFromProto S (Node_ToProto S n) = Inr n"
  using Identity_proto_roundtrip [OF assms]
  by (simp add: NodeFromProto_def Node_ToProto_def Identity_ToProto_def Identity_Address_def Identity_IsTLS_def)

lemma MinimumT_pos: "0 \<le> n \<Longrightarrow> 0 < MinimumT n"
  by (simp add: MinimumT_def)

lemma group_wf_nodes:
  "group_wf g \<Longrightarrow> n \<in> set (g_Nodes g) \<Longrightarrow> is_ok (SplitHostPort (id_Addr (node_Identity n)))"
  by (auto simp: group_wf_def list_all_iff)

lemma GroupFromProto_ToProto [wire]:
  assumes S: "codec_laws S" and g: "group_wf g"
  shows "GroupFromProto S (Some (fst (Group_ToProto impl S g))) = Inr (with_seed S g)"
proof -
  have nodes: "mapE (NodeFromProto S) (map (Node_ToProto S) (g_Nodes g)) = Inr (g_Nodes g)"
    using S group_wf_nodes [OF g] by (intro mapE_inverse) (simp add: wire)
  have keys: "mapE (pt_unmarshal S) (map (pt_marshal S) cs) = Inr cs" for cs
    using S by (intro mapE_inverse) simp
  have thr: "0 < g_Threshold g" "uint (to_uint32 (g_Threshold g)) = g_Threshold g"
    using g MinimumT_pos [of "Group_Len g"] by (auto simp: group_wf_def Group_Len_def intro!: uint_to_uint32)
  have pk: "g_PublicKey g = None \<or> (\<exists>cs. g_PublicKey g = Some \<lparr>Coefficients = cs\<rparr> \<and> cs \<noteq> [] \<and>
              int (length cs) = g_Threshold g)"
    using g thr by (cases "g_PublicKey g"; cases "the (g_PublicKey g)") (auto simp: group_wf_def)
  obtain seed g' where sd: "Group_GetGenesisSeed S g = (seed, g')" by fastforce
  show ?thesis
    using g thr pk sd nodes keys
    by (cases g) (auto simp: GroupFromProto_def Group_ToProto_def with_seed_def group_wf_def wire Let_def
        Group_Len_def)
qed

lemma NodeFromProto_address:
  "NodeFromProto S m = Inr n \<Longrightarrow> is_ok (SplitHostPort (id_Addr (node_Identity n)))"
  by (auto simp: NodeFromProto_def split: sum.splits dest: IdentityFromProto_address)

lemma secs_ok_uint32: "secs_ok (wrap64 (uint (w :: uint32) * Second))"
proof -
  have "uint w < 2 ^ 32" using uint_bounded [of w] by simp
  moreover obtain n where "uint w = int n" using nonneg_int_cases [OF uint_ge_0] by blast
  ultimately have "is_int64 (uint w * Second)" by (simp add: is_int64_def Second_def)
  then show ?thesis
    using \<open>uint w < 2 ^ 32\<close> by (simp add: secs_ok_def Second_def)
qed

lemma GroupFromProto_okE:
  assumes "GroupFromProto S pkt = Inr g"
  obtains p where "pkt = Some p" "mapE (NodeFromProto S) (gp_Nodes p) = Inr (g_Nodes g)"
    "g_Period g = wrap64 (uint (gp_Period p) * Second)" "g_Period g \<noteq> 0"
    "g_CatchupPeriod g = wrap64 (uint (gp_CatchupPeriod p) * Second)"
    "is_int64 (g_GenesisTime g)" "g_GenesisTime g \<noteq> 0" "is_int64 (g_TransitionTime g)"
    "g_Threshold g = uint (gp_Threshold p)" "MinimumT (Group_Len g) \<le> g_Threshold g"
    "case g_PublicKey g of None \<Rightarrow> True | Some d \<Rightarrow> int (length (Coefficients d)) = g_Threshold g"
  using assms
  by (auto simp: GroupFromProto_def Group_Len_def Let_def to_int64_def
      split: sum.splits option.splits if_splits)

text \<open>Every packet that decodes gives a well-formed group, but for the upper bound of the threshold.\<close>

lemma GroupFromProto_wf:
  assumes "GroupFromProto S pkt = Inr g" "g_Threshold g \<le> Group_Len g"
  shows "group_wf g"
  using assms(1)
proof (rule GroupFromProto_okE)
  fix p
  assume p: "mapE (NodeFromProto S) (gp_Nodes p) = Inr (g_Nodes g)"
    "g_Period g = wrap64 (uint (gp_Period p) * Second)" "g_Period g \<noteq> 0"
    "g_CatchupPeriod g = wrap64 (uint (gp_CatchupPeriod p) * Second)"
    "is_int64 (g_GenesisTime g)" "g_GenesisTime g \<noteq> 0" "is_int64 (g_TransitionTime g)"
    "g_Threshold g = uint (gp_Threshold p)" "MinimumT (Group_Len g) \<le> g_Threshold g"
    "case g_PublicKey g of None \<Rightarrow> True | Some d \<Rightarrow> int (length (Coefficients d)) = g_Threshold g"
  have "is_ok (SplitHostPort (id_Addr (node_Identity n)))" if "n \<in> set (g_Nodes g)" for n
    using mapE_set [OF p(1) that] NodeFromProto_address by blast
  moreover have "uint (gp_Threshold p) < 2 ^ 32" using uint_bounded [of "gp_Threshold p"] by simp
  ultimately show ?thesis
    using p assms(2) by (auto simp: group_wf_def list_all_iff secs_ok_uint32)
qed

lemma Group_FromTOML_TOML [wire]:
  assumes S: "codec_laws S" and g: "group_wf g" and m: "dkg_MinimumT S (Group_Len g) \<le> g_Threshold g"
    and seed: "fst (Group_GetGenesisSeed S g) \<noteq> []"
    and z: "g_TransitionTime z = 0" "g_PublicKey z = None"
  shows "Group_FromTOML S z (GroupT (fst (Group_TOML S g))) = Inr (with_seed S g)"
proof -
  have "mapE (\<lambda>n. case Node_FromTOML S (NodeT n) of
                     Inl e \<Rightarrow> Inl (Wrap ''group: unwrapping node'' e) | Inr x \<Rightarrow> Inr x)
             (map (Node_TOML S) (g_Nodes g)) = Inr (g_Nodes g)"
    using S by (intro mapE_inverse) (simp add: wire)
  then have nodes: "mapE (\<lambda>(i, n). case Node_FromTOML S (NodeT n) of
                     Inl e \<Rightarrow> Inl (Wrap ''group: unwrapping node'' e) | Inr x \<Rightarrow> Inr x)
             (enumerate 0 (map (Node_TOML S) (g_Nodes g))) = Inr (g_Nodes g)"
    by (simp only: mapE_enumerate)
  obtain sd g' where sd: "Group_GetGenesisSeed S g = (sd, g')" by fastforce
  have hex: "hex_EncodeToString sd \<noteq> []" using seed sd by (cases sd) (auto simp: hex_EncodeToString_def)
  have d: "ParseDuration (Duration_String (g_Period g)) = Inr (g_Period g)"
          "ParseDuration (Duration_String (g_CatchupPeriod g)) = Inr (g_CatchupPeriod g)"
    using g by (auto simp: group_wf_def wire)
  moreover have "Duration_String (g_CatchupPeriod g) \<noteq> []"
    using d(2) by (auto simp: ParseDuration_def)
  ultimately show ?thesis
    using g nodes sd hex S m z
    by (cases "g_PublicKey g"; cases g; cases z)
      (simp_all add: Group_FromTOML_def Group_TOML_def with_seed_def group_wf_def wire Let_def Group_Len_def)
qed

section \<open>New groups\<close>

lemma length_copyAndSort [simp]: "length (copyAndSort S xs) = length xs"
  by (simp add: copyAndSort_def Let_def)

lemma copyAndSort_nth:
  assumes "i < length xs"
  shows "copyAndSort S xs ! i =
           \<lparr>node_Identity = sort_key (\<lambda>i. pt_marshal S (id_Key i)) xs ! i, node_Index = of_nat i\<rparr>"
  using assms by (simp add: copyAndSort_def Let_def nth_enumerate_eq)

lemma copyAndSort_identities: "map node_Identity (copyAndSort S xs) = sort_key (\<lambda>i. pt_marshal S (id_Key i)) xs"
  by (rule nth_equalityI) (simp_all add: copyAndSort_nth)

lemma copyAndSort_perm:
  assumes "codec_laws S" "distinct (map id_Key xs)" "mset xs = mset ys"
  shows "copyAndSort S xs = copyAndSort S ys"
proof -
  have "distinct (map (\<lambda>i. pt_marshal S (id_Key i)) xs)"
    using assms(1,2) by (auto simp: distinct_map inj_on_def pt_marshal_inject)
  then have "sort_key (\<lambda>i. pt_marshal S (id_Key i)) xs = sort_key (\<lambda>i. pt_marshal S (id_Key i)) ys"
    using assms(3) by (intro sort_key_perm)
  then show ?thesis by (simp add: copyAndSort_def)
qed

lemma copyAndSort_Index_distinct:
  assumes "length xs \<le> 2 ^ 32"
  shows "distinct (map node_Index (copyAndSort S xs))"
proof -
  have "inj_on (of_nat :: nat \<Rightarrow> uint32) {..<length xs}"
  proof (rule inj_onI)
    fix i j assume "i \<in> {..<length xs}" "j \<in> {..<length xs}" "(of_nat i :: uint32) = of_nat j"
    then show "i = j"
      using assms by (simp add: word_of_nat_eq_iff take_bit_nat_eq_self)
  qed
  then show ?thesis
    by (simp add: distinct_conv_nth copyAndSort_nth) (meson inj_on_def lessThan_iff)
qed

section \<open>Properties\<close>

text \<open>
  C26. A well-formed group that is encoded into a group packet and decoded at the other end is
  the same group with its genesis seed filled in, and its hash, which the leader signs and
  every receiver recomputes, is unchanged.
\<close>

theorem group_packet_roundtrip:
  assumes "codec_laws S" "group_wf g"
  shows "GroupFromProto S (Some (fst (Group_ToProto impl S g))) = Inr (with_seed S g)
       \<and> fst (Group_Hash S (with_seed S g)) = fst (Group_Hash S g)
       \<and> fst (Group_GetGenesisSeed S (with_seed S g)) = fst (Group_GetGenesisSeed S g)"
  using assms by (simp add: wire) (simp add: with_seed_def Group_GetGenesisSeed_def)

definition example_group :: "bytes Group" where
  "example_group =
     LoadGroup
       [\<lparr>node_Identity = \<lparr>id_Key = [1], id_Addr = ''b:1'', id_TLS = True, id_Signature = []\<rparr>, node_Index = 1\<rparr>,
        \<lparr>node_Identity = \<lparr>id_Key = [2], id_Addr = ''a:1'', id_TLS = False, id_Signature = [9]\<rparr>, node_Index = 0\<rparr>]
       1600000000 \<lparr>Coefficients = [[3], [4]]\<rparr> (30 * Second) 0"

lemma example_group_wf: "group_wf example_group"
  by (simp add: group_wf_def example_group_def LoadGroup_def MinimumT_def Group_Len_def secs_ok_def Second_def
      is_int64_def quot64_def SplitHostPort_plain) code_simp

theorem group_packet_roundtrip_witness:
  "GroupFromProto plain_suite (Some (fst (Group_ToProto (\<lambda>_. 0) plain_suite example_group)))
     = Inr (with_seed plain_suite example_group)"
  using group_packet_roundtrip [OF plain_suite_laws(1) example_group_wf] by blast

text \<open>
  C27. The group file: a well-formed group saved as TOML and loaded into an empty group is the
  same group with its genesis seed filled in.
\<close>

theorem group_file_roundtrip:
  assumes "codec_laws S" "group_wf g" "dkg_MinimumT S (Group_Len g) \<le> g_Threshold g"
    and "fst (Group_GetGenesisSeed S g) \<noteq> []" "g_TransitionTime z = 0" "g_PublicKey z = None"
  shows "Group_FromTOML S z (GroupT (fst (Group_TOML S g))) = Inr (with_seed S g)"
  using assms by (rule Group_FromTOML_TOML)

theorem group_file_roundtrip_witness:
  "Group_FromTOML plain_suite
     \<lparr>g_Threshold = 0, g_Period = 0, g_CatchupPeriod = 0, g_Nodes = [], g_GenesisTime = 0,
      g_GenesisSeed = None, g_TransitionTime = 0, g_PublicKey = None\<rparr>
     (GroupT (fst (Group_TOML plain_suite example_group))) = Inr (with_seed plain_suite example_group)"
  by (rule group_file_roundtrip [OF plain_suite_laws(1) example_group_wf])
    (simp_all add: plain_suite_def example_group_def LoadGroup_def Group_Len_def
      Group_GetGenesisSeed_def Group_Hash_def Let_def)

text \<open>
  \<open>NewGroup\<close> does not depend on the order in which the identities arrive: with distinct
  keys every ordering gives the same group; its nodes are sorted by key, hold exactly the
  given identities, and the node at position \<open>i\<close> has index \<open>i\<close>.
\<close>

lemma NewGroup_canonical:
  assumes "codec_laws S" "distinct (map id_Key xs)" "mset ys = mset xs" "length xs \<le> 2 ^ 32"
  shows "NewGroup S ys t ge p c = NewGroup S xs t ge p c
       \<and> sorted (map (\<lambda>n. pt_marshal S (id_Key (node_Identity n))) (g_Nodes (NewGroup S xs t ge p c)))
       \<and> mset (map node_Identity (g_Nodes (NewGroup S xs t ge p c))) = mset xs
       \<and> (\<forall>i < length xs. unat (node_Index (g_Nodes (NewGroup S xs t ge p c) ! i)) = i)"
proof -
  have "sorted (map (\<lambda>i. pt_marshal S (id_Key i)) (map node_Identity (copyAndSort S xs)))"
    by (simp only: copyAndSort_identities sorted_sort_key)
  moreover have "mset (map node_Identity (copyAndSort S xs)) = mset xs"
    by (simp only: copyAndSort_identities mset_sort)
  moreover have "copyAndSort S ys = copyAndSort S xs"
    using assms by (intro copyAndSort_perm [symmetric]) auto
  ultimately show ?thesis
    using assms(4) by (simp add: NewGroup_def copyAndSort_nth unat_of_nat comp_def)
qed

lemma NewGroup_canonical_example:
  "NewGroup plain_suite
     [\<lparr>id_Key = [2], id_Addr = ''a:1'', id_TLS = False, id_Signature = []\<rparr>,
      \<lparr>id_Key = [1], id_Addr = ''b:1'', id_TLS = False, id_Signature = []\<rparr>] 2 5 6 7
   = NewGroup plain_suite
     [\<lparr>id_Key = [1], id_Addr = ''b:1'', id_TLS = False, id_Signature = []\<rparr>,
      \<lparr>id_Key = [2], id_Addr = ''a:1'', id_TLS = False, id_Signature = []\<rparr>] 2 5 6 7"
  by (rule conjunct1 [OF NewGroup_canonical [OF plain_suite_laws(1)]]) simp_all

text \<open>
  The hash of a group depends only on the set of its nodes and not on their order in the
  slice, as long as the indices are distinct; and hashing is idempotent on what it leaves
  behind.
\<close>

lemma Group_Hash_order_independent:
  assumes "distinct (map node_Index (g_Nodes g))" "mset ns = mset (g_Nodes g)"
  shows "fst (Group_Hash S (g\<lparr>g_Nodes := ns\<rparr>)) = fst (Group_Hash S g)
       \<and> Group_Hash S (snd (Group_Hash S g)) = Group_Hash S g"
proof -
  have "sort_nodes ns = sort_nodes (g_Nodes g)"
    using assms by (metis sort_nodes_perm)
  then show ?thesis
    by (simp add: Group_Hash_nodes_cong) (simp add: Group_Hash_def Let_def)
qed

lemma Group_Hash_order_independent_example:
  "fst (Group_Hash plain_suite (example_group\<lparr>g_Nodes := rev (g_Nodes example_group)\<rparr>))
     = fst (Group_Hash plain_suite example_group)"
  by (rule conjunct1 [OF Group_Hash_order_independent]) (simp_all add: example_group_def LoadGroup_def)

text \<open>
  C33. Every group packet that decodes has a threshold of at least a strict majority of its
  nodes, a non-zero period and genesis time, one coefficient per unit of threshold, and nodes
  whose addresses have a port; when in addition the threshold does not exceed the number of
  nodes, the group is well-formed, so it survives being sent again.
\<close>

theorem decoded_group_is_wf:
  assumes "GroupFromProto S pkt = Inr g"
  shows "Group_Len g < 2 * g_Threshold g
       \<and> 0 < g_Period g \<and> g_GenesisTime g \<noteq> 0
       \<and> (case g_PublicKey g of None \<Rightarrow> True | Some d \<Rightarrow> int (length (Coefficients d)) = g_Threshold g)
       \<and> (group_wf g \<longleftrightarrow> g_Threshold g \<le> Group_Len g)"
proof -
  have "Group_Len g < 2 * MinimumT (Group_Len g)" by (simp add: MinimumT_def drop_bit_eq_div)
  then have "Group_Len g < 2 * g_Threshold g"
    using assms by (auto elim!: GroupFromProto_okE)
  moreover have "0 < g_Period g"
    using assms secs_ok_uint32 by (auto elim!: GroupFromProto_okE simp: secs_ok_def less_le)
  moreover have "group_wf g \<longleftrightarrow> g_Threshold g \<le> Group_Len g"
    using GroupFromProto_wf [OF assms] by (auto simp: group_wf_def)
  ultimately show ?thesis
    using assms by (auto elim!: GroupFromProto_okE)
qed

theorem decoded_group_is_wf_witness:
  "Group_Len (with_seed plain_suite example_group) < 2 * g_Threshold (with_seed plain_suite example_group)"
  using decoded_group_is_wf [OF GroupFromProto_ToProto [OF plain_suite_laws(1) example_group_wf]] by blast

definition large_threshold_packet :: GroupPacket where
  "large_threshold_packet =
     \<lparr>gp_Nodes = [\<lparr>pn_Public = Some \<lparr>pi_Address = ''a:1'', pi_Key = [1], pi_Tls = False, pi_Signature = []\<rparr>,
                   pn_Index = 0\<rparr>],
      gp_Threshold = 5, gp_Period = 30, gp_GenesisTime = 10, gp_TransitionTime = 0,
      gp_GenesisSeed = Some [1, 2], gp_DistKey = [], gp_CatchupPeriod = 1\<rparr>"

definition large_threshold_group :: "bytes Group" where
  "large_threshold_group =
     \<lparr>g_Threshold = 5, g_Period = 30 * Second, g_CatchupPeriod = Second,
      g_Nodes = [\<lparr>node_Identity = \<lparr>id_Key = [1], id_Addr = ''a:1'', id_TLS = False, id_Signature = []\<rparr>,
                  node_Index = 0\<rparr>],
      g_GenesisTime = 10, g_GenesisSeed = Some [1, 2], g_TransitionTime = 0, g_PublicKey = None\<rparr>"

text \<open>
  A packet whose threshold exceeds its number of nodes decodes all the same, although the
  same group is refused when it comes from a file: \<open>GroupFromProto\<close> checks only the lower
  bound.
\<close>

lemma GroupFromProto_accepts_large_threshold:
  "GroupFromProto plain_suite (Some large_threshold_packet) = Inr large_threshold_group
   \<and> Group_Len large_threshold_group < g_Threshold large_threshold_group
   \<and> Group_FromTOML plain_suite large_threshold_group (GroupT (fst (Group_TOML plain_suite large_threshold_group)))
       = Inl (Err ''group file threshold greater than number of participants'')"
proof (intro conjI)
  have host: "SplitHostPort ''a:1'' = Inr (''a'', ''1'')" by code_simp
  show "GroupFromProto plain_suite (Some large_threshold_packet) = Inr large_threshold_group"
    using host by (simp add: Let_def GroupFromProto_def large_threshold_packet_def large_threshold_group_def NodeFromProto_def
        IdentityFromProto_def plain_suite_def MinimumT_def to_int64_def wrap64_def Second_def
        pi_GetAddress_def pi_GetKey_def pi_GetSignature_def)
  show "Group_Len large_threshold_group < g_Threshold large_threshold_group"
    by (simp add: Group_Len_def large_threshold_group_def)
  show "Group_FromTOML plain_suite large_threshold_group
          (GroupT (fst (Group_TOML plain_suite large_threshold_group)))
        = Inl (Err ''group file threshold greater than number of participants'')"
    by (simp add: Group_FromTOML_def Group_TOML_def large_threshold_group_def Group_GetGenesisSeed_def
        wire plain_suite_laws enumerate_eq_zip) (simp add: plain_suite_def)
qed

text \<open>What \<open>Equal\<close> compares of a node.\<close>

definition node_view :: "'p Node \<Rightarrow> uint32 \<times> string \<times> bool \<times> 'p" where
  "node_view n =
     (node_Index n, id_Addr (node_Identity n), id_TLS (node_Identity n), id_Key (node_Identity n))"

lemma list_all2_Node_Equal:
  assumes "codec_laws S"
  shows "list_all2 (Node_Equal S) ns ms \<longleftrightarrow> map node_view ns = map node_view ms"
proof -
  have "Node_Equal S = (\<lambda>a b. node_view a = node_view b)"
    using assms by (intro ext) (auto simp: Node_Equal_def node_view_def Identity_Equal_iff)
  then show ?thesis by (simp add: list.rel_map flip: list.rel_eq)
qed

text \<open>
  For groups whose seed is known, \<open>Equal\<close> holds exactly when the threshold, the printed
  period, the seed, the transition time, the nodes (index, address, TLS flag and key) and the
  distributed key agree. The genesis time and the catchup period are not compared: two groups
  that differ only there are equal to the code.
\<close>

lemma Group_Equal_characterised:
  assumes "codec_laws S" "g_GenesisSeed g = Some a" "g_GenesisSeed g2 = Some b"
  shows "fst (Group_Equal S g g2) \<longleftrightarrow>
           g_Threshold g = g_Threshold g2 \<and> Duration_String (g_Period g) = Duration_String (g_Period g2)
         \<and> a = b \<and> g_TransitionTime g = g_TransitionTime g2
         \<and> map node_view (g_Nodes g) = map node_view (g_Nodes g2)
         \<and> g_PublicKey g = g_PublicKey g2"
proof -
  have "length (g_Nodes g) = length (g_Nodes g2)" if "map node_view (g_Nodes g) = map node_view (g_Nodes g2)"
    using map_eq_imp_length_eq [OF that] .
  moreover have "DistPublic_Equal S d e \<longleftrightarrow> d = e" for d e
    using assms(1) by (cases d; cases e) (simp add: DistPublic_Equal_iff)
  moreover have "Group_GetGenesisSeed S g = (a, g)" "Group_GetGenesisSeed S g2 = (b, g2)"
    using assms by (simp_all add: Group_GetGenesisSeed_def)
  ultimately show ?thesis
    using assms(1)
    by (cases "g_PublicKey g"; cases "g_PublicKey g2")
      (auto simp: Group_Equal_def Group_Len_def list_all2_Node_Equal)
qed

lemma Group_Equal_characterised_example:
  "fst (Group_Equal plain_suite large_threshold_group
          (large_threshold_group\<lparr>g_GenesisTime := 999, g_CatchupPeriod := 0\<rparr>))"
  by (subst Group_Equal_characterised [OF plain_suite_laws(1)]) (simp_all add: large_threshold_group_def)

end
