(* ===== verification/Sha256.thy ===== *)
theory Sha256
  imports Prelude
begin

text \<open>
  Go's \<open>crypto/sha256\<close>, which the sources use for the beacon message, the randomness,
  the chain hash, the DKG nonce and the setup secrets. The compression function is
  FIPS 180-4; a hasher that is written to piecewise is modelled by the hash of the
  concatenation of what was written.
\<close>

unbundle bit_operations_syntax

definition rotr32 :: "nat \<Rightarrow> uint32 \<Rightarrow> uint32" where
  "rotr32 n x = drop_bit n x OR push_bit (32 - n) x"

text \<open>
  The constants are the first 32 bits of the fractional parts of the cube roots of the first
  64 primes, and of the square roots of the first 8; the integer root is found bit by bit.
\<close>

fun root_bits :: "nat \<Rightarrow> nat \<Rightarrow> nat \<Rightarrow> nat \<Rightarrow> nat" where
  "root_bits k m 0 r = r"
| "root_bits k m (Suc i) r = root_bits k m i (if (r + 2 ^ i) ^ k \<le> m then r + 2 ^ i else r)"

definition frac_root :: "nat \<Rightarrow> nat \<Rightarrow> uint32" where
  "frac_root k p = of_nat (root_bits k (p * 2 ^ (32 * k)) 40 0)"

definition small_primes :: "nat list" where
  "small_primes = filter (\<lambda>n. list_all (\<lambda>d. n mod d \<noteq> 0) [2..<n]) [2..<312]"

definition sha256_K :: "uint32 list" where
  "sha256_K = map (frac_root 3) small_primes"

type_synonym sha256_state =
  "uint32 \<times> uint32 \<times> uint32 \<times> uint32 \<times> uint32 \<times> uint32 \<times> uint32 \<times> uint32"

definition sha256_H0 :: sha256_state where
  "sha256_H0 = (let h = frac_root 2 in (h 2, h 3, h 5, h 7, h 11, h 13, h 17, h 19))"

text \<open>The 16 words of a block, and the message schedule extended to 64 words.\<close>

fun words_of_bytes :: "bytes \<Rightarrow> uint32 list" where
  "words_of_bytes (a # b # c # d # bs) = 
     (push_bit 24 (ucast a) OR push_bit 16 (ucast b) OR push_bit 8 (ucast c) OR ucast d)
     # words_of_bytes bs"
| "words_of_bytes _ = []"

definition sched_next :: "uint32 list \<Rightarrow> uint32" where
  "sched_next ws =
     (let n = length ws;
          w15 = ws ! (n - 15);
          w2 = ws ! (n - 2);
          s0 = rotr32 7 w15 XOR rotr32 18 w15 XOR drop_bit 3 w15;
          s1 = rotr32 17 w2 XOR rotr32 19 w2 XOR drop_bit 10 w2
      in ws ! (n - 16) + s0 + ws ! (n - 7) + s1)"

fun sched_extend :: "nat \<Rightarrow> uint32 list \<Rightarrow> uint32 list" where
  "sched_extend 0 ws = ws"
| "sched_extend (Suc k) ws = sched_extend k (ws @ [sched_next ws])"

fun sha256_round :: "sha256_state \<Rightarrow> uint32 \<times> uint32 \<Rightarrow> sha256_state" where
  "sha256_round (a, b, c, d, e, f, g, h) (k, w) =
     (let S1 = rotr32 6 e XOR rotr32 11 e XOR rotr32 25 e;
          ch = (e AND f) XOR (NOT e AND g);
          t1 = h + S1 + ch + k + w;
          S0 = rotr32 2 a XOR rotr32 13 a XOR rotr32 22 a;
          maj = (a AND b) XOR (a AND c) XOR (b AND c);
          t2 = S0 + maj
      in (t1 + t2, a, b, c, d + t1, e, f, g))"

fun state_add :: "sha256_state \<Rightarrow> sha256_state \<Rightarrow> sha256_state" where
  "state_add (a, b, c, d, e, f, g, h) (a', b', c', d', e', f', g', h') =
     (a + a', b + b', c + c', d + d', e + e', f + f', g + g', h + h')"

definition sha256_block :: "sha256_state \<Rightarrow> bytes \<Rightarrow> sha256_state" where
  "sha256_block st blk =
     state_add st (foldl sha256_round st (zip sha256_K (sched_extend 48 (words_of_bytes blk))))"

text \<open>Padding to a multiple of 64 bytes: \<open>0x80\<close>, zeros, the bit length in 8 bytes.\<close>

definition sha256_pad :: "bytes \<Rightarrow> bytes" where
  "sha256_pad m =
     m @ [0x80] @ replicate ((119 - length m mod 64) mod 64) 0 @ be_bytes 8 (8 * length m)"

fun blocks64 :: "bytes \<Rightarrow> bytes list" where
  "blocks64 bs = (if bs = [] then [] else take 64 bs # blocks64 (drop 64 bs))"

declare blocks64.simps [simp del]

fun state_bytes :: "sha256_state \<Rightarrow> bytes" where
  "state_bytes (a, b, c, d, e, f, g, h) = concat (map be_uint32 [a, b, c, d, e, f, g, h])"

definition sha256 :: "bytes \<Rightarrow> bytes" where
  "sha256 m = state_bytes (foldl sha256_block sha256_H0 (blocks64 (sha256_pad m)))"

lemma length_state_bytes [bytelen, simp]: "length (state_bytes s) = 32"
  by (cases s rule: state_bytes.cases) simp

lemma length_sha256 [bytelen, simp]: "length (sha256 m) = 32"
  by (simp add: sha256_def)

lemma sha256_pad_blocks: "length (sha256_pad m) mod 64 = 0"
proof -
  define q k where "q = length m div 64" and "k = length m mod 64"
  have n: "length m = 64 * q + k" and k: "k < 64" by (simp_all add: q_def k_def)
  have "(119 - k) mod 64 = (if k \<le> 55 then 55 - k else 119 - k)"
  proof (cases "k \<le> 55")
    case True
    then have "119 - k = (55 - k) + 64" by simp
    then show ?thesis using True by (simp only: mod_add_self2 if_True) simp
  qed (use k in simp)
  then have "length (sha256_pad m) = 64 * (q + (if k \<le> 55 then 1 else 2))"
    using k unfolding sha256_pad_def by (cases "k \<le> 55") (simp_all add: k_def [symmetric], simp_all add: n)
  then show ?thesis by simp
qed

end
