(* ===== verification/Chain_Beacon.thy ===== *)
theory Chain_Beacon
  imports Key_Group Sha256
begin

text \<open>
  \<open>src/chain/beacon.go\<close>, \<open>info.go\<close>, \<open>convert.go\<close>, \<open>store.go\<close> (the helpers) and
  \<open>src/chain/beacon/convert.go\<close>: beacons, the message a beacon signs, the chain information
  a client needs, and their wire forms.
\<close>

section \<open>Beacons\<close>

record Beacon =
  b_PreviousSig :: bytes
  b_Round :: uint64
  b_Signature :: bytes

definition Beacon_Equal :: "Beacon \<Rightarrow> Beacon \<Rightarrow> bool" where
  "Beacon_Equal b b2 \<longleftrightarrow>
     b_PreviousSig b = b_PreviousSig b2 \<and> b_Round b = b_Round b2 \<and> b_Signature b = b_Signature b2"

definition RandomnessFromSignature :: "bytes \<Rightarrow> bytes" where
  "RandomnessFromSignature sig = sha256 sig"

definition Beacon_Randomness :: "Beacon \<Rightarrow> bytes" where
  "Beacon_Randomness b = RandomnessFromSignature (b_Signature b)"

definition Beacon_GetRound :: "Beacon \<Rightarrow> uint64" where
  "Beacon_GetRound b = b_Round b"

definition shortSigStr :: "bytes \<Rightarrow> string" where
  "shortSigStr sig =
     (let mx = (if length sig < 3 then length sig else 3) in hex_EncodeToString (take mx sig))"

definition Beacon_String :: "Beacon \<Rightarrow> string" where
  "Beacon_String b =
     ''{ round: '' @ fmtInt (unat (b_Round b)) @ '', sig: '' @ shortSigStr (b_Signature b)
       @ '', prevSig: '' @ shortSigStr (b_PreviousSig b) @ '' }''"

definition RoundToBytes :: "uint64 \<Rightarrow> bytes" where
  "RoundToBytes r = be_uint64 r"

definition Message :: "uint64 \<Rightarrow> bytes \<Rightarrow> bytes" where
  "Message currRound prevSig = sha256 (prevSig @ RoundToBytes currRound)"

definition VerifyBeacon :: "('p, 's) suite \<Rightarrow> 'p \<Rightarrow> Beacon \<Rightarrow> error option" where
  "VerifyBeacon S pubkey b =
     (let prevSig = b_PreviousSig b; rnd = b_Round b; msg = Message rnd prevSig
      in tbls_verify_recovered S pubkey msg (b_Signature b))"

definition Verify :: "('p, 's) suite \<Rightarrow> 'p \<Rightarrow> bytes \<Rightarrow> bytes \<Rightarrow> uint64 \<Rightarrow> error option" where
  "Verify S pubkey prevSig signature rnd =
     VerifyBeacon S pubkey \<lparr>b_PreviousSig = prevSig, b_Round = rnd, b_Signature = signature\<rparr>"

section \<open>Wire form of a beacon\<close>

record BeaconPacket =
  bp_PreviousSig :: bytes
  bp_Round :: uint64
  bp_Signature :: bytes

definition beaconToProto :: "Beacon \<Rightarrow> BeaconPacket" where
  "beaconToProto b =
     \<lparr>bp_PreviousSig = b_PreviousSig b, bp_Round = b_Round b, bp_Signature = b_Signature b\<rparr>"

definition protoToBeacon :: "BeaconPacket option \<Rightarrow> Beacon" where
  "protoToBeacon p =
     (case p of
        None \<Rightarrow> \<lparr>b_PreviousSig = [], b_Round = 0, b_Signature = []\<rparr>
      | Some p \<Rightarrow> \<lparr>b_PreviousSig = bp_PreviousSig p, b_Round = bp_Round p, b_Signature = bp_Signature p\<rparr>)"

lemma Beacon_Equal_iff [simp]: "Beacon_Equal a b \<longleftrightarrow> a = b"
  by (auto simp: Beacon_Equal_def)

lemma protoToBeacon_beaconToProto [wire, simp]: "protoToBeacon (Some (beaconToProto b)) = b"
  by (simp add: protoToBeacon_def beaconToProto_def)

lemma length_RoundToBytes [bytelen, simp]: "length (RoundToBytes r) = 8"
  by (simp add: RoundToBytes_def)

lemma RoundToBytes_inject [simp]: "RoundToBytes r = RoundToBytes r' \<longleftrightarrow> r = r'"
  by (simp add: RoundToBytes_def)

lemma RoundToBytes_less [simp]: "RoundToBytes r < RoundToBytes r' \<longleftrightarrow> r < r'"
  by (simp add: RoundToBytes_def)

lemma RoundToBytes_le [simp]: "RoundToBytes r \<le> RoundToBytes r' \<longleftrightarrow> r \<le> r'"
  by (simp add: RoundToBytes_def)

section \<open>Chain information\<close>

record 'p Info =
  inf_PublicKey :: 'p
  inf_Period :: int
  inf_GenesisTime :: int
  inf_GroupHash :: bytes

text \<open>
  \<open>NewChainInfo\<close> dereferences the distributed key of the group and stores the genesis seed
  in it; the second component is the group it leaves behind.
\<close>

definition NewChainInfo :: "('p, 's) suite \<Rightarrow> 'p Group \<Rightarrow> ('p Info \<times> 'p Group) result" where
  "NewChainInfo S g =
     (case g_PublicKey g of
        None \<Rightarrow> Inl (Panic ''nil pointer dereference'')
      | Some d \<Rightarrow>
          (case DistPublic_Key d of
             Inl e \<Rightarrow> Inl e
           | Inr pk \<Rightarrow>
               let (seed, g') = Group_GetGenesisSeed S g
               in Inr (\<lparr>inf_PublicKey = pk, inf_Period = g_Period g, inf_GenesisTime = g_GenesisTime g,
                        inf_GroupHash = seed\<rparr>, g')))"

definition Info_Hash :: "(float64 \<Rightarrow> uint32) \<Rightarrow> ('p, 's) suite \<Rightarrow> 'p Info \<Rightarrow> bytes" where
  "Info_Hash impl S c =
     sha256 (be_uint32 (f_to_uint32 impl (Seconds (inf_Period c)))
           @ be_int64 (inf_GenesisTime c)
           @ pt_marshal S (inf_PublicKey c)
           @ inf_GroupHash c)"

definition Info_Equal :: "('p, 's) suite \<Rightarrow> 'p Info \<Rightarrow> 'p Info \<Rightarrow> bool" where
  "Info_Equal S c c2 \<longleftrightarrow>
     inf_GenesisTime c = inf_GenesisTime c2 \<and> inf_Period c = inf_Period c2
   \<and> pt_equal S (inf_PublicKey c) (inf_PublicKey c2) \<and> inf_GroupHash c = inf_GroupHash c2"

definition GenesisBeacon :: "'p Info \<Rightarrow> Beacon" where
  "GenesisBeacon c = \<lparr>b_PreviousSig = [], b_Round = 0, b_Signature = inf_GroupHash c\<rparr>"

record ChainInfoPacket =
  ci_PublicKey :: bytes
  ci_Period :: uint32
  ci_GenesisTime :: int
  ci_Hash :: bytes
  ci_GroupHash :: bytes

definition InfoFromProto :: "('p, 's) suite \<Rightarrow> ChainInfoPacket \<Rightarrow> 'p Info result" where
  "InfoFromProto S p =
     (case pt_unmarshal S (ci_PublicKey p) of
        Inl e \<Rightarrow> Inl e
      | Inr public \<Rightarrow>
          Inr \<lparr>inf_PublicKey = public, inf_Period = wrap64 (uint (ci_Period p) * Second),
               inf_GenesisTime = ci_GenesisTime p, inf_GroupHash = ci_GroupHash p\<rparr>)"

definition Info_ToProto :: "(float64 \<Rightarrow> uint32) \<Rightarrow> ('p, 's) suite \<Rightarrow> 'p Info \<Rightarrow> ChainInfoPacket" where
  "Info_ToProto impl S c =
     \<lparr>ci_PublicKey = pt_marshal S (inf_PublicKey c),
      ci_Period = f_to_uint32 impl (Seconds (inf_Period c)),
      ci_GenesisTime = inf_GenesisTime c,
      ci_Hash = Info_Hash impl S c,
      ci_GroupHash = inf_GroupHash c\<rparr>"

text \<open>The JSON form goes through a codec of another module, the arguments \<open>dec\<close> and \<open>enc\<close>.\<close>

definition InfoFromJSON ::
  "(bytes \<Rightarrow> ChainInfoPacket result) \<Rightarrow> ('p, 's) suite \<Rightarrow> bytes \<Rightarrow> 'p Info result" where
  "InfoFromJSON dec S buff =
     (case dec buff of
        Inl e \<Rightarrow> Inl (Wrap ''reading group file'' e)
      | Inr chainProto \<Rightarrow>
          (case InfoFromProto S chainProto of
             Inl e \<Rightarrow> Inl (Wrap ''invalid chain info'' e)
           | Inr chainInfo \<Rightarrow> Inr chainInfo))"

definition Info_ToJSON ::
  "(ChainInfoPacket \<Rightarrow> bytes result) \<Rightarrow> (float64 \<Rightarrow> uint32) \<Rightarrow> ('p, 's) suite \<Rightarrow> 'p Info \<Rightarrow> bytes result" where
  "Info_ToJSON enc impl S c = enc (Info_ToProto impl S c)"

lemma InfoFromProto_ToProto [wire]:
  assumes "codec_laws S" "secs_ok (inf_Period c)"
  shows "InfoFromProto S (Info_ToProto impl S c) = Inr c"
  using assms by (simp add: InfoFromProto_def Info_ToProto_def wire)

lemma Info_Equal_iff: "codec_laws S \<Longrightarrow> Info_Equal S c d \<longleftrightarrow> c = d"
  by (cases c; cases d) (auto simp: Info_Equal_def)

lemma InfoFromJSON_ToJSON [wire]:
  assumes "codec_laws S" "secs_ok (inf_Period c)" "\<And>p. \<exists>buf. enc p = Inr buf \<and> dec buf = Inr p"
  shows "\<exists>buf. Info_ToJSON enc impl S c = Inr buf \<and> InfoFromJSON dec S buf = Inr c"
proof -
  obtain buf where "enc (Info_ToProto impl S c) = Inr buf" "dec buf = Inr (Info_ToProto impl S c)"
    using assms(3) by blast
  then show ?thesis using InfoFromProto_ToProto [OF assms(1,2)] by (simp add: Info_ToJSON_def InfoFromJSON_def)
qed

section \<open>Properties\<close>

text \<open>
  The bytes that a beacon signs determine the round and the previous signature: two
  different (round, previous signature) pairs are never hashed from the same bytes.
\<close>

lemma Message_input_injective:
  "Message r p = sha256 (p @ RoundToBytes r)
   \<and> (p @ RoundToBytes r = p' @ RoundToBytes r' \<longleftrightarrow> p = p' \<and> r = r')"
  by (simp add: Message_def append_eq_append_conv)

text \<open>The bytes that the chain hash is computed from.\<close>

definition Info_input :: "(float64 \<Rightarrow> uint32) \<Rightarrow> ('p, 's) suite \<Rightarrow> 'p Info \<Rightarrow> bytes" where
  "Info_input impl S c =
     be_uint32 (f_to_uint32 impl (Seconds (inf_Period c))) @ be_int64 (inf_GenesisTime c)
     @ pt_marshal S (inf_PublicKey c) @ inf_GroupHash c"

lemma be_int64_be_uint64: "be_int64 x = be_uint64 (to_uint64 x)"
  by (simp add: be_int64_def be_uint64_def to_uint64_def unsigned_of_int take_bit_eq_mod)

lemma be_int64_inject: "is_int64 x \<Longrightarrow> is_int64 y \<Longrightarrow> be_int64 x = be_int64 y \<longleftrightarrow> x = y"
  unfolding be_int64_be_uint64 be_uint64_inject by (metis to_int64_to_uint64)

lemma be_uint32_inject [simp]: "be_uint32 u = be_uint32 v \<longleftrightarrow> u = v"
proof
  assume "be_uint32 u = be_uint32 v"
  then have "be_val (be_bytes 4 (unat u)) = be_val (be_bytes 4 (unat v))" by (simp add: be_uint32_def)
  then have "unat u mod 2 ^ 32 = unat v mod 2 ^ 32" by (simp add: be_val_be_bytes)
  then show "u = v" using unat_uint32 [of u] unat_uint32 [of v] by (simp add: word_unat_eq_iff)
qed simp

text \<open>
  C30. The chain hash binds the chain information: with points of one encoded length, the bytes
  it is computed from determine the period, the genesis time, the public key and the group
  hash; and the information survives its packet.
\<close>

theorem chain_hash_binds_info:
  assumes "codec_laws S" "\<And>p q. length (pt_marshal S p) = length (pt_marshal S q)"
    and "secs_ok (inf_Period c)" "secs_ok (inf_Period d)"
    and "is_int64 (inf_GenesisTime c)" "is_int64 (inf_GenesisTime d)"
  shows "Info_Hash impl S c = sha256 (Info_input impl S c)
       \<and> (Info_input impl S c = Info_input impl S d \<longleftrightarrow> Info_Equal S c d)
       \<and> InfoFromProto S (Info_ToProto impl S c) = Inr c"
proof (intro conjI)
  have inj: "c = d" if "Info_input impl S c = Info_input impl S d"
  proof -
    have eq: "f_to_uint32 impl (Seconds (inf_Period c)) = f_to_uint32 impl (Seconds (inf_Period d))"
      "be_int64 (inf_GenesisTime c) = be_int64 (inf_GenesisTime d)"
      "pt_marshal S (inf_PublicKey c) = pt_marshal S (inf_PublicKey d)" "inf_GroupHash c = inf_GroupHash d"
      using that assms(2) [of "inf_PublicKey c" "inf_PublicKey d"]
      by (simp_all add: Info_input_def append_eq_same_length)
    have "inf_Period c = inf_Period d"
      using secs_ok_wire [OF assms(3), of impl] secs_ok_wire [OF assms(4), of impl] unfolding eq(1) by argo
    moreover have "inf_GenesisTime c = inf_GenesisTime d" using eq(2) assms(5,6) by (simp add: be_int64_inject)
    moreover have "inf_PublicKey c = inf_PublicKey d" using eq(3) assms(1) by (simp add: pt_marshal_inject)
    ultimately show ?thesis using eq(4) by simp
  qed
  show "Info_input impl S c = Info_input impl S d \<longleftrightarrow> Info_Equal S c d"
    unfolding Info_Equal_iff [OF assms(1)] by (rule iffI) (rule inj, assumption, hypsubst, rule refl)
  show "Info_Hash impl S c = sha256 (Info_input impl S c)" by (simp only: Info_Hash_def Info_input_def)
  show "InfoFromProto S (Info_ToProto impl S c) = Inr c" by (rule InfoFromProto_ToProto [OF assms(1,3)])
qed

text \<open>A suite whose points are single bytes, so that all encodings have one length.\<close>

definition byte_suite :: "(byte, bytes) suite" where
  "byte_suite =
     \<lparr>pt_marshal = (\<lambda>p. [p]),
      pt_unmarshal = (\<lambda>b. case b of [p] \<Rightarrow> Inr p | _ \<Rightarrow> Inl (ExtErr ''bad point'')),
      pt_equal = (=), pt_mul_base = (\<lambda>k. case k of [] \<Rightarrow> 0 | p # _ \<Rightarrow> p),
      sc_marshal = (\<lambda>k. k), sc_unmarshal = Inr, blake2b = (\<lambda>b. 7 # b),
      auth_sign = (\<lambda>k m. Inr m), auth_verify = (\<lambda>p m s. None),
      dkg_sign = (\<lambda>k m. Inr m), dkg_verify = (\<lambda>p m s. None),
      dkg_MinimumT = (\<lambda>n. n div 2 + 1), poly_commit = (\<lambda>cs. case cs of [] \<Rightarrow> 0 | c # _ \<Rightarrow> c),
      tbls_sign = (\<lambda>sh m. Inr m), tbls_index_of = (\<lambda>s. 0), tbls_verify_partial = (\<lambda>cs m s. None),
      tbls_recover = (\<lambda>cs m ps t n. Inr m), tbls_verify_recovered = (\<lambda>p m s. None)\<rparr>"

lemma byte_suite_laws: "codec_laws byte_suite" "length (pt_marshal byte_suite p) = length (pt_marshal byte_suite q)"
  by (simp_all add: codec_laws_def byte_suite_def)

definition example_info :: "byte Info" where
  "example_info = \<lparr>inf_PublicKey = 1, inf_Period = 30 * Second, inf_GenesisTime = 10, inf_GroupHash = [1]\<rparr>"

theorem chain_hash_binds_info_witness:
  "Info_input (\<lambda>_. 0) byte_suite example_info
   \<noteq> Info_input (\<lambda>_. 0) byte_suite (example_info\<lparr>inf_Period := 60 * Second\<rparr>)"
proof -
  have "Info_input (\<lambda>_. 0) byte_suite example_info
        = Info_input (\<lambda>_. 0) byte_suite (example_info\<lparr>inf_Period := 60 * Second\<rparr>)
        \<longleftrightarrow> Info_Equal byte_suite example_info (example_info\<lparr>inf_Period := 60 * Second\<rparr>)"
    by (rule chain_hash_binds_info [THEN conjunct2, THEN conjunct1, OF byte_suite_laws])
      (simp_all add: secs_ok_def Second_def is_int64_def example_info_def)
  then show ?thesis by (simp add: Info_Equal_def example_info_def Second_def)
qed

end
