(* ===== verification/Store_Interface.thy ===== *)
theory Store_Interface
  imports Chain_Beacon
begin

text \<open>
  The interface \<open>Store\<close> of \<open>src/chain/store.go\<close>: a Go interface value is a record of its
  methods over the state \<open>'st\<close> of the value behind it. The contract of the interface, seen
  as a finite map from rounds to beacons, is the locale \<open>chain_store\<close>; the lemmas that
  clients of a store use are proved in it once.

  A cursor lives inside one read transaction, so its methods take the state of the store and
  the key at which the cursor stands, and return the new position with the beacon.
\<close>

type_synonym cursor_pos = "bytes option"

record 'st Store =
  st_Len :: "'st \<Rightarrow> int"
  st_Put :: "Beacon \<Rightarrow> 'st \<Rightarrow> error option \<times> 'st"
  st_Last :: "'st \<Rightarrow> Beacon result"
  st_Get :: "uint64 \<Rightarrow> 'st \<Rightarrow> Beacon result"
  st_First :: "'st \<Rightarrow> Beacon option \<times> cursor_pos"
  st_Next :: "cursor_pos \<Rightarrow> 'st \<Rightarrow> Beacon option \<times> cursor_pos"
  st_Seek :: "uint64 \<Rightarrow> 'st \<Rightarrow> Beacon option \<times> cursor_pos"
  st_CursorLast :: "'st \<Rightarrow> Beacon option \<times> cursor_pos"
  st_Close :: "'st \<Rightarrow> 'st"
  st_Del :: "uint64 \<Rightarrow> 'st \<Rightarrow> error option \<times> 'st"

definition ErrNoBeaconSaved :: error where
  "ErrNoBeaconSaved = Err ''beacon not found in database''"

text \<open>The least stored round from \<open>r\<close> on, and the greatest stored round.\<close>

definition least_from :: "(uint64 \<rightharpoonup> Beacon) \<Rightarrow> uint64 \<Rightarrow> uint64 option" where
  "least_from m r = (if \<exists>k \<in> dom m. r \<le> k then Some (Min {k \<in> dom m. r \<le> k}) else None)"

definition greatest :: "(uint64 \<rightharpoonup> Beacon) \<Rightarrow> uint64 option" where
  "greatest m = (if dom m = {} then None else Some (Max (dom m)))"

text \<open>The loop over a cursor: the beacons it visits before the first nil, within \<open>n\<close> iterations.\<close>

fun walk :: "'st Store \<Rightarrow> nat \<Rightarrow> Beacon option \<times> cursor_pos \<Rightarrow> 'st \<Rightarrow> Beacon list" where
  "walk ops (Suc n) (Some b, p) s = b # walk ops n (st_Next ops p s) s"
| "walk ops _ _ s = []"

text \<open>The stored rounds from \<open>r\<close> on, and the walk that remains after one of them.\<close>

definition rounds_from :: "(uint64 \<rightharpoonup> Beacon) \<Rightarrow> uint64 \<Rightarrow> uint64 set" where
  "rounds_from m r = {k \<in> dom m. r \<le> k}"

lemma rounds_from_step:
  assumes "rounds_from m r \<noteq> {}"
  shows "rounds_from m r - {Min (rounds_from m r)} =
           (if Min (rounds_from m r) = - 1 then {} else rounds_from m (Min (rounds_from m r) + 1))"
proof -
  let ?m = "Min (rounds_from m r)"
  have i: "?m \<in> rounds_from m r" using assms by (intro Min_in) simp_all
  have le: "?m \<le> k" if "k \<in> rounds_from m r" for k using that by (intro Min_le) simp_all
  show ?thesis
  proof (cases "?m = - 1")
    case True
    have "k = ?m" if "k \<in> rounds_from m r" for k using le [OF that] True by (simp add: order_antisym)
    then show ?thesis using True by auto
  next
    case False
    then show ?thesis
      using i le by (fastforce simp: rounds_from_def inc_less_eq_iff order.strict_iff_order)
  qed
qed

text \<open>Every beacon is filed under its own round.\<close>

definition filed :: "(uint64 \<rightharpoonup> Beacon) \<Rightarrow> bool" where
  "filed m \<longleftrightarrow> (\<forall>r b. m r = Some b \<longrightarrow> b_Round b = r)"

locale chain_store =
  fixes ops :: "'st Store"
    and invar :: "'st \<Rightarrow> bool"
    and contents :: "'st \<Rightarrow> uint64 \<rightharpoonup> Beacon"
  assumes filed_contents: "invar s \<Longrightarrow> filed (contents s)"
    and Len_spec: "invar s \<Longrightarrow> st_Len ops s = int (card (dom (contents s)))"
    and Put_ok: "invar s \<Longrightarrow> st_Put ops b s = (None, s') \<Longrightarrow> contents s' = (contents s)(b_Round b \<mapsto> b)"
    and Put_err: "invar s \<Longrightarrow> st_Put ops b s = (Some e, s') \<Longrightarrow> contents s' = contents s"
    and Put_invar: "invar s \<Longrightarrow> invar (snd (st_Put ops b s))"
    and Get_spec: "invar s \<Longrightarrow>
      st_Get ops r s = (case contents s r of None \<Rightarrow> Inl ErrNoBeaconSaved | Some b \<Rightarrow> Inr b)"
    and Last_spec: "invar s \<Longrightarrow>
      st_Last ops s = (case greatest (contents s) of None \<Rightarrow> Inl ErrNoBeaconSaved
                       | Some r \<Rightarrow> Inr (the (contents s r)))"
    and Seek_spec: "invar s \<Longrightarrow>
      st_Seek ops r s = (case least_from (contents s) r of None \<Rightarrow> (None, None)
                         | Some k \<Rightarrow> (contents s k, Some (RoundToBytes k)))"
    and Next_spec: "invar s \<Longrightarrow>
      st_Next ops (Some (RoundToBytes k)) s =
        (if k = - 1 then (None, None)
         else case least_from (contents s) (k + 1) of None \<Rightarrow> (None, None)
              | Some k' \<Rightarrow> (contents s k', Some (RoundToBytes k')))"
begin

lemma Put_then_Get:
  assumes "invar s" "st_Put ops b s = (None, s')"
  shows "st_Get ops (b_Round b) s' = Inr b"
    and "r \<noteq> b_Round b \<Longrightarrow> st_Get ops r s' = st_Get ops r s"
proof -
  have i: "invar s'" using Put_invar [OF assms(1), of b] assms(2) by simp
  show "st_Get ops (b_Round b) s' = Inr b"
    by (simp add: Get_spec [OF i] Put_ok [OF assms])
  show "r \<noteq> b_Round b \<Longrightarrow> st_Get ops r s' = st_Get ops r s"
    by (simp add: Get_spec [OF i] Get_spec [OF assms(1)] Put_ok [OF assms])
qed

lemma Put_err_Get:
  assumes "invar s" "st_Put ops b s = (Some e, s')"
  shows "st_Get ops r s' = st_Get ops r s"
proof -
  have i: "invar s'" using Put_invar [OF assms(1), of b] assms(2) by simp
  show ?thesis by (simp add: Get_spec [OF i] Get_spec [OF assms(1)] Put_err [OF assms])
qed

lemma Last_contents:
  assumes "invar s" "st_Last ops s = Inr b"
  shows "contents s (b_Round b) = Some b" "\<And>r c. contents s r = Some c \<Longrightarrow> r \<le> b_Round b"
proof -
  have ne: "dom (contents s) \<noteq> {}" and b: "b = the (contents s (Max (dom (contents s))))"
    using assms Last_spec [OF assms(1)] by (auto simp: greatest_def split: if_splits)
  have fin: "finite (dom (contents s))" by (rule finite)
  have "Max (dom (contents s)) \<in> dom (contents s)" using ne fin by simp
  then have c: "contents s (Max (dom (contents s))) = Some b" using b by auto
  then have r: "b_Round b = Max (dom (contents s))"
    using filed_contents [OF assms(1)] by (auto simp: filed_def)
  show "contents s (b_Round b) = Some b" using c r by simp
  show "\<And>r c. contents s r = Some c \<Longrightarrow> r \<le> b_Round b"
    using r fin by (metis Max_ge domI)
qed

lemma Put_then_Last:
  assumes "invar s" "st_Last ops s = Inr l" "b_Round l \<le> b_Round b" "st_Put ops b s = (None, s')"
  shows "st_Last ops s' = Inr b"
proof -
  have i: "invar s'" using Put_invar [OF assms(1), of b] assms(4) by simp
  have c: "contents s' = (contents s)(b_Round b \<mapsto> b)" by (rule Put_ok [OF assms(1,4)])
  have "Max (dom (contents s')) = b_Round b"
  proof (rule Max_eqI)
    show "y \<le> b_Round b" if "y \<in> dom (contents s')" for y
      using that c Last_contents(2) [OF assms(1,2)] assms(3) by (fastforce split: if_splits)
  qed (auto simp: c)
  then show ?thesis using c by (auto simp: Last_spec [OF i] greatest_def)
qed

lemma Put_first_Last:
  assumes "invar s" "contents s = Map.empty" "st_Put ops b s = (None, s')"
  shows "st_Last ops s' = Inr b"
proof -
  have i: "invar s'" using Put_invar [OF assms(1), of b] assms(3) by simp
  show ?thesis using Put_ok [OF assms(1,3)] assms(2) by (auto simp: Last_spec [OF i] greatest_def)
qed

text \<open>A walk from a round on visits every stored beacon from there, in increasing order of rounds.\<close>

lemma walk_spec:
  assumes "invar s"
  shows "card (rounds_from (contents s) r) < n \<Longrightarrow>
         walk ops n (st_Seek ops r s) s
           = map (\<lambda>k. the (contents s k)) (sorted_list_of_set (rounds_from (contents s) r))"
proof (induction n arbitrary: r)
  case (Suc n)
  let ?A = "rounds_from (contents s) r"
  show ?case
  proof (cases "?A = {}")
    case True
    then show ?thesis by (auto simp: Seek_spec [OF assms] least_from_def rounds_from_def)
  next
    case False
    let ?m = "Min ?A"
    have m: "?m \<in> ?A" using False by (intro Min_in) simp_all
    then obtain b where b: "contents s ?m = Some b" by (auto simp: rounds_from_def)
    have "least_from (contents s) r = Some ?m"
      using False by (auto simp: least_from_def rounds_from_def)
    then have "walk ops (Suc n) (st_Seek ops r s) s = b # walk ops n (st_Next ops (Some (RoundToBytes ?m)) s) s"
      using b by (simp add: Seek_spec [OF assms])
    also have "walk ops n (st_Next ops (Some (RoundToBytes ?m)) s) s =
               map (\<lambda>k. the (contents s k)) (sorted_list_of_set (?A - {?m}))"
    proof (cases "?m = - 1")
      case True
      then show ?thesis using rounds_from_step [OF False] by (cases n) (simp_all add: Next_spec [OF assms])
    next
      case nm: False
      have "card (?A - {?m}) < n" using Suc.prems card_Diff1_less [OF finite m] by linarith
      then show ?thesis
        using Suc.IH [of "?m + 1"] rounds_from_step [OF False] nm
        by (simp add: Next_spec [OF assms] Seek_spec [OF assms])
    qed
    finally show ?thesis
      using False b by (simp add: sorted_list_of_set_nonempty)
  qed
qed simp

end

end
