(* ===== verification/Bolt_Store.thy ===== *)
theory Bolt_Store
  imports Store_Interface
begin

text \<open>
  \<open>src/chain/boltdb/store.go\<close>: the store on the embedded key/value database bbolt. The
  database and the JSON codec are other modules: the database handle is the record \<open>bolt\<close>
  of the operations the code calls on the bucket of beacons, the codec is \<open>beacon_json\<close>, and
  what their documentation promises is \<open>bolt_laws\<close> and \<open>json_laws\<close>. The main result is the
  interpretation of \<open>chain_store\<close>: the store is a map from rounds to beacons whose
  cursor walks the rounds in increasing order.
\<close>

section \<open>The database and the codec\<close>

text \<open>
  \<open>bk_tx_err\<close> is the error that opening a transaction returns (a closed database);
  \<open>bk_next\<close> moves a cursor that stands at a key to the following key.
\<close>

record 'db bolt =
  bk_tx_err :: "'db \<Rightarrow> error option"
  bk_put :: "bytes \<Rightarrow> bytes \<Rightarrow> 'db \<Rightarrow> 'db result"
  bk_delete :: "bytes \<Rightarrow> 'db \<Rightarrow> 'db result"
  bk_get :: "bytes \<Rightarrow> 'db \<Rightarrow> bytes option"
  bk_first :: "'db \<Rightarrow> (bytes \<times> bytes) option"
  bk_last :: "'db \<Rightarrow> (bytes \<times> bytes) option"
  bk_seek :: "bytes \<Rightarrow> 'db \<Rightarrow> (bytes \<times> bytes) option"
  bk_next :: "bytes \<Rightarrow> 'db \<Rightarrow> (bytes \<times> bytes) option"
  bk_keyN :: "'db \<Rightarrow> int"
  bk_close :: "'db \<Rightarrow> 'db"
  bk_create_bucket :: "'db \<Rightarrow> 'db result"
  bk_write_to :: "'db \<Rightarrow> bytes result"

record beacon_json =
  js_marshal :: "Beacon \<Rightarrow> bytes result"
  js_unmarshal :: "bytes \<Rightarrow> Beacon result"

record 'db boltStore =
  bs_bolt :: "'db bolt"
  bs_json :: beacon_json
  bs_db :: 'db

definition Beacon_Marshal :: "beacon_json \<Rightarrow> Beacon \<Rightarrow> bytes result" where
  "Beacon_Marshal J b = js_marshal J b"

definition Beacon_Unmarshal :: "beacon_json \<Rightarrow> bytes \<Rightarrow> Beacon result" where
  "Beacon_Unmarshal J buff = js_unmarshal J buff"

section \<open>The store\<close>

text \<open>\<open>NewBoltStore\<close> after \<open>bolt.Open\<close>; the store is returned along with the error.\<close>

definition NewBoltStore ::
  "'db bolt \<Rightarrow> beacon_json \<Rightarrow> 'db result \<Rightarrow> 'db boltStore option \<times> error option" where
  "NewBoltStore B J opened =
     (case opened of
        Inl e \<Rightarrow> (None, Some e)
      | Inr db \<Rightarrow>
          (case bk_tx_err B db of
             Some e \<Rightarrow> (Some \<lparr>bs_bolt = B, bs_json = J, bs_db = db\<rparr>, Some e)
           | None \<Rightarrow>
               (case bk_create_bucket B db of
                  Inl e \<Rightarrow> (Some \<lparr>bs_bolt = B, bs_json = J, bs_db = db\<rparr>, Some e)
                | Inr db' \<Rightarrow> (Some \<lparr>bs_bolt = B, bs_json = J, bs_db = db'\<rparr>, None))))"

definition boltStore_Len :: "'db boltStore \<Rightarrow> int" where
  "boltStore_Len s =
     (case bk_tx_err (bs_bolt s) (bs_db s) of
        Some _ \<Rightarrow> 0
      | None \<Rightarrow> bk_keyN (bs_bolt s) (bs_db s))"

definition boltStore_Close :: "'db boltStore \<Rightarrow> 'db boltStore" where
  "boltStore_Close s = s\<lparr>bs_db := bk_close (bs_bolt s) (bs_db s)\<rparr>"

definition boltStore_Put :: "Beacon \<Rightarrow> 'db boltStore \<Rightarrow> error option \<times> 'db boltStore" where
  "boltStore_Put b s =
     (case bk_tx_err (bs_bolt s) (bs_db s) of
        Some e \<Rightarrow> (Some e, s)
      | None \<Rightarrow>
          let key = RoundToBytes (b_Round b) in
          (case Beacon_Marshal (bs_json s) b of
             Inl e \<Rightarrow> (Some e, s)
           | Inr buff \<Rightarrow>
               (case bk_put (bs_bolt s) key buff (bs_db s) of
                  Inl e \<Rightarrow> (Some e, s)
                | Inr db \<Rightarrow> (None, s\<lparr>bs_db := db\<rparr>))))"

definition boltStore_Last :: "'db boltStore \<Rightarrow> Beacon result" where
  "boltStore_Last s =
     (case bk_tx_err (bs_bolt s) (bs_db s) of
        Some e \<Rightarrow> Inl e
      | None \<Rightarrow>
          (case bk_last (bs_bolt s) (bs_db s) of
             None \<Rightarrow> Inl ErrNoBeaconSaved
           | Some (_, v) \<Rightarrow> Beacon_Unmarshal (bs_json s) v))"

definition boltStore_Get :: "uint64 \<Rightarrow> 'db boltStore \<Rightarrow> Beacon result" where
  "boltStore_Get rnd s =
     (case bk_tx_err (bs_bolt s) (bs_db s) of
        Some e \<Rightarrow> Inl e
      | None \<Rightarrow>
          (case bk_get (bs_bolt s) (RoundToBytes rnd) (bs_db s) of
             None \<Rightarrow> Inl ErrNoBeaconSaved
           | Some v \<Rightarrow> Beacon_Unmarshal (bs_json s) v))"

definition boltStore_Del :: "uint64 \<Rightarrow> 'db boltStore \<Rightarrow> error option \<times> 'db boltStore" where
  "boltStore_Del rnd s =
     (case bk_tx_err (bs_bolt s) (bs_db s) of
        Some e \<Rightarrow> (Some e, s)
      | None \<Rightarrow>
          (case bk_delete (bs_bolt s) (RoundToBytes rnd) (bs_db s) of
             Inl e \<Rightarrow> (Some e, s)
           | Inr db \<Rightarrow> (None, s\<lparr>bs_db := db\<rparr>)))"

definition boltStore_SaveTo :: "'db boltStore \<Rightarrow> bytes result" where
  "boltStore_SaveTo s =
     (case bk_tx_err (bs_bolt s) (bs_db s) of
        Some e \<Rightarrow> Inl e
      | None \<Rightarrow> bk_write_to (bs_bolt s) (bs_db s))"

section \<open>Cursors\<close>

text \<open>
  What every cursor method does with the pair it got: nil at the end, nil for a value that
  does not decode, though the cursor has moved.
\<close>

definition cursor_result :: "'db boltStore \<Rightarrow> (bytes \<times> bytes) option \<Rightarrow> Beacon option \<times> cursor_pos" where
  "cursor_result s kv =
     (case kv of
        None \<Rightarrow> (None, None)
      | Some (k, v) \<Rightarrow>
          (case Beacon_Unmarshal (bs_json s) v of Inl _ \<Rightarrow> (None, Some k) | Inr b \<Rightarrow> (Some b, Some k)))"

definition boltCursor_First :: "'db boltStore \<Rightarrow> Beacon option \<times> cursor_pos" where
  "boltCursor_First s = cursor_result s (bk_first (bs_bolt s) (bs_db s))"

text \<open>A cursor past the end stays there.\<close>

definition boltCursor_Next :: "cursor_pos \<Rightarrow> 'db boltStore \<Rightarrow> Beacon option \<times> cursor_pos" where
  "boltCursor_Next p s =
     (case p of None \<Rightarrow> (None, None) | Some k \<Rightarrow> cursor_result s (bk_next (bs_bolt s) k (bs_db s)))"

definition boltCursor_Seek :: "uint64 \<Rightarrow> 'db boltStore \<Rightarrow> Beacon option \<times> cursor_pos" where
  "boltCursor_Seek rnd s = cursor_result s (bk_seek (bs_bolt s) (RoundToBytes rnd) (bs_db s))"

definition boltCursor_Last :: "'db boltStore \<Rightarrow> Beacon option \<times> cursor_pos" where
  "boltCursor_Last s = cursor_result s (bk_last (bs_bolt s) (bs_db s))"

definition bolt_ops :: "'db boltStore Store" where
  "bolt_ops =
     \<lparr>st_Len = boltStore_Len, st_Put = boltStore_Put, st_Last = boltStore_Last, st_Get = boltStore_Get,
      st_First = boltCursor_First, st_Next = boltCursor_Next, st_Seek = boltCursor_Seek,
      st_CursorLast = boltCursor_Last, st_Close = boltStore_Close, st_Del = boltStore_Del\<rparr>"

section \<open>What the database and the codec promise\<close>

definition bolt_keys :: "'db bolt \<Rightarrow> 'db \<Rightarrow> bytes set" where
  "bolt_keys B db = {k. bk_get B k db \<noteq> None}"

definition bolt_pair :: "'db bolt \<Rightarrow> 'db \<Rightarrow> bytes \<Rightarrow> bytes \<times> bytes" where
  "bolt_pair B db k = (k, the (bk_get B k db))"

text \<open>
  Documented behaviour of a bucket: finitely many keys; a successful \<open>Put\<close> or \<open>Delete\<close>
  changes the value of its key only; cursors go through the keys in byte order; the
  statistics count the keys.
\<close>

definition bolt_laws :: "'db bolt \<Rightarrow> bool" where
  "bolt_laws B \<longleftrightarrow>
     (\<forall>db. finite (bolt_keys B db))
   \<and> (\<forall>k v db db'. bk_put B k v db = Inr db' \<longrightarrow>
        (\<forall>k'. bk_get B k' db' = (if k' = k then Some v else bk_get B k' db)) \<and> bk_tx_err B db' = bk_tx_err B db)
   \<and> (\<forall>k db db'. bk_delete B k db = Inr db' \<longrightarrow>
        (\<forall>k'. bk_get B k' db' = (if k' = k then None else bk_get B k' db)) \<and> bk_tx_err B db' = bk_tx_err B db)
   \<and> (\<forall>db. bk_first B db = (if bolt_keys B db = {} then None else Some (bolt_pair B db (Min (bolt_keys B db)))))
   \<and> (\<forall>db. bk_last B db = (if bolt_keys B db = {} then None else Some (bolt_pair B db (Max (bolt_keys B db)))))
   \<and> (\<forall>k db. bk_seek B k db =
        (if {k' \<in> bolt_keys B db. k \<le> k'} = {} then None
         else Some (bolt_pair B db (Min {k' \<in> bolt_keys B db. k \<le> k'}))))
   \<and> (\<forall>k db. bk_next B k db =
        (if {k' \<in> bolt_keys B db. k < k'} = {} then None
         else Some (bolt_pair B db (Min {k' \<in> bolt_keys B db. k < k'}))))
   \<and> (\<forall>db. bk_keyN B db = int (card (bolt_keys B db)))"

lemma bolt_lawsD:
  assumes "bolt_laws B"
  shows "bk_put B k v db = Inr db' \<Longrightarrow> bk_get B k' db' = (if k' = k then Some v else bk_get B k' db)"
    "bk_put B k v db = Inr db' \<Longrightarrow> bk_tx_err B db' = bk_tx_err B db"
    "bk_delete B k db = Inr db' \<Longrightarrow> bk_get B k' db' = (if k' = k then None else bk_get B k' db)"
    "bk_delete B k db = Inr db' \<Longrightarrow> bk_tx_err B db' = bk_tx_err B db"
    "bk_last B db = (if bolt_keys B db = {} then None else Some (bolt_pair B db (Max (bolt_keys B db))))"
    "bk_seek B k db =
        (if {k' \<in> bolt_keys B db. k \<le> k'} = {} then None
         else Some (bolt_pair B db (Min {k' \<in> bolt_keys B db. k \<le> k'})))"
    "bk_next B k db =
        (if {k' \<in> bolt_keys B db. k < k'} = {} then None
         else Some (bolt_pair B db (Min {k' \<in> bolt_keys B db. k < k'})))"
    "bk_keyN B db = int (card (bolt_keys B db))"
  using assms unfolding bolt_laws_def by blast+

definition json_laws :: "beacon_json \<Rightarrow> bool" where
  "json_laws J \<longleftrightarrow> (\<forall>b buf. js_marshal J b = Inr buf \<longrightarrow> js_unmarshal J buf = Inr b)"

text \<open>The map a store holds, and the invariant: an open database in which every key is the round of its beacon.\<close>

definition bolt_contents :: "'db boltStore \<Rightarrow> uint64 \<rightharpoonup> Beacon" where
  "bolt_contents s r =
     (case bk_get (bs_bolt s) (RoundToBytes r) (bs_db s) of
        None \<Rightarrow> None
      | Some v \<Rightarrow> (case js_unmarshal (bs_json s) v of Inl _ \<Rightarrow> None | Inr b \<Rightarrow> Some b))"

definition bolt_invar :: "'db boltStore \<Rightarrow> bool" where
  "bolt_invar s \<longleftrightarrow>
     bolt_laws (bs_bolt s) \<and> json_laws (bs_json s) \<and> bk_tx_err (bs_bolt s) (bs_db s) = None
   \<and> (\<forall>k v. bk_get (bs_bolt s) k (bs_db s) = Some v \<longrightarrow>
        (\<exists>b. js_unmarshal (bs_json s) v = Inr b \<and> k = RoundToBytes (b_Round b)))"

lemma bolt_invarD:
  assumes "bolt_invar s"
  shows "bolt_laws (bs_bolt s)" "json_laws (bs_json s)" "bk_tx_err (bs_bolt s) (bs_db s) = None"
    "bk_get (bs_bolt s) k (bs_db s) = Some v \<Longrightarrow> \<exists>b. js_unmarshal (bs_json s) v = Inr b \<and> k = RoundToBytes (b_Round b)"
  using assms by (auto simp: bolt_invar_def)

lemma bolt_get_contents:
  assumes "bolt_invar s"
  shows "bk_get (bs_bolt s) (RoundToBytes r) (bs_db s) = Some v \<Longrightarrow>
           \<exists>b. js_unmarshal (bs_json s) v = Inr b \<and> bolt_contents s r = Some b \<and> b_Round b = r"
    and "bk_get (bs_bolt s) (RoundToBytes r) (bs_db s) = None \<Longrightarrow> bolt_contents s r = None"
  using bolt_invarD(4) [OF assms] by (fastforce simp: bolt_contents_def)+

lemma bolt_keys_contents:
  assumes "bolt_invar s"
  shows "bolt_keys (bs_bolt s) (bs_db s) = RoundToBytes ` dom (bolt_contents s)"
proof (intro equalityI subsetI)
  fix k assume "k \<in> bolt_keys (bs_bolt s) (bs_db s)"
  then obtain v where "bk_get (bs_bolt s) k (bs_db s) = Some v" by (auto simp: bolt_keys_def)
  then show "k \<in> RoundToBytes ` dom (bolt_contents s)"
    using bolt_invarD(4) [OF assms] by (fastforce simp: bolt_contents_def)
next
  fix k assume "k \<in> RoundToBytes ` dom (bolt_contents s)"
  then show "k \<in> bolt_keys (bs_bolt s) (bs_db s)"
    by (auto simp: bolt_keys_def bolt_contents_def split: option.splits)
qed

lemma mono_RoundToBytes: "mono RoundToBytes"
  by (rule monoI) simp

lemma bolt_pair_result:
  assumes "bolt_invar s" "k \<in> dom (bolt_contents s)"
  shows "cursor_result s (Some (bolt_pair (bs_bolt s) (bs_db s) (RoundToBytes k)))
         = (bolt_contents s k, Some (RoundToBytes k))"
proof -
  obtain v where "bk_get (bs_bolt s) (RoundToBytes k) (bs_db s) = Some v"
    using assms(2) by (auto simp: bolt_contents_def split: option.splits)
  then show ?thesis
    using bolt_get_contents(1) [OF assms(1), of k v]
    by (auto simp: cursor_result_def bolt_pair_def Beacon_Unmarshal_def)
qed

lemma Min_RoundToBytes: "A \<noteq> {} \<Longrightarrow> Min (RoundToBytes ` A) = RoundToBytes (Min A)"
  using mono_Min_commute [OF mono_RoundToBytes, of A] by simp

lemma Max_RoundToBytes: "A \<noteq> {} \<Longrightarrow> Max (RoundToBytes ` A) = RoundToBytes (Max A)"
  using mono_Max_commute [OF mono_RoundToBytes, of A] by simp

lemma keys_from:
  "{k' \<in> RoundToBytes ` A. RoundToBytes r \<le> k'} = RoundToBytes ` {k \<in> A. r \<le> k}"
  "{k' \<in> RoundToBytes ` A. RoundToBytes r < k'} = RoundToBytes ` {k \<in> A. r < k}"
  by auto

section \<open>The store keeps the contract\<close>

lemma word_less_iff_suc_le:
  fixes k m :: uint64
  assumes "k \<noteq> - 1"
  shows "k < m \<longleftrightarrow> k + 1 \<le> m"
  using assms by (simp add: inc_less_eq_iff)

lemma bolt_Seek_spec:
  assumes "bolt_invar s"
  shows "boltCursor_Seek r s = (case least_from (bolt_contents s) r of None \<Rightarrow> (None, None)
           | Some k \<Rightarrow> (bolt_contents s k, Some (RoundToBytes k)))"
proof -
  let ?A = "{k \<in> dom (bolt_contents s). r \<le> k}"
  have k: "bk_seek (bs_bolt s) (RoundToBytes r) (bs_db s) =
        (if ?A = {} then None else Some (bolt_pair (bs_bolt s) (bs_db s) (RoundToBytes (Min ?A))))"
    unfolding bolt_lawsD(6) [OF bolt_invarD(1) [OF assms]] bolt_keys_contents [OF assms] keys_from image_is_empty
    by (rule if_cong) (simp_all only: Min_RoundToBytes not_False_eq_True)
  show ?thesis
  proof (cases "?A = {}")
    case True
    then show ?thesis by (auto simp: boltCursor_Seek_def k least_from_def cursor_result_def)
  next
    case False
    have "Min ?A \<in> ?A" using False by (intro Min_in) simp_all
    then show ?thesis
      using False bolt_pair_result [OF assms, of "Min ?A"] by (auto simp: boltCursor_Seek_def k least_from_def)
  qed
qed

lemma bolt_Next_spec:
  assumes "bolt_invar s"
  shows "boltCursor_Next (Some (RoundToBytes k)) s =
          (if k = - 1 then (None, None)
           else case least_from (bolt_contents s) (k + 1) of None \<Rightarrow> (None, None)
                | Some k' \<Rightarrow> (bolt_contents s k', Some (RoundToBytes k')))"
proof -
  let ?A = "{k' \<in> dom (bolt_contents s). k < k'}"
  have n: "bk_next (bs_bolt s) (RoundToBytes k) (bs_db s) =
        (if ?A = {} then None else Some (bolt_pair (bs_bolt s) (bs_db s) (RoundToBytes (Min ?A))))"
    unfolding bolt_lawsD(7) [OF bolt_invarD(1) [OF assms]] bolt_keys_contents [OF assms] keys_from image_is_empty
    by (rule if_cong) (simp_all only: Min_RoundToBytes not_False_eq_True)
  show ?thesis
  proof (cases "?A = {}")
    case True
    then show ?thesis
      by (auto simp: boltCursor_Next_def n least_from_def cursor_result_def inc_less_eq_iff)
  next
    case False
    then have "k \<noteq> - 1" by auto
    moreover have "Min ?A \<in> ?A" using False by (intro Min_in) simp_all
    ultimately show ?thesis
      using False bolt_pair_result [OF assms, of "Min ?A"]
      by (auto simp: boltCursor_Next_def n least_from_def word_less_iff_suc_le)
  qed
qed

lemma bolt_Last_spec:
  assumes "bolt_invar s"
  shows "boltStore_Last s = (case greatest (bolt_contents s) of None \<Rightarrow> Inl ErrNoBeaconSaved
           | Some r \<Rightarrow> Inr (the (bolt_contents s r)))"
proof -
  let ?A = "dom (bolt_contents s)"
  have l: "bk_last (bs_bolt s) (bs_db s) =
        (if ?A = {} then None else Some (bolt_pair (bs_bolt s) (bs_db s) (RoundToBytes (Max ?A))))"
    unfolding bolt_lawsD(5) [OF bolt_invarD(1) [OF assms]] bolt_keys_contents [OF assms] image_is_empty
    by (rule if_cong) (simp_all only: Max_RoundToBytes not_False_eq_True)
  show ?thesis
  proof (cases "?A = {}")
    case True
    then show ?thesis using l bolt_invarD(3) [OF assms] by (simp add: boltStore_Last_def greatest_def)
  next
    case False
    have "Max ?A \<in> ?A" using False by (intro Max_in) simp_all
    then obtain b where b: "bolt_contents s (Max ?A) = Some b" by auto
    then obtain v where "bk_get (bs_bolt s) (RoundToBytes (Max ?A)) (bs_db s) = Some v"
      by (auto simp: bolt_contents_def split: option.splits)
    then show ?thesis
      using False l b bolt_invarD(3) [OF assms] bolt_get_contents(1) [OF assms, of "Max ?A" v]
      by (auto simp: boltStore_Last_def greatest_def bolt_pair_def Beacon_Unmarshal_def)
  qed
qed

lemma bolt_Get_spec:
  assumes "bolt_invar s"
  shows "boltStore_Get r s = (case bolt_contents s r of None \<Rightarrow> Inl ErrNoBeaconSaved | Some b \<Rightarrow> Inr b)"
  using bolt_invarD(3) [OF assms] bolt_get_contents [OF assms, of r]
  by (cases "bk_get (bs_bolt s) (RoundToBytes r) (bs_db s)")
    (auto simp: boltStore_Get_def Beacon_Unmarshal_def)

lemma bolt_filed: "bolt_invar s \<Longrightarrow> filed (bolt_contents s)"
  unfolding filed_def
proof (intro allI impI)
  fix r b assume i: "bolt_invar s" and c: "bolt_contents s r = Some b"
  obtain v where v: "bk_get (bs_bolt s) (RoundToBytes r) (bs_db s) = Some v"
    using c by (auto simp: bolt_contents_def split: option.splits)
  show "b_Round b = r" using bolt_get_contents(1) [OF i v] c by auto
qed

lemma bolt_Len_spec: "bolt_invar s \<Longrightarrow> boltStore_Len s = int (card (dom (bolt_contents s)))"
  by (simp add: boltStore_Len_def bolt_invarD(3) bolt_lawsD(8) [OF bolt_invarD(1)] bolt_keys_contents
      card_image inj_on_def)

lemma boltStore_Put_cases:
  assumes "bolt_invar s"
  obtains e where "boltStore_Put b s = (Some e, s)"
  | buf db where "js_marshal (bs_json s) b = Inr buf" "js_unmarshal (bs_json s) buf = Inr b"
      "bk_put (bs_bolt s) (RoundToBytes (b_Round b)) buf (bs_db s) = Inr db"
      "boltStore_Put b s = (None, s\<lparr>bs_db := db\<rparr>)"
proof (cases "js_marshal (bs_json s) b")
  case (Inl e)
  then show ?thesis
    using that(1) bolt_invarD(3) [OF assms] by (simp add: boltStore_Put_def Let_def Beacon_Marshal_def)
next
  case (Inr buf)
  then have "js_unmarshal (bs_json s) buf = Inr b" using bolt_invarD(2) [OF assms] by (simp add: json_laws_def)
  then show ?thesis
    using Inr that bolt_invarD(3) [OF assms]
    by (cases "bk_put (bs_bolt s) (RoundToBytes (b_Round b)) buf (bs_db s)")
      (simp_all add: boltStore_Put_def Let_def Beacon_Marshal_def)
qed

lemma bolt_Put_invar:
  assumes i: "bolt_invar s"
  shows "bolt_invar (snd (boltStore_Put b s))"
  using i
proof (rule boltStore_Put_cases [of s b])
  fix buf db
  assume u: "js_unmarshal (bs_json s) buf = Inr b"
    and p: "bk_put (bs_bolt s) (RoundToBytes (b_Round b)) buf (bs_db s) = Inr db"
    and eq: "boltStore_Put b s = (None, s\<lparr>bs_db := db\<rparr>)"
  note g = bolt_lawsD(1,2) [OF bolt_invarD(1) [OF i] p]
  show "bolt_invar (snd (boltStore_Put b s))"
    using i g u by (auto simp: bolt_invar_def eq)
qed (use i in simp_all)

lemma bolt_Put_ok:
  assumes "bolt_invar s" "boltStore_Put b s = (None, s')"
  shows "bolt_contents s' = (bolt_contents s)(b_Round b \<mapsto> b)"
  using assms(1)
proof (rule boltStore_Put_cases [of s b])
  fix buf db
  assume u: "js_unmarshal (bs_json s) buf = Inr b"
    and p: "bk_put (bs_bolt s) (RoundToBytes (b_Round b)) buf (bs_db s) = Inr db"
    and eq: "boltStore_Put b s = (None, s\<lparr>bs_db := db\<rparr>)"
  note g = bolt_lawsD(1) [OF bolt_invarD(1) [OF assms(1)] p]
  show ?thesis
    using assms(2) eq by (auto simp: fun_eq_iff bolt_contents_def g u split: option.split)
qed (use assms in auto)

lemma bolt_Put_err:
  assumes "bolt_invar s" "boltStore_Put b s = (Some e, s')"
  shows "s' = s"
  using assms(1) by (rule boltStore_Put_cases [of s b]) (use assms(2) in auto)

lemma bolt_Put_err_contents:
  "bolt_invar s \<Longrightarrow> boltStore_Put b s = (Some e, s') \<Longrightarrow> bolt_contents s' = bolt_contents s"
  using bolt_Put_err by blast

interpretation bolt: chain_store bolt_ops bolt_invar bolt_contents
  by unfold_locales
    (simp_all add: bolt_ops_def bolt_filed bolt_Len_spec bolt_Put_ok bolt_Put_invar bolt_Get_spec
      bolt_Last_spec bolt_Seek_spec bolt_Next_spec bolt_Put_err_contents)

lemma bolt_ops_simps [simp]:
  "st_Len bolt_ops = boltStore_Len" "st_Put bolt_ops = boltStore_Put" "st_Last bolt_ops = boltStore_Last"
  "st_Get bolt_ops = boltStore_Get" "st_Seek bolt_ops = boltCursor_Seek" "st_Next bolt_ops = boltCursor_Next"
  "st_Del bolt_ops = boltStore_Del" "st_Close bolt_ops = boltStore_Close"
  by (simp_all add: bolt_ops_def)

lemma bolt_Del_spec:
  assumes "bolt_invar s" "boltStore_Del r s = (None, s')"
  shows "bolt_contents s' = (bolt_contents s)(r := None)" "bolt_invar s'"
proof -
  obtain db where d: "bk_delete (bs_bolt s) (RoundToBytes r) (bs_db s) = Inr db" "s' = s\<lparr>bs_db := db\<rparr>"
    using assms bolt_invarD(3) [OF assms(1)] by (auto simp: boltStore_Del_def split: sum.splits)
  note g = bolt_lawsD(3,4) [OF bolt_invarD(1) [OF assms(1)] d(1)]
  show "bolt_contents s' = (bolt_contents s)(r := None)"
    by (auto simp: fun_eq_iff bolt_contents_def g d(2) split: option.split)
  show "bolt_invar s'" using assms(1) g by (auto simp: bolt_invar_def d(2) split: if_splits)
qed

lemma bolt_Last_after_Put:
  assumes "bolt_invar s" "boltStore_Put b s = (None, s')"
  shows "boltStore_Last s' = (case boltStore_Last s of
           Inl _ \<Rightarrow> Inr b
         | Inr l \<Rightarrow> Inr (if b_Round l \<le> b_Round b then b else l))"
proof -
  note put = assms(2) [folded bolt_ops_simps]
  have i: "bolt_invar s'" using bolt_Put_invar [OF assms(1), of b] assms(2) by simp
  have c: "bolt_contents s' = (bolt_contents s)(b_Round b \<mapsto> b)" by (rule bolt_Put_ok [OF assms])
  show ?thesis
  proof (cases "boltStore_Last s")
    case (Inl e)
    then have "bolt_contents s = Map.empty"
      using bolt_Last_spec [OF assms(1)] by (auto simp: greatest_def split: if_splits)
    then show ?thesis using bolt.Put_first_Last [OF assms(1) _ put] Inl by simp
  next
    case (Inr l)
    note l = bolt.Last_contents [OF assms(1), simplified, OF Inr]
    show ?thesis
    proof (cases "b_Round l \<le> b_Round b")
      case True
      then show ?thesis using bolt.Put_then_Last [OF assms(1), simplified, OF Inr True assms(2)] Inr by simp
    next
      case False
      have "Max (dom (bolt_contents s')) = b_Round l"
        using False l c by (intro Max_eqI) (auto split: if_splits)
      moreover have "bolt_contents s' (b_Round l) = Some l" using False l(1) c by auto
      ultimately show ?thesis using False Inr by (auto simp: bolt_Last_spec [OF i] greatest_def)
    qed
  qed
qed

section \<open>A concrete database\<close>

text \<open>An association list as the bucket, and a length-prefixed codec, on which the examples run.\<close>

definition list_bolt :: "(bytes \<times> bytes) list bolt" where
  "list_bolt =
     \<lparr>bk_tx_err = (\<lambda>db. None),
      bk_put = (\<lambda>k v db. Inr ((k, v) # filter (\<lambda>e. fst e \<noteq> k) db)),
      bk_delete = (\<lambda>k db. Inr (filter (\<lambda>e. fst e \<noteq> k) db)),
      bk_get = (\<lambda>k db. map_of db k),
      bk_first = (\<lambda>db. if db = [] then None else let k = Min (fst ` set db) in Some (k, the (map_of db k))),
      bk_last = (\<lambda>db. if db = [] then None else let k = Max (fst ` set db) in Some (k, the (map_of db k))),
      bk_seek = (\<lambda>k db. let ks = {k' \<in> fst ` set db. k \<le> k'}
                         in if ks = {} then None else Some (Min ks, the (map_of db (Min ks)))),
      bk_next = (\<lambda>k db. let ks = {k' \<in> fst ` set db. k < k'}
                         in if ks = {} then None else Some (Min ks, the (map_of db (Min ks)))),
      bk_keyN = (\<lambda>db. int (card (fst ` set db))),
      bk_close = (\<lambda>db. db), bk_create_bucket = Inr, bk_write_to = (\<lambda>db. Inr [])\<rparr>"

definition plain_json :: beacon_json where
  "plain_json =
     \<lparr>js_marshal = (\<lambda>b. if length (b_PreviousSig b) < 2 ^ 64
                         then Inr (be_bytes 8 (unat (b_Round b)) @ be_bytes 8 (length (b_PreviousSig b))
                                   @ b_PreviousSig b @ b_Signature b)
                         else Inl (ExtErr ''too long'')),
      js_unmarshal = (\<lambda>v. let n = be_val (take 8 (drop 8 v)) in
                         Inr \<lparr>b_PreviousSig = take n (drop 16 v), b_Round = of_nat (be_val (take 8 v)),
                              b_Signature = drop n (drop 16 v)\<rparr>)\<rparr>"

lemma list_bolt_keys: "bolt_keys list_bolt db = fst ` set db"
proof -
  have "k \<in> fst ` set db \<longleftrightarrow> map_of db k \<noteq> None" for k
    using map_of_eq_None_iff [of db k] by simp
  then show ?thesis by (auto simp: bolt_keys_def list_bolt_def)
qed

lemma map_of_filter_key: "map_of (filter (\<lambda>e. fst e \<noteq> k) db) k' = (if k' = k then None else map_of db k')"
  by (induction db) auto

lemma list_bolt_laws: "bolt_laws list_bolt"
  unfolding bolt_laws_def list_bolt_keys bolt_pair_def
  by (intro conjI allI impI) (auto simp: list_bolt_def map_of_filter_key Let_def)

lemma plain_json_laws: "json_laws plain_json"
proof -
  have "be_val (be_bytes 8 n) = n" if "n < 2 ^ 64" for n
    using that by (simp add: be_val_be_bytes)
  then show ?thesis
    using unat_uint64 by (auto simp: json_laws_def plain_json_def Let_def)
qed

definition example_store :: "(bytes \<times> bytes) list boltStore" where
  "example_store = \<lparr>bs_bolt = list_bolt, bs_json = plain_json, bs_db = []\<rparr>"

lemma example_store_invar: "bolt_invar example_store"
  by (simp add: bolt_invar_def example_store_def list_bolt_laws plain_json_laws) (simp add: list_bolt_def)

lemma example_store_empty: "bolt_contents example_store = Map.empty"
  by (simp add: fun_eq_iff bolt_contents_def example_store_def list_bolt_def)

lemma list_bolt_simps [simp]:
  "bk_tx_err list_bolt db = None" "bk_put list_bolt k v db = Inr ((k, v) # filter (\<lambda>e. fst e \<noteq> k) db)"
  "length (b_PreviousSig b) < 2 ^ 64 \<Longrightarrow>
     js_marshal plain_json b = Inr (be_bytes 8 (unat (b_Round b)) @ be_bytes 8 (length (b_PreviousSig b))
                                   @ b_PreviousSig b @ b_Signature b)"
  by (simp_all add: list_bolt_def plain_json_def)

lemma list_bolt_Put:
  assumes "bs_bolt s = list_bolt" "bs_json s = plain_json" "length (b_PreviousSig b) < 2 ^ 64"
  shows "\<exists>s'. boltStore_Put b s = (None, s') \<and> bs_bolt s' = list_bolt \<and> bs_json s' = plain_json"
  using assms by (simp add: boltStore_Put_def Beacon_Marshal_def Let_def)

section \<open>Properties\<close>

text \<open>
  C11. The bolt store is a map from rounds to beacons: after a successful \<open>Put\<close> the beacon is
  found under its round, every other round reads as before, the count grows exactly when the
  round was new, and \<open>Last\<close> is the beacon with the greatest round; a failed \<open>Put\<close> changes
  nothing.
\<close>

theorem bolt_store_is_a_map:
  assumes "bolt_invar s"
  shows "case boltStore_Put b s of
           (Some e, s') \<Rightarrow> s' = s
         | (None, s') \<Rightarrow>
             bolt_invar s' \<and> boltStore_Get (b_Round b) s' = Inr b
           \<and> (\<forall>r. r \<noteq> b_Round b \<longrightarrow> boltStore_Get r s' = boltStore_Get r s)
           \<and> boltStore_Len s' = boltStore_Len s + (if is_ok (boltStore_Get (b_Round b) s) then 0 else 1)
           \<and> boltStore_Last s' = (case boltStore_Last s of
                 Inl _ \<Rightarrow> Inr b
               | Inr l \<Rightarrow> Inr (if b_Round l \<le> b_Round b then b else l))"
proof (cases "boltStore_Put b s")
  case (Pair e s')
  show ?thesis
  proof (cases e)
    case (Some e')
    then show ?thesis using Pair bolt_Put_err [OF assms] by auto
  next
    case None
    then have p: "boltStore_Put b s = (None, s')" using Pair by simp
    note p' = p [folded bolt_ops_simps]
    have i: "bolt_invar s'" using bolt_Put_invar [OF assms, of b] p by simp
    have c: "bolt_contents s' = (bolt_contents s)(b_Round b \<mapsto> b)" by (rule bolt_Put_ok [OF assms p])
    have len: "boltStore_Len s' = boltStore_Len s + (if is_ok (boltStore_Get (b_Round b) s) then 0 else 1)"
      using bolt_Get_spec [OF assms, of "b_Round b"]
      by (cases "bolt_contents s (b_Round b)")
        (auto simp: bolt_Len_spec assms i c dom_def [symmetric] domI insert_absorb card_insert_if)
    have last: "boltStore_Last s' = (case boltStore_Last s of
                 Inl _ \<Rightarrow> Inr b
               | Inr l \<Rightarrow> Inr (if b_Round l \<le> b_Round b then b else l))"
      by (rule bolt_Last_after_Put [OF assms p])
    show ?thesis
      using p i len last bolt.Put_then_Get [OF assms p'] by simp
  qed
qed

definition example_beacon :: "uint64 \<Rightarrow> Beacon" where
  "example_beacon r = \<lparr>b_PreviousSig = [1], b_Round = r, b_Signature = [2]\<rparr>"

theorem bolt_store_is_a_map_witness:
  "\<exists>s'. boltStore_Put (example_beacon 5) example_store = (None, s')
      \<and> boltStore_Get 5 s' = Inr (example_beacon 5) \<and> boltStore_Last s' = Inr (example_beacon 5)"
proof -
  obtain s' where s': "boltStore_Put (example_beacon 5) example_store = (None, s')"
    using list_bolt_Put [of example_store "example_beacon 5"]
    by (auto simp: example_store_def example_beacon_def)
  have "boltStore_Last example_store = Inl ErrNoBeaconSaved"
    by (simp add: bolt_Last_spec [OF example_store_invar] example_store_empty greatest_def)
  then show ?thesis
    using bolt_store_is_a_map [OF example_store_invar, of "example_beacon 5"] s'
    by (simp add: example_beacon_def)
qed

text \<open>
  C31. Walking a cursor from round \<open>r\<close>, as \<open>SyncChain\<close> does, terminates and visits exactly the
  stored beacons with round at least \<open>r\<close>, each once, in increasing order of rounds.
\<close>

theorem bolt_cursor_walk:
  assumes "bolt_invar s" "boltStore_Len s < int n"
  shows "let bs = walk bolt_ops n (boltCursor_Seek r s) s
         in map b_Round bs = sorted_list_of_set {k. r \<le> k \<and> is_ok (boltStore_Get k s)}
          \<and> (\<forall>b \<in> set bs. boltStore_Get (b_Round b) s = Inr b)"
proof -
  let ?A = "rounds_from (bolt_contents s) r"
  have A: "{k. r \<le> k \<and> is_ok (boltStore_Get k s)} = ?A"
    by (auto simp: rounds_from_def bolt_Get_spec [OF assms(1)] is_ok_iff split: option.splits)
  have "card ?A \<le> card (dom (bolt_contents s))"
    by (rule card_mono) (auto simp: rounds_from_def)
  then have "card ?A < n" using assms(2) by (simp add: bolt_Len_spec [OF assms(1)])
  then have w: "walk bolt_ops n (boltCursor_Seek r s) s = map (\<lambda>k. the (bolt_contents s k)) (sorted_list_of_set ?A)"
    using bolt.walk_spec [OF assms(1), of r n] by simp
  have k: "\<exists>b. bolt_contents s k = Some b \<and> b_Round b = k" if "k \<in> ?A" for k
    using that bolt_filed [OF assms(1)] by (auto simp: rounds_from_def filed_def)
  have "map b_Round (map (\<lambda>k. the (bolt_contents s k)) (sorted_list_of_set ?A)) = sorted_list_of_set ?A"
    unfolding map_map by (rule map_idI) (use k in \<open>force\<close>)
  moreover have "\<forall>b \<in> set (map (\<lambda>k. the (bolt_contents s k)) (sorted_list_of_set ?A)).
                   boltStore_Get (b_Round b) s = Inr b"
    using k by (fastforce simp: bolt_Get_spec [OF assms(1)])
  ultimately show ?thesis by (simp add: w A Let_def)
qed

theorem bolt_cursor_walk_witness:
  "\<exists>s :: (bytes \<times> bytes) list boltStore. bolt_invar s \<and> boltStore_Len s = 2 \<and> map b_Round (walk bolt_ops 3 (boltCursor_Seek 6 s) s) = [7]"
proof -
  obtain s1 where s1: "boltStore_Put (example_beacon 5) example_store = (None, s1)"
    "bs_bolt s1 = list_bolt" "bs_json s1 = plain_json"
    using list_bolt_Put [of example_store "example_beacon 5"]
    by (auto simp: example_store_def example_beacon_def)
  obtain s2 where s2: "boltStore_Put (example_beacon 7) s1 = (None, s2)"
    using list_bolt_Put [OF s1(2,3), of "example_beacon 7"] by (auto simp: example_beacon_def)
  have i1: "bolt_invar s1" using bolt_Put_invar [OF example_store_invar, of "example_beacon 5"] s1(1) by simp
  have i: "bolt_invar s2" using bolt_Put_invar [OF i1, of "example_beacon 7"] s2 by simp
  have c: "bolt_contents s2 = [5 \<mapsto> example_beacon 5, 7 \<mapsto> example_beacon 7]"
    using bolt_Put_ok [OF i1 s2] bolt_Put_ok [OF example_store_invar s1(1)]
    by (simp add: example_store_empty example_beacon_def)
  have l: "boltStore_Len s2 = 2" by (simp add: bolt_Len_spec [OF i] c)
  have ok: "is_ok (boltStore_Get k s2) \<longleftrightarrow> k = 5 \<or> k = 7" for k
    by (simp add: bolt_Get_spec [OF i] c)
  have le: "6 \<le> (7 :: uint64)" "\<not> 6 \<le> (5 :: uint64)" by simp_all
  have A: "{k. 6 \<le> k \<and> is_ok (boltStore_Get k s2)} = {7}"
    unfolding ok using le by blast
  have "map b_Round (walk bolt_ops 3 (boltCursor_Seek 6 s2) s2) = sorted_list_of_set {7}"
    using bolt_cursor_walk [OF i, of 3 6] l unfolding Let_def A by linarith
  moreover have "sorted_list_of_set {7 :: uint64} = [7]" by simp
  ultimately show ?thesis using i l by metis
qed

end
