(* ===== verification/Beacon_Stores.thy ===== *)
theory Beacon_Stores
  imports Bolt_Store "HOL-Library.AList"
begin

text \<open>
  \<open>src/chain/beacon/store.go\<close>: the three stores that wrap another store. Each embeds a
  \<open>chain.Store\<close> and overrides \<open>Put\<close>: \<open>appendStore\<close> accepts only the successor of the last
  beacon, \<open>discrepancyStore\<close> records timing metrics, \<open>callbackStore\<close> hands every stored beacon
  to the registered callbacks. Each layer is a locale over the contract \<open>chain_store\<close> of the
  store it wraps, with a \<open>sublocale\<close> that gives the same contract back, so layers stack.
\<close>

section \<open>Embedding a store\<close>

text \<open>The methods a Go struct gets from an embedded store: they act on that field.\<close>

definition promote :: "('a \<Rightarrow> 'st) \<Rightarrow> ('st \<Rightarrow> 'a \<Rightarrow> 'a) \<Rightarrow> 'st Store \<Rightarrow> 'a Store" where
  "promote get upd ops =
     \<lparr>st_Len = (\<lambda>a. st_Len ops (get a)),
      st_Put = (\<lambda>b a. let (e, st) = st_Put ops b (get a) in (e, upd st a)),
      st_Last = (\<lambda>a. st_Last ops (get a)),
      st_Get = (\<lambda>r a. st_Get ops r (get a)),
      st_First = (\<lambda>a. st_First ops (get a)),
      st_Next = (\<lambda>p a. st_Next ops p (get a)),
      st_Seek = (\<lambda>r a. st_Seek ops r (get a)),
      st_CursorLast = (\<lambda>a. st_CursorLast ops (get a)),
      st_Close = (\<lambda>a. upd (st_Close ops (get a)) a),
      st_Del = (\<lambda>r a. let (e, st) = st_Del ops r (get a) in (e, upd st a))\<rparr>"

lemma promote_simps [simp]:
  "st_Len (promote get upd ops) a = st_Len ops (get a)"
  "st_Last (promote get upd ops) a = st_Last ops (get a)"
  "st_Get (promote get upd ops) r a = st_Get ops r (get a)"
  "st_Seek (promote get upd ops) r a = st_Seek ops r (get a)"
  "st_Next (promote get upd ops) p a = st_Next ops p (get a)"
  by (simp_all add: promote_def)

section \<open>\<open>appendStore\<close>\<close>

record 'st appendStore =
  as_Store :: 'st
  as_last :: "Beacon option"

definition newAppendStore :: "'st Store \<Rightarrow> 'st \<Rightarrow> 'st appendStore" where
  "newAppendStore ops s =
     \<lparr>as_Store = s, as_last = (case st_Last ops s of Inl _ \<Rightarrow> None | Inr b \<Rightarrow> Some b)\<rparr>"

definition appendStore_Put :: "'st Store \<Rightarrow> Beacon \<Rightarrow> 'st appendStore \<Rightarrow> error option \<times> 'st appendStore" where
  "appendStore_Put ops b a =
     (case as_last a of
        None \<Rightarrow> (Some (Panic ''nil pointer dereference''), a)
      | Some lst \<Rightarrow>
          if b_Round b \<noteq> b_Round lst + 1
          then (Some (Errf ''invalid round inserted: last %d, new %d'' [uint (b_Round lst), uint (b_Round b)]), a)
          else if b_Signature lst \<noteq> b_PreviousSig b then (Some (Err ''invalid previous signature''), a)
          else
            (case st_Put ops b (as_Store a) of
               (Some e, st) \<Rightarrow> (Some e, a\<lparr>as_Store := st\<rparr>)
             | (None, st) \<Rightarrow> (None, a\<lparr>as_Store := st, as_last := Some b\<rparr>)))"

definition append_ops :: "'st Store \<Rightarrow> 'st appendStore Store" where
  "append_ops ops =
     (promote as_Store (\<lambda>st a. a\<lparr>as_Store := st\<rparr>) ops)\<lparr>st_Put := appendStore_Put ops\<rparr>"

lemma append_ops_Put [simp]: "st_Put (append_ops ops) = appendStore_Put ops"
  by (simp add: append_ops_def)

section \<open>\<open>discrepancyStore\<close>\<close>

text \<open>
  The timing of a stored beacon goes to metrics and the log and to nothing else. \<open>ds_now\<close> is
  the clock in nanoseconds; \<open>ds_metrics\<close> lists the values written: the discrepancy in
  nanoseconds (before its division into milliseconds), the round, the size of the group and
  its threshold.
\<close>

record ('st, 'p) discrepancyStore =
  ds_Store :: 'st
  ds_group :: "'p Group"
  ds_now :: int
  ds_metrics :: "(int \<times> uint64 \<times> int \<times> int) list"

definition newDiscrepancyStore :: "'st \<Rightarrow> 'p Group \<Rightarrow> int \<Rightarrow> ('st, 'p) discrepancyStore" where
  "newDiscrepancyStore s gr now =
     \<lparr>ds_Store = s, ds_group = gr, ds_now = now, ds_metrics = []\<rparr>"

definition discrepancyStore_Put ::
  "'st Store \<Rightarrow> Beacon \<Rightarrow> ('st, 'p) discrepancyStore \<Rightarrow> error option \<times> ('st, 'p) discrepancyStore" where
  "discrepancyStore_Put ops b d =
     (case st_Put ops b (ds_Store d) of
        (Some e, st) \<Rightarrow> (Some e, d\<lparr>ds_Store := st\<rparr>)
      | (None, st) \<Rightarrow>
          let actual = ds_now d;
              expected = wrap64 (TimeOfRound (g_Period (ds_group d)) (g_GenesisTime (ds_group d)) (b_Round b) * 1000000000);
              discrepancy = wrap64 (actual - expected)
          in (None, d\<lparr>ds_Store := st,
                      ds_metrics := ds_metrics d @ [(discrepancy, Beacon_GetRound b, Group_Len (ds_group d),
                                                     g_Threshold (ds_group d))]\<rparr>))"

definition discrepancy_ops :: "'st Store \<Rightarrow> ('st, 'p) discrepancyStore Store" where
  "discrepancy_ops ops =
     (promote ds_Store (\<lambda>st d. d\<lparr>ds_Store := st\<rparr>) ops)\<lparr>st_Put := discrepancyStore_Put ops\<rparr>"

section \<open>\<open>callbackStore\<close>\<close>

text \<open>
  Callbacks are values of a type \<open>'cb\<close>. The field \<open>cb_callbacks\<close> is the map from ids to
  callbacks as an association list with distinct ids; Go iterates over it in an unspecified
  order. \<open>cb_newJob\<close> holds the jobs sent on the channel and not yet taken by a worker; the
  send of a job blocks \<open>Put\<close> while \<open>CallbackWorkerQueue\<close> jobs wait, which delays the caller
  and changes nothing else.
\<close>

definition CallbackWorkerQueue :: int where
  "CallbackWorkerQueue = 100"

record ('st, 'cb) callbackStore =
  cb_Store :: 'st
  cb_callbacks :: "(string \<times> 'cb) list"
  cb_newJob :: "('cb \<times> Beacon) list"
  cb_done :: bool

definition NewCallbackStore :: "'st \<Rightarrow> ('st, 'cb) callbackStore" where
  "NewCallbackStore s = \<lparr>cb_Store = s, cb_callbacks = [], cb_newJob = [], cb_done = False\<rparr>"

definition callbackStore_Put ::
  "'st Store \<Rightarrow> Beacon \<Rightarrow> ('st, 'cb) callbackStore \<Rightarrow> error option \<times> ('st, 'cb) callbackStore" where
  "callbackStore_Put ops b c =
     (case st_Put ops b (cb_Store c) of
        (Some e, st) \<Rightarrow> (Some e, c\<lparr>cb_Store := st\<rparr>)
      | (None, st) \<Rightarrow>
          let c = c\<lparr>cb_Store := st\<rparr>
          in if b_Round b \<noteq> 0
             then (None, c\<lparr>cb_newJob := cb_newJob c @ map (\<lambda>(_, cb). (cb, b)) (cb_callbacks c)\<rparr>)
             else (None, c))"

definition callbackStore_AddCallback ::
  "string \<Rightarrow> 'cb \<Rightarrow> ('st, 'cb) callbackStore \<Rightarrow> ('st, 'cb) callbackStore" where
  "callbackStore_AddCallback i fn c = c\<lparr>cb_callbacks := AList.update i fn (cb_callbacks c)\<rparr>"

definition callbackStore_RemoveCallback :: "string \<Rightarrow> ('st, 'cb) callbackStore \<Rightarrow> ('st, 'cb) callbackStore" where
  "callbackStore_RemoveCallback i c = c\<lparr>cb_callbacks := AList.delete i (cb_callbacks c)\<rparr>"

definition callbackStore_Close :: "'st Store \<Rightarrow> ('st, 'cb) callbackStore \<Rightarrow> ('st, 'cb) callbackStore" where
  "callbackStore_Close ops c = c\<lparr>cb_Store := st_Close ops (cb_Store c), cb_done := True\<rparr>"

text \<open>
  One iteration of \<open>runWorker\<close>: the job it runs, or none. When the store is closed and jobs
  wait, \<open>select\<close> takes either branch; \<open>stop\<close> is its choice.
\<close>

definition runWorker :: "bool \<Rightarrow> ('st, 'cb) callbackStore \<Rightarrow> ('cb \<times> Beacon) option \<times> ('st, 'cb) callbackStore" where
  "runWorker stop c =
     (if cb_done c \<and> stop then (None, c)
      else
        case cb_newJob c of
          job # jobs \<Rightarrow> (Some job, c\<lparr>cb_newJob := jobs\<rparr>)
        | [] \<Rightarrow> (None, c))"

definition callback_ops :: "'st Store \<Rightarrow> ('st, 'cb) callbackStore Store" where
  "callback_ops ops =
     (promote cb_Store (\<lambda>st c. c\<lparr>cb_Store := st\<rparr>) ops)
       \<lparr>st_Put := callbackStore_Put ops, st_Close := callbackStore_Close ops\<rparr>"

section \<open>The layers keep the contract\<close>

locale append_layer = chain_store ops invar contents
  for ops :: "'st Store" and invar contents
begin

lemma appendStore_Put_store:
  "as_Store (snd (appendStore_Put ops b a)) = as_Store a
   \<or> as_Store (snd (appendStore_Put ops b a)) = snd (st_Put ops b (as_Store a))"
  by (auto simp: appendStore_Put_def split: option.splits prod.splits)

lemma appendStore_Put_ok:
  assumes "appendStore_Put ops b a = (None, a')"
  shows "\<exists>l. as_last a = Some l \<and> b_Round b = b_Round l + 1 \<and> b_PreviousSig b = b_Signature l
           \<and> st_Put ops b (as_Store a) = (None, as_Store a') \<and> as_last a' = Some b"
  using assms by (auto simp: appendStore_Put_def split: option.splits prod.splits if_splits)

lemma appendStore_Put_err:
  assumes "invar (as_Store a)" "appendStore_Put ops b a = (Some e, a')"
  shows "contents (as_Store a') = contents (as_Store a)" "as_last a' = as_last a"
  using assms Put_err [OF assms(1), of b]
  by (auto simp: appendStore_Put_def split: option.splits prod.splits if_splits)

end

sublocale append_layer \<subseteq> append: chain_store "append_ops ops" "\<lambda>a. invar (as_Store a)" "\<lambda>a. contents (as_Store a)"
proof (unfold_locales, goal_cases)
  case (3 s b s')
  then show ?case using Put_ok by (auto simp: append_ops_def dest!: appendStore_Put_ok)
next
  case (4 s b e s')
  then show ?case using appendStore_Put_err by (simp add: append_ops_def)
next
  case (5 s b)
  then show ?case using appendStore_Put_store [of b s] Put_invar [of "as_Store s" b] by (auto simp: append_ops_def)
qed (simp_all add: append_ops_def filed_contents Len_spec Get_spec Last_spec Seek_spec Next_spec)

locale discrepancy_layer = chain_store ops invar contents
  for ops :: "'st Store" and invar contents

sublocale discrepancy_layer \<subseteq> discrepancy: chain_store "discrepancy_ops ops" "\<lambda>d. invar (ds_Store d)" "\<lambda>d. contents (ds_Store d)"
proof (unfold_locales, goal_cases)
  case (3 s b s')
  then show ?case using Put_ok by (auto simp: discrepancy_ops_def discrepancyStore_Put_def Let_def split: prod.splits option.splits if_splits)
next
  case (4 s b e s')
  then show ?case using Put_err by (auto simp: discrepancy_ops_def discrepancyStore_Put_def Let_def split: prod.splits option.splits if_splits)
next
  case (5 s b)
  then show ?case using Put_invar [of "ds_Store s" b]
    by (auto simp: discrepancy_ops_def discrepancyStore_Put_def Let_def split: prod.splits option.splits)
qed (simp_all add: discrepancy_ops_def filed_contents Len_spec Get_spec Last_spec Seek_spec Next_spec)

locale callback_layer = chain_store ops invar contents
  for ops :: "'st Store" and invar contents

sublocale callback_layer \<subseteq> callback: chain_store "callback_ops ops" "\<lambda>c. invar (cb_Store c)" "\<lambda>c. contents (cb_Store c)"
proof (unfold_locales, goal_cases)
  case (3 s b s')
  then show ?case using Put_ok by (auto simp: callback_ops_def callbackStore_Put_def Let_def split: prod.splits option.splits if_splits)
next
  case (4 s b e s')
  then show ?case using Put_err by (auto simp: callback_ops_def callbackStore_Put_def Let_def split: prod.splits option.splits if_splits)
next
  case (5 s b)
  then show ?case using Put_invar [of "cb_Store s" b]
    by (auto simp: callback_ops_def callbackStore_Put_def Let_def split: prod.splits option.splits)
qed (simp_all add: callback_ops_def filed_contents Len_spec Get_spec Last_spec Seek_spec Next_spec)

text \<open>The stack that \<open>newChainStore\<close> builds on the bolt store.\<close>

interpretation bolt_append: append_layer bolt_ops bolt_invar bolt_contents
  by unfold_locales

interpretation bolt_discrepancy: discrepancy_layer "append_ops bolt_ops" "\<lambda>a. bolt_invar (as_Store a)"
  "\<lambda>a. bolt_contents (as_Store a)"
  by unfold_locales

interpretation bolt_callback: callback_layer "discrepancy_ops (append_ops bolt_ops)"
  "\<lambda>d. bolt_invar (as_Store (ds_Store d))" "\<lambda>d. bolt_contents (as_Store (ds_Store d))"
  by unfold_locales

section \<open>Chains\<close>

text \<open>Every round up to \<open>hi\<close> is stored and every beacon names the signature of its predecessor.\<close>

definition chain_ok :: "(uint64 \<rightharpoonup> Beacon) \<Rightarrow> uint64 \<Rightarrow> bool" where
  "chain_ok m hi \<longleftrightarrow>
     dom m = {0..hi} \<and> (\<forall>r < hi. b_PreviousSig (the (m (r + 1))) = b_Signature (the (m r)))"

text \<open>A sequence of calls of \<open>Put\<close>, successful or not.\<close>

fun put_all :: "'st Store \<Rightarrow> Beacon list \<Rightarrow> 'st \<Rightarrow> 'st" where
  "put_all ops [] s = s"
| "put_all ops (b # bs) s = put_all ops bs (snd (st_Put ops b s))"

lemma chain_ok_extend:
  assumes "chain_ok m (b_Round l)" "m (b_Round l) = Some l" "b_Round l \<noteq> - 1"
    and "b_Round b = b_Round l + 1" "b_PreviousSig b = b_Signature l"
  shows "chain_ok (m(b_Round b \<mapsto> b)) (b_Round b)"
proof -
  have le: "r \<le> b_Round b \<longleftrightarrow> r \<le> b_Round l \<or> r = b_Round b" for r
    using assms(3,4) by (simp add: word_le_succ_iff)
  have lt: "b_Round l < b_Round b" using assms(3,4) by (simp add: word_succ_less)
  have "{0..b_Round b} = insert (b_Round b) {0..b_Round l}" using le by auto
  then have "dom (m(b_Round b \<mapsto> b)) = {0..b_Round b}"
    using assms(1) by (simp add: chain_ok_def)
  moreover have "b_PreviousSig (the ((m(b_Round b \<mapsto> b)) (r + 1))) = b_Signature (the ((m(b_Round b \<mapsto> b)) r))"
    if "r < b_Round b" for r
  proof (cases "r = b_Round l")
    case True
    then show ?thesis using assms lt by auto
  next
    case False
    then have "r < b_Round l" using that le [of r] by auto
    then have "r + 1 \<le> b_Round l" by (rule inc_le)
    then have "r + 1 \<noteq> b_Round b" "r \<noteq> b_Round b" using lt that by auto
    then show ?thesis using assms(1) \<open>r < b_Round l\<close> by (simp add: chain_ok_def)
  qed
  ultimately show ?thesis by (simp add: chain_ok_def)
qed

text \<open>The state of an append store whose cached last beacon is \<open>l\<close>.\<close>

context append_layer
begin

lemma append_Put_chain:
  assumes "invar (as_Store a)" "as_last a = Some l" "contents (as_Store a) (b_Round l) = Some l"
    and "chain_ok (contents (as_Store a)) (b_Round l)" "b_Round l \<noteq> - 1"
    and "a' = snd (appendStore_Put ops b a)"
  shows "\<exists>l'. as_last a' = Some l' \<and> contents (as_Store a') (b_Round l') = Some l'
           \<and> chain_ok (contents (as_Store a')) (b_Round l') \<and> invar (as_Store a')
           \<and> (l' = l \<and> contents (as_Store a') = contents (as_Store a)
              \<or> b_Round l' = b_Round l + 1 \<and> contents (as_Store a') = (contents (as_Store a))(b_Round l + 1 \<mapsto> l'))"
proof (cases "appendStore_Put ops b a")
  case (Pair e a2)
  have i: "invar (as_Store a')"
    using append.Put_invar [of a b] assms(1,6) by (simp add: append_ops_def)
  show ?thesis
  proof (cases e)
    case None
    then have p: "appendStore_Put ops b a = (None, a')" using Pair assms(6) by simp
    from appendStore_Put_ok [OF this] assms(2)
    have b: "b_Round b = b_Round l + 1" "b_PreviousSig b = b_Signature l" "as_last a' = Some b"
      and put: "st_Put ops b (as_Store a) = (None, as_Store a')" by auto
    have "contents (as_Store a') = (contents (as_Store a))(b_Round b \<mapsto> b)"
      by (rule Put_ok [OF assms(1) put])
    then show ?thesis
      using b i chain_ok_extend [OF assms(4,3,5) b(1,2)] by auto
  next
    case (Some e')
    then have "appendStore_Put ops b a = (Some e', a')" using Pair assms(6) by simp
    from appendStore_Put_err [OF assms(1) this] show ?thesis using assms i by auto
  qed
qed

lemma put_all_chain:
  assumes "invar (as_Store a)" "as_last a = Some l" "contents (as_Store a) (b_Round l) = Some l"
    and "chain_ok (contents (as_Store a)) (b_Round l)" "unat (b_Round l) + length bs < 2 ^ 64"
  shows "\<exists>l'. as_last (put_all (append_ops ops) bs a) = Some l' \<and> b_Round l \<le> b_Round l'
           \<and> invar (as_Store (put_all (append_ops ops) bs a))
           \<and> contents (as_Store (put_all (append_ops ops) bs a)) (b_Round l') = Some l'
           \<and> chain_ok (contents (as_Store (put_all (append_ops ops) bs a))) (b_Round l')
           \<and> (\<forall>r \<le> b_Round l. contents (as_Store (put_all (append_ops ops) bs a)) r = contents (as_Store a) r)"
  using assms
proof (induction bs arbitrary: a l)
  case (Cons b bs)
  let ?a = "snd (appendStore_Put ops b a)"
  have "b_Round l \<noteq> - 1"
  proof
    assume "b_Round l = - 1"
    then show False using Cons.prems(5) by (simp add: unat_max_uint64)
  qed
  from append_Put_chain [OF Cons.prems(1-4) this refl, of b]
  obtain m where m: "as_last ?a = Some m" "contents (as_Store ?a) (b_Round m) = Some m"
      "chain_ok (contents (as_Store ?a)) (b_Round m)" "invar (as_Store ?a)"
      "m = l \<and> contents (as_Store ?a) = contents (as_Store a)
       \<or> b_Round m = b_Round l + 1 \<and> contents (as_Store ?a) = (contents (as_Store a))(b_Round l + 1 \<mapsto> m)"
    by blast
  have le: "b_Round l \<le> b_Round m" and keep: "\<forall>r \<le> b_Round l. contents (as_Store ?a) r = contents (as_Store a) r"
    and u: "unat (b_Round m) \<le> unat (b_Round l) + 1"
    using m(5) word_succ_less [OF \<open>b_Round l \<noteq> - 1\<close>] unat_succ [OF \<open>b_Round l \<noteq> - 1\<close>] by auto
  have "unat (b_Round m) + length bs < 2 ^ 64" using u Cons.prems(5) by simp
  from Cons.IH [OF m(4,1,2,3) this] le keep show ?case
    by (fastforce simp: append_ops_def)
qed auto

end

section \<open>The stack of \<open>newChainStore\<close>\<close>

type_synonym ('db, 'p, 'cb) chain_stack =
  "(('db boltStore appendStore, 'p) discrepancyStore, 'cb) callbackStore"

abbreviation stack_ops :: "('db boltStore appendStore, 'p) discrepancyStore Store" where
  "stack_ops \<equiv> discrepancy_ops (append_ops bolt_ops)"

definition stack_append :: "('db, 'p, 'cb) chain_stack \<Rightarrow> 'db boltStore appendStore" where
  "stack_append c = ds_Store (cb_Store c)"

definition stack_chain :: "('db, 'p, 'cb) chain_stack \<Rightarrow> uint64 \<rightharpoonup> Beacon" where
  "stack_chain c = bolt_contents (as_Store (stack_append c))"

text \<open>The invariant of the stack, with the last beacon \<open>l\<close>.\<close>

definition stack_inv :: "Beacon \<Rightarrow> ('db, 'p, 'cb) chain_stack \<Rightarrow> bool" where
  "stack_inv l c \<longleftrightarrow>
     bolt_invar (as_Store (stack_append c)) \<and> as_last (stack_append c) = Some l
   \<and> stack_chain c (b_Round l) = Some l \<and> chain_ok (stack_chain c) (b_Round l)"

lemma stack_Put_append:
  "stack_append (snd (callbackStore_Put stack_ops b c)) = snd (appendStore_Put bolt_ops b (stack_append c))"
  "fst (callbackStore_Put stack_ops b c) = fst (appendStore_Put bolt_ops b (stack_append c))"
  by (cases "appendStore_Put bolt_ops b (ds_Store (cb_Store c))"; cases "fst (appendStore_Put bolt_ops b (ds_Store (cb_Store c)))";
      simp add: stack_append_def callbackStore_Put_def discrepancy_ops_def discrepancyStore_Put_def append_ops_def Let_def)+

lemma callbackStore_Put_jobs:
  "cb_newJob (snd (callbackStore_Put ops b c)) =
     cb_newJob c @ (if fst (callbackStore_Put ops b c) = None \<and> b_Round b \<noteq> 0
                    then map (\<lambda>(_, cb). (cb, b)) (cb_callbacks c) else [])"
  "cb_callbacks (snd (callbackStore_Put ops b c)) = cb_callbacks c"
  "cb_done (snd (callbackStore_Put ops b c)) = cb_done c"
  by (auto simp: callbackStore_Put_def Let_def split: prod.splits option.splits)

text \<open>
  \<open>Put\<close> on the stack either fails and changes neither the chain nor the queue, or extends the
  chain by its beacon.
\<close>

lemma stack_Put_cases:
  assumes "stack_inv l c" "b_Round l \<noteq> - 1" "c' = snd (callbackStore_Put stack_ops b c)"
  obtains (err) e where "fst (callbackStore_Put stack_ops b c) = Some e" "stack_inv l c'"
      "stack_chain c' = stack_chain c" "cb_newJob c' = cb_newJob c"
  | (ok) "fst (callbackStore_Put stack_ops b c) = None" "stack_inv b c'" "b_Round b = b_Round l + 1"
      "b_PreviousSig b = b_Signature l" "stack_chain c' = (stack_chain c)(b_Round b \<mapsto> b)"
      "cb_newJob c' = cb_newJob c @ (if b_Round b \<noteq> 0 then map (\<lambda>(_, cb). (cb, b)) (cb_callbacks c) else [])"
proof (cases "fst (appendStore_Put bolt_ops b (stack_append c))")
  case (Some e)
  let ?a = "stack_append c"
  have p: "appendStore_Put bolt_ops b ?a = (Some e, stack_append c')"
    using Some by (simp add: assms(3) stack_Put_append prod_eq_iff)
  have i: "bolt_invar (as_Store ?a)" using assms(1) by (simp add: stack_inv_def)
  have "bolt_invar (as_Store (stack_append c'))"
    using bolt_append.append.Put_invar [of ?a b] i by (simp add: assms(3) stack_Put_append)
  then show ?thesis
    using err [of e] assms(1,3) Some bolt_append.appendStore_Put_err [OF i p]
    by (simp add: stack_inv_def stack_chain_def stack_Put_append callbackStore_Put_jobs)
next
  case None
  let ?a = "stack_append c"
  have p: "appendStore_Put bolt_ops b ?a = (None, stack_append c')"
    using None by (simp add: assms(3) stack_Put_append prod_eq_iff)
  have i: "bolt_invar (as_Store ?a)" and la: "as_last ?a = Some l" using assms(1) by (simp_all add: stack_inv_def)
  from bolt_append.appendStore_Put_ok [OF p] la
  have b: "b_Round b = b_Round l + 1" "b_PreviousSig b = b_Signature l" "as_last (stack_append c') = Some b"
    and put: "boltStore_Put b (as_Store ?a) = (None, as_Store (stack_append c'))" by auto
  have c: "stack_chain c' = (stack_chain c)(b_Round b \<mapsto> b)"
    unfolding stack_chain_def by (rule bolt_Put_ok [OF i put])
  have "bolt_invar (as_Store (stack_append c'))" using bolt_Put_invar [OF i, of b] put by simp
  moreover have "chain_ok (stack_chain c') (b_Round b)"
    unfolding c using assms(1,2) b by (intro chain_ok_extend [of _ l]) (auto simp: stack_inv_def)
  ultimately show ?thesis
    using ok b c None by (simp add: stack_inv_def assms(3) stack_Put_append callbackStore_Put_jobs)
qed

section \<open>Deliveries\<close>

text \<open>
  What happens to a callback store over time: calls of \<open>Put\<close> by the aggregator and the syncer,
  iterations of the workers, registrations and removals. The first component lists the
  callbacks invoked so far. The greatest round of 64 bits is out of reach.
\<close>

inductive cb_step ::
  "('cb \<times> Beacon) list \<times> ('db, 'p, 'cb) chain_stack \<Rightarrow> ('cb \<times> Beacon) list \<times> ('db, 'p, 'cb) chain_stack \<Rightarrow> bool" where
  put: "\<forall>l. as_last (stack_append c) = Some l \<longrightarrow> b_Round l \<noteq> - 1 \<Longrightarrow>
          cb_step (called, c) (called, snd (callbackStore_Put stack_ops b c))"
| work: "runWorker stop c = (Some job, c') \<Longrightarrow> cb_step (called, c) (called @ [job], c')"
| add: "cb_step (called, c) (called, callbackStore_AddCallback i fn c)"
| remove: "cb_step (called, c) (called, callbackStore_RemoveCallback i c)"

definition deliveries_ok :: "('cb \<times> Beacon) list \<Rightarrow> Beacon \<Rightarrow> ('db, 'p, 'cb) chain_stack \<Rightarrow> bool" where
  "deliveries_ok called l c \<longleftrightarrow>
     sorted (map (\<lambda>j. b_Round (snd j)) (called @ cb_newJob c))
   \<and> (\<forall>j \<in> set (called @ cb_newJob c). b_Round (snd j) \<noteq> 0 \<and> b_Round (snd j) \<le> b_Round l
        \<and> stack_chain c (b_Round (snd j)) = Some (snd j))"

lemma deliveries_Put:
  assumes i: "stack_inv l c" and d: "deliveries_ok called l c" and m: "b_Round l \<noteq> - 1"
  shows "\<exists>l'. stack_inv l' (snd (callbackStore_Put stack_ops b c))
            \<and> deliveries_ok called l' (snd (callbackStore_Put stack_ops b c)) \<and> b_Round l \<le> b_Round l'"
proof (rule stack_Put_cases [OF i m refl, of b])
  fix e assume "stack_inv l (snd (callbackStore_Put stack_ops b c))"
    "stack_chain (snd (callbackStore_Put stack_ops b c)) = stack_chain c"
    "cb_newJob (snd (callbackStore_Put stack_ops b c)) = cb_newJob c"
  then show ?thesis using d by (intro exI [of _ l]) (simp add: deliveries_ok_def)
next
  let ?c = "snd (callbackStore_Put stack_ops b c)"
  assume ok: "stack_inv b ?c" "b_Round b = b_Round l + 1" "stack_chain ?c = (stack_chain c)(b_Round b \<mapsto> b)"
    "cb_newJob ?c = cb_newJob c @ (if b_Round b \<noteq> 0 then map (\<lambda>(_, cb). (cb, b)) (cb_callbacks c) else [])"
  have lt: "b_Round l < b_Round b" using m ok(2) by (simp add: word_succ_less)
  have lt': "b_Round (snd j) < b_Round b" if "j \<in> set (called @ cb_newJob c)" for j
    using d that lt unfolding deliveries_ok_def by (meson le_less_trans)
  have old: "b_Round (snd j) \<le> b_Round b" "b_Round (snd j) \<noteq> b_Round b" if "j \<in> set (called @ cb_newJob c)" for j
    using lt' [OF that] by auto
  have new: "snd j = b" if "j \<in> set (map (\<lambda>(_, cb). (cb, b)) (cb_callbacks c))" for j
    using that by auto
  have "sorted (map (\<lambda>j. b_Round (snd j)) (called @ cb_newJob ?c))"
    using d old new unfolding deliveries_ok_def ok(4)
    by (auto simp: sorted_append comp_def case_prod_unfold map_replicate_const)
  moreover have "\<forall>j \<in> set (called @ cb_newJob ?c). b_Round (snd j) \<noteq> 0 \<and> b_Round (snd j) \<le> b_Round b
        \<and> stack_chain ?c (b_Round (snd j)) = Some (snd j)"
    using d old unfolding ok(3,4) deliveries_ok_def by (auto split: if_splits)
  ultimately show ?thesis using ok(1) lt unfolding deliveries_ok_def by (intro exI [of _ b]) (simp add: less_imp_le)
qed

lemma cb_step_inv:
  assumes "cb_step s s'" "stack_inv l (snd s)" "deliveries_ok (fst s) l (snd s)"
  shows "\<exists>l'. stack_inv l' (snd s') \<and> deliveries_ok (fst s') l' (snd s') \<and> b_Round l \<le> b_Round l'"
  using assms
proof (induction rule: cb_step.induct)
  case (put c called b)
  then show ?case using deliveries_Put [of l c called b] by (auto simp: stack_inv_def)
next
  case (work stop c job c' called)
  then obtain jobs where "cb_newJob c = job # jobs" "c' = c\<lparr>cb_newJob := jobs\<rparr>"
    by (auto simp: runWorker_def split: if_splits list.splits)
  then show ?case
    using work by (intro exI [of _ l]) (auto simp: stack_inv_def deliveries_ok_def stack_append_def stack_chain_def)
qed (intro exI [of _ l], auto simp: stack_inv_def deliveries_ok_def stack_append_def stack_chain_def
      callbackStore_AddCallback_def callbackStore_RemoveCallback_def)+

section \<open>Properties\<close>

lemma chain_ok_Last:
  assumes "bolt_invar s" "chain_ok (bolt_contents s) (b_Round l)" "bolt_contents s (b_Round l) = Some l"
  shows "boltStore_Last s = Inr l"
proof -
  have d: "dom (bolt_contents s) = {0..b_Round l}" using assms(2) by (simp add: chain_ok_def)
  then have "Max (dom (bolt_contents s)) = b_Round l" by (intro Max_eqI) auto
  then show ?thesis using assms(3) d by (auto simp: bolt_Last_spec [OF assms(1)] greatest_def)
qed

text \<open>
  C3. The append store only ever extends the chain: from a store that holds an unbroken chain,
  any sequence of calls of \<open>Put\<close>, successful or refused, leaves an unbroken chain from round 0
  to the last beacon, in which every beacon names the signature of its predecessor, the cached
  last beacon is the last one of the store, and every round that was stored reads as before.
\<close>

theorem append_store_keeps_the_chain:
  assumes "bolt_invar s" "boltStore_Last s = Inr l" "chain_ok (bolt_contents s) (b_Round l)"
    and "unat (b_Round l) + length bs < 2 ^ 64"
  shows "let a = put_all (append_ops bolt_ops) bs (newAppendStore bolt_ops s)
         in \<exists>l'. as_last a = Some l' \<and> boltStore_Last (as_Store a) = Inr l' \<and> b_Round l \<le> b_Round l'
               \<and> chain_ok (bolt_contents (as_Store a)) (b_Round l')
               \<and> (\<forall>r \<le> b_Round l. boltStore_Get r (as_Store a) = boltStore_Get r s)"
proof -
  let ?a0 = "newAppendStore bolt_ops s"
  have a0: "as_Store ?a0 = s" "as_last ?a0 = Some l" using assms(2) by (simp_all add: newAppendStore_def)
  have l: "bolt_contents s (b_Round l) = Some l"
    using bolt.Last_contents(1) [OF assms(1)] assms(2) by simp
  have "\<exists>l'. as_last (put_all (append_ops bolt_ops) bs ?a0) = Some l' \<and> b_Round l \<le> b_Round l'
           \<and> bolt_invar (as_Store (put_all (append_ops bolt_ops) bs ?a0))
           \<and> bolt_contents (as_Store (put_all (append_ops bolt_ops) bs ?a0)) (b_Round l') = Some l'
           \<and> chain_ok (bolt_contents (as_Store (put_all (append_ops bolt_ops) bs ?a0))) (b_Round l')
           \<and> (\<forall>r \<le> b_Round l. bolt_contents (as_Store (put_all (append_ops bolt_ops) bs ?a0)) r = bolt_contents s r)"
    using bolt_append.put_all_chain [of ?a0 l bs] assms a0 l by simp
  then show ?thesis
    using assms(1) chain_ok_Last unfolding Let_def by (force simp: bolt_Get_spec)
qed

text \<open>A store with the genesis beacon alone, and the first beacon after it.\<close>

definition genesis_store :: "(bytes \<times> bytes) list boltStore" where
  "genesis_store = snd (boltStore_Put \<lparr>b_PreviousSig = [], b_Round = 0, b_Signature = [7]\<rparr> example_store)"

lemma genesis_store_facts:
  "bolt_invar genesis_store"
  "bolt_contents genesis_store = [0 \<mapsto> \<lparr>b_PreviousSig = [], b_Round = 0, b_Signature = [7]\<rparr>]"
  "boltStore_Last genesis_store = Inr \<lparr>b_PreviousSig = [], b_Round = 0, b_Signature = [7]\<rparr>"
  "bs_bolt genesis_store = list_bolt" "bs_json genesis_store = plain_json"
proof -
  let ?g = "\<lparr>b_PreviousSig = [], b_Round = 0, b_Signature = [7]\<rparr> :: Beacon"
  obtain s' where s': "boltStore_Put ?g example_store = (None, s')" "bs_bolt s' = list_bolt" "bs_json s' = plain_json"
    using list_bolt_Put [of example_store ?g] by (auto simp: example_store_def)
  then have g: "genesis_store = s'" by (simp add: genesis_store_def)
  show i: "bolt_invar genesis_store"
    unfolding genesis_store_def by (rule bolt_Put_invar [OF example_store_invar])
  show c: "bolt_contents genesis_store = [0 \<mapsto> ?g]"
    using bolt_Put_ok [OF example_store_invar s'(1)] g by (simp add: example_store_empty)
  show "boltStore_Last genesis_store = Inr ?g"
    by (simp add: bolt_Last_spec [OF i] c greatest_def)
  show "bs_bolt genesis_store = list_bolt" "bs_json genesis_store = plain_json" using s' g by simp_all
qed

lemma genesis_chain_ok: "chain_ok (bolt_contents genesis_store) 0"
  by (simp add: genesis_store_facts chain_ok_def)

theorem append_store_keeps_the_chain_witness:
  "\<exists>l'. as_last (put_all (append_ops bolt_ops) [example_beacon 5] (newAppendStore bolt_ops genesis_store)) = Some l'
      \<and> chain_ok (bolt_contents (as_Store (put_all (append_ops bolt_ops) [example_beacon 5]
                                   (newAppendStore bolt_ops genesis_store)))) (b_Round l')"
  using append_store_keeps_the_chain [OF genesis_store_facts(1,3), of "[example_beacon 5]"] genesis_chain_ok
  by (auto simp: Let_def)


definition example_stack :: "((bytes \<times> bytes) list, bytes, nat) chain_stack" where
  "example_stack =
     NewCallbackStore (newDiscrepancyStore (newAppendStore bolt_ops genesis_store) example_group 0)"

lemma example_stack_inv:
  "stack_inv \<lparr>b_PreviousSig = [], b_Round = 0, b_Signature = [7]\<rparr> example_stack" "cb_newJob example_stack = []"
  using genesis_store_facts genesis_chain_ok
  by (simp_all add: stack_inv_def example_stack_def stack_append_def stack_chain_def NewCallbackStore_def
      newDiscrepancyStore_def newAppendStore_def)

definition first_beacon :: Beacon where
  "first_beacon = \<lparr>b_PreviousSig = [7], b_Round = 1, b_Signature = [8]\<rparr>"

lemma example_stack_Put:
  "fst (callbackStore_Put stack_ops first_beacon (callbackStore_AddCallback ''chainstore'' 5 example_stack)) = None"
proof -
  have "fst (boltStore_Put first_beacon genesis_store) = None"
    using list_bolt_Put [OF genesis_store_facts(4,5), of first_beacon] by (auto simp: first_beacon_def)
  then show ?thesis
    by (cases "boltStore_Put first_beacon genesis_store")
      (simp add: stack_Put_append stack_append_def example_stack_def NewCallbackStore_def newDiscrepancyStore_def
        newAppendStore_def callbackStore_AddCallback_def genesis_store_facts appendStore_Put_def,
       simp add: first_beacon_def)
qed


end
