(* ===== verification/Partial_Cache.thy ===== *)
theory Partial_Cache
  imports Chain_Beacon "HOL-Library.AList"
begin

text \<open>
  \<open>src/chain/beacon/cache.go\<close>: the cache of partial signatures, per round and previous
  signature. Go maps are association lists with distinct keys. A round cache is shared by
  pointer with the map that holds it, so an operation on it updates its entry.
\<close>

definition MaxPartialsPerNode :: nat where
  "MaxPartialsPerNode = 100"

record PartialBeaconPacket =
  pb_Round :: uint64
  pb_PreviousSig :: bytes
  pb_PartialSig :: bytes

section \<open>Round caches\<close>

record roundCache =
  rc_round :: uint64
  rc_prev :: bytes
  rc_id :: bytes
  rc_sigs :: "(int \<times> bytes) list"

definition newRoundCache :: "bytes \<Rightarrow> PartialBeaconPacket \<Rightarrow> roundCache" where
  "newRoundCache i p = \<lparr>rc_round = pb_Round p, rc_prev = pb_PreviousSig p, rc_id = i, rc_sigs = []\<rparr>"

definition roundCache_append :: "('p, 's) suite \<Rightarrow> PartialBeaconPacket \<Rightarrow> roundCache \<Rightarrow> bool \<times> roundCache" where
  "roundCache_append S p r =
     (let idx = tbls_index_of S (pb_PartialSig p)
      in case map_of (rc_sigs r) idx of
           Some _ \<Rightarrow> (False, r)
         | None \<Rightarrow> (True, r\<lparr>rc_sigs := AList.update idx (pb_PartialSig p) (rc_sigs r)\<rparr>))"

definition roundCache_Len :: "roundCache \<Rightarrow> int" where
  "roundCache_Len r = int (length (rc_sigs r))"

definition roundCache_Msg :: "roundCache \<Rightarrow> bytes" where
  "roundCache_Msg r = Message (rc_round r) (rc_prev r)"

definition roundCache_Partials :: "roundCache \<Rightarrow> bytes list" where
  "roundCache_Partials r = map snd (rc_sigs r)"

definition roundCache_flushIndex :: "int \<Rightarrow> roundCache \<Rightarrow> roundCache" where
  "roundCache_flushIndex idx r = r\<lparr>rc_sigs := AList.delete idx (rc_sigs r)\<rparr>"

section \<open>The cache\<close>

record partialCache =
  pc_rounds :: "(bytes \<times> roundCache) list"
  pc_rcvd :: "(int \<times> bytes list) list"

definition newPartialCache :: partialCache where
  "newPartialCache = \<lparr>pc_rounds = [], pc_rcvd = []\<rparr>"

definition roundID :: "uint64 \<Rightarrow> bytes \<Rightarrow> bytes" where
  "roundID rnd previous = be_uint64 rnd @ previous"

text \<open>The ids received from a node; a missing key reads as a nil slice.\<close>

definition rcvd :: "partialCache \<Rightarrow> int \<Rightarrow> bytes list" where
  "rcvd c idx = (case map_of (pc_rcvd c) idx of None \<Rightarrow> [] | Some ids \<Rightarrow> ids)"

text \<open>\<open>getCache\<close> returns whether there is a round cache for the id afterwards.\<close>

definition getCache ::
  "('p, 's) suite \<Rightarrow> bytes \<Rightarrow> PartialBeaconPacket \<Rightarrow> partialCache \<Rightarrow> bool \<times> partialCache" where
  "getCache S i p c =
     (case map_of (pc_rounds c) i of
        Some _ \<Rightarrow> (True, c)
      | None \<Rightarrow>
          let idx = tbls_index_of S (pb_PartialSig p);
              add = (\<lambda>c. (True, c\<lparr>pc_rounds := AList.update i (newRoundCache i p) (pc_rounds c)\<rparr>))
          in if MaxPartialsPerNode \<le> length (rcvd c idx) then
               let toEvict = hd (rcvd c idx)
               in case map_of (pc_rounds c) toEvict of
                    None \<Rightarrow> (False, c)
                  | Some r \<Rightarrow>
                      let r = roundCache_flushIndex idx r;
                          c = c\<lparr>pc_rounds := AList.update toEvict r (pc_rounds c),
                                pc_rcvd := AList.update idx (tl (rcvd c idx) @ [i]) (pc_rcvd c)\<rparr>
                      in add (if roundCache_Len r = 0
                              then c\<lparr>pc_rounds := AList.delete toEvict (pc_rounds c)\<rparr> else c)
             else add c)"

definition Append :: "('p, 's) suite \<Rightarrow> PartialBeaconPacket \<Rightarrow> partialCache \<Rightarrow> partialCache" where
  "Append S p c =
     (let i = roundID (pb_Round p) (pb_PreviousSig p);
          idx = tbls_index_of S (pb_PartialSig p)
      in case getCache S i p c of
           (False, c) \<Rightarrow> c
         | (True, c) \<Rightarrow>
             (case map_of (pc_rounds c) i of
                None \<Rightarrow> c
              | Some r \<Rightarrow>
                  (case roundCache_append S p r of
                     (False, _) \<Rightarrow> c
                   | (True, r) \<Rightarrow>
                       c\<lparr>pc_rounds := AList.update i r (pc_rounds c),
                         pc_rcvd := AList.update idx (rcvd c idx @ [i]) (pc_rcvd c)\<rparr>)))"

text \<open>Flushing one round: its entry, and its id in the list of every node that signed it.\<close>

definition drop_id :: "bytes \<Rightarrow> int \<Rightarrow> partialCache \<Rightarrow> partialCache" where
  "drop_id i idx c =
     (let idSlice = filter (\<lambda>idd. idd \<noteq> i) (rcvd c idx)
      in c\<lparr>pc_rcvd := (if idSlice \<noteq> [] then AList.update idx idSlice (pc_rcvd c)
                         else AList.delete idx (pc_rcvd c))\<rparr>)"

definition flush_round :: "uint64 \<Rightarrow> bytes \<times> roundCache \<Rightarrow> partialCache \<Rightarrow> partialCache" where
  "flush_round rnd e c =
     (case e of (i, cache) \<Rightarrow>
        if rnd < rc_round cache then c
        else fold (drop_id i) (map fst (rc_sigs cache)) (c\<lparr>pc_rounds := AList.delete i (pc_rounds c)\<rparr>))"

definition FlushRounds :: "uint64 \<Rightarrow> partialCache \<Rightarrow> partialCache" where
  "FlushRounds rnd c = fold (flush_round rnd) (pc_rounds c) c"

definition GetRoundCache :: "uint64 \<Rightarrow> bytes \<Rightarrow> partialCache \<Rightarrow> roundCache option" where
  "GetRoundCache rnd previous c = (let i = roundID rnd previous in map_of (pc_rounds c) i)"

section \<open>Basic facts\<close>

lemma rcvd_update [simp]: "rcvd (c\<lparr>pc_rcvd := AList.update idx ids m\<rparr>) j = (if j = idx then ids else rcvd (c\<lparr>pc_rcvd := m\<rparr>) j)"
  by (simp add: rcvd_def update_conv')

lemma rcvd_delete [simp]: "rcvd (c\<lparr>pc_rcvd := AList.delete idx m\<rparr>) j = (if j = idx then [] else rcvd (c\<lparr>pc_rcvd := m\<rparr>) j)"
  by (simp add: rcvd_def delete_conv')

lemma rcvd_same [simp]: "rcvd (c\<lparr>pc_rounds := rs\<rparr>) = rcvd c" "rcvd (c\<lparr>pc_rcvd := pc_rcvd c\<rparr>) = rcvd c"
  by (simp_all add: rcvd_def fun_eq_iff)

lemma rcvd_drop_id [simp]:
  "rcvd (drop_id i idx c) j = (if j = idx then filter (\<lambda>x. x \<noteq> i) (rcvd c j) else rcvd c j)"
  by (simp add: drop_id_def Let_def)

lemma drop_id_rounds [simp]: "pc_rounds (drop_id i idx c) = pc_rounds c"
  by (simp add: drop_id_def Let_def)

lemma fold_drop_id_rounds [simp]: "pc_rounds (fold (drop_id i) ids c) = pc_rounds c"
  by (induction ids arbitrary: c) simp_all

lemma rcvd_fold_drop_id:
  "rcvd (fold (drop_id i) ids c) j = (if j \<in> set ids then filter (\<lambda>x. x \<noteq> i) (rcvd c j) else rcvd c j)"
  by (induction ids arbitrary: c) (auto simp: filter_filter)

lemma roundID_inject [simp]: "roundID r p = roundID r' p' \<longleftrightarrow> r = r' \<and> p = p'"
  by (auto simp: roundID_def append_eq_append_conv)

section \<open>Flushing\<close>

lemma flush_round_pair:
  "flush_round rnd (i, cache) c =
     (if rnd < rc_round cache then c
      else fold (drop_id i) (map fst (rc_sigs cache)) (c\<lparr>pc_rounds := AList.delete i (pc_rounds c)\<rparr>))"
  by (simp add: flush_round_def)

text \<open>Whether an id is flushed, given the entries of the cache.\<close>

definition flushed :: "uint64 \<Rightarrow> (bytes \<times> roundCache) list \<Rightarrow> bytes \<Rightarrow> bool" where
  "flushed rnd es i \<longleftrightarrow> (\<exists>rc. (i, rc) \<in> set es \<and> rc_round rc \<le> rnd)"

lemma fold_flush_rounds:
  "map_of (pc_rounds (fold (flush_round rnd) es c)) i =
     (if flushed rnd es i then None else map_of (pc_rounds c) i)"
proof (induction es arbitrary: c)
  case (Cons e es)
  then show ?case
    by (cases e) (auto simp: flush_round_pair flushed_def delete_conv' not_less not_le)
qed (simp add: flushed_def)

lemma fold_flush_rcvd:
  "rcvd (fold (flush_round rnd) es c) j =
     filter (\<lambda>i. \<not> (\<exists>rc. (i, rc) \<in> set es \<and> rc_round rc \<le> rnd \<and> j \<in> fst ` set (rc_sigs rc))) (rcvd c j)"
proof (induction es arbitrary: c)
  case (Cons e es)
  obtain i rc where e: "e = (i, rc)" by fastforce
  show ?case
  proof (cases "rnd < rc_round rc")
    case True
    then show ?thesis by (simp add: e flush_round_pair Cons.IH not_le) (rule filter_cong; auto)
  next
    case False
    then show ?thesis
      by (simp add: e flush_round_pair Cons.IH rcvd_fold_drop_id filter_filter)
        (intro conjI impI filter_cong; force simp: not_less)
  qed
qed simp

lemma FlushRounds_lookup:
  assumes "distinct (map fst (pc_rounds c))"
  shows "map_of (pc_rounds (FlushRounds rnd c)) i =
           (case map_of (pc_rounds c) i of
              None \<Rightarrow> None
            | Some rc \<Rightarrow> if rc_round rc \<le> rnd then None else Some rc)"
proof -
  have "(i, rc) \<in> set (pc_rounds c) \<longleftrightarrow> map_of (pc_rounds c) i = Some rc" for rc
    using assms by simp
  then show ?thesis
    by (auto simp: FlushRounds_def fold_flush_rounds flushed_def split: option.split)
qed

section \<open>Well-formedness\<close>

text \<open>
  Every round cache is filed under the id of its round and previous signature, and holds one
  signature per index, filed under the index the signature carries.
\<close>

definition round_wf :: "('p, 's) suite \<Rightarrow> bytes \<Rightarrow> roundCache \<Rightarrow> bool" where
  "round_wf S i rc \<longleftrightarrow>
     i = roundID (rc_round rc) (rc_prev rc) \<and> rc_id rc = i \<and> distinct (map fst (rc_sigs rc))
   \<and> (\<forall>idx sig. map_of (rc_sigs rc) idx = Some sig \<longrightarrow> tbls_index_of S sig = idx)"

definition rounds_wf :: "('p, 's) suite \<Rightarrow> (bytes \<times> roundCache) list \<Rightarrow> bool" where
  "rounds_wf S rs \<longleftrightarrow> distinct (map fst rs) \<and> (\<forall>i rc. map_of rs i = Some rc \<longrightarrow> round_wf S i rc)"

definition cache_wf :: "('p, 's) suite \<Rightarrow> partialCache \<Rightarrow> bool" where
  "cache_wf S c \<longleftrightarrow> rounds_wf S (pc_rounds c)"

lemma round_wf_new: "round_wf S (roundID (pb_Round p) (pb_PreviousSig p)) (newRoundCache (roundID (pb_Round p) (pb_PreviousSig p)) p)"
  by (simp add: round_wf_def newRoundCache_def)

lemma round_wf_append: "round_wf S i rc \<Longrightarrow> round_wf S i (snd (roundCache_append S p rc))"
  by (auto simp: round_wf_def roundCache_append_def Let_def update_conv' distinct_update simp del: map_of_eq_Some_iff
      split: option.splits if_splits)

lemma round_wf_flushIndex: "round_wf S i rc \<Longrightarrow> round_wf S i (roundCache_flushIndex idx rc)"
  by (auto simp: round_wf_def roundCache_flushIndex_def delete_conv' distinct_delete simp del: map_of_eq_Some_iff
      split: if_splits)

lemma cache_wf_new: "cache_wf S newPartialCache"
  by (simp add: cache_wf_def rounds_wf_def newPartialCache_def)

lemma rounds_wf_lookup: "rounds_wf S rs \<Longrightarrow> map_of rs i = Some rc \<Longrightarrow> round_wf S i rc"
  unfolding rounds_wf_def by blast

lemma rounds_wf_update: "rounds_wf S rs \<Longrightarrow> round_wf S i rc \<Longrightarrow> rounds_wf S (AList.update i rc rs)"
  by (auto simp: rounds_wf_def update_conv' distinct_update simp del: map_of_eq_Some_iff)

lemma rounds_wf_delete: "rounds_wf S rs \<Longrightarrow> rounds_wf S (AList.delete i rs)"
  by (auto simp: rounds_wf_def delete_conv' distinct_delete simp del: map_of_eq_Some_iff split: if_splits)

lemma getCache_wf:
  assumes wf: "cache_wf S c" and i: "i = roundID (pb_Round p) (pb_PreviousSig p)"
  shows "cache_wf S (snd (getCache S i p c))"
proof -
  have new: "rounds_wf S (AList.update i (newRoundCache i p) rs)" if "rounds_wf S rs" for rs
    unfolding i by (intro rounds_wf_update that round_wf_new)
  show ?thesis
    using wf unfolding cache_wf_def
    by (auto simp: getCache_def Let_def split: option.split
        intro!: new rounds_wf_delete rounds_wf_update round_wf_flushIndex elim: rounds_wf_lookup)
qed

lemma Append_wf:
  assumes "cache_wf S c"
  shows "cache_wf S (Append S p c)"
proof -
  let ?i = "roundID (pb_Round p) (pb_PreviousSig p)"
  obtain ok d where d: "getCache S ?i p c = (ok, d)" by fastforce
  have wf: "rounds_wf S (pc_rounds d)" using getCache_wf [OF assms refl, of p] d by (simp add: cache_wf_def)
  show ?thesis
  proof (cases "map_of (pc_rounds d) ?i")
    case None
    then show ?thesis using wf by (cases ok) (simp_all add: Append_def d cache_wf_def)
  next
    case (Some r)
    obtain b r' where r': "roundCache_append S p r = (b, r')" by fastforce
    have "round_wf S ?i r'" using round_wf_append [OF rounds_wf_lookup [OF wf Some], of p] r' by simp
    then have "rounds_wf S (AList.update ?i r' (pc_rounds d))" by (rule rounds_wf_update [OF wf])
    then show ?thesis using wf Some r' by (cases ok; cases b) (simp_all add: Append_def d cache_wf_def Let_def)
  qed
qed

lemma FlushRounds_distinct:
  "distinct (map fst (pc_rounds c)) \<Longrightarrow> distinct (map fst (pc_rounds (FlushRounds rnd c)))"
proof -
  have "distinct (map fst (pc_rounds (fold (flush_round rnd) es c)))" if "distinct (map fst (pc_rounds c))" for es c
    using that
  proof (induction es arbitrary: c)
    case (Cons e es)
    then show ?case by (cases e) (simp add: flush_round_pair distinct_delete)
  qed simp
  then show "distinct (map fst (pc_rounds c)) \<Longrightarrow> ?thesis" by (simp add: FlushRounds_def)
qed

lemma FlushRounds_wf: "cache_wf S c \<Longrightarrow> cache_wf S (FlushRounds rnd c)"
  by (auto simp: cache_wf_def rounds_wf_def FlushRounds_lookup FlushRounds_distinct simp del: map_of_eq_Some_iff
      split: option.splits if_splits)

section \<open>Bookkeeping\<close>

text \<open>
  The lists of received ids agree with the signatures held: a node's list names, each once,
  the rounds in which the cache holds a signature of that node.
\<close>

definition signers :: "partialCache \<Rightarrow> bytes \<Rightarrow> int set" where
  "signers c i = (case map_of (pc_rounds c) i of None \<Rightarrow> {} | Some rc \<Rightarrow> fst ` set (rc_sigs rc))"

definition rcvd_ok :: "partialCache \<Rightarrow> bool" where
  "rcvd_ok c \<longleftrightarrow> (\<forall>idx. distinct (rcvd c idx) \<and> set (rcvd c idx) = {i. idx \<in> signers c i})"

lemma rcvd_ok_new: "rcvd_ok newPartialCache"
  by (simp add: rcvd_ok_def newPartialCache_def rcvd_def signers_def)

text \<open>Appending below the limit: the partial is added to its round unless its index is there.\<close>

lemma Append_below_limit:
  assumes "length (rcvd c idx) < MaxPartialsPerNode \<or> map_of (pc_rounds c) i \<noteq> None"
    and "i = roundID (pb_Round p) (pb_PreviousSig p)" "idx = tbls_index_of S (pb_PartialSig p)"
    and "rc = (case map_of (pc_rounds c) i of None \<Rightarrow> newRoundCache i p | Some rc \<Rightarrow> rc)"
  shows "map_of (pc_rounds (Append S p c)) =
           (map_of (pc_rounds c))(i \<mapsto> (if map_of (rc_sigs rc) idx = None
             then rc\<lparr>rc_sigs := AList.update idx (pb_PartialSig p) (rc_sigs rc)\<rparr> else rc))"
    and "rcvd (Append S p c) =
           (if map_of (rc_sigs rc) idx = None then (rcvd c)(idx := rcvd c idx @ [i]) else rcvd c)"
proof -
  let ?d = "if map_of (pc_rounds c) i = None then c\<lparr>pc_rounds := AList.update i (newRoundCache i p) (pc_rounds c)\<rparr> else c"
  have g: "getCache S i p c = (True, ?d)"
    using assms(1,3) by (cases "map_of (pc_rounds c) i") (auto simp: getCache_def Let_def)
  have r: "map_of (pc_rounds ?d) i = Some rc" "rcvd ?d = rcvd c"
    using assms(4) by (cases "map_of (pc_rounds c) i") (auto simp: update_conv')
  have a: "Append S p c = (case map_of (rc_sigs rc) idx of
             Some _ \<Rightarrow> ?d
           | None \<Rightarrow> ?d\<lparr>pc_rounds := AList.update i (rc\<lparr>rc_sigs := AList.update idx (pb_PartialSig p) (rc_sigs rc)\<rparr>) (pc_rounds ?d),
                        pc_rcvd := AList.update idx (rcvd ?d idx @ [i]) (pc_rcvd ?d)\<rparr>)"
    using g r(1) assms(2,3)
    by (simp add: Append_def Let_def roundCache_append_def split: option.split)
  show "map_of (pc_rounds (Append S p c)) =
           (map_of (pc_rounds c))(i \<mapsto> (if map_of (rc_sigs rc) idx = None
             then rc\<lparr>rc_sigs := AList.update idx (pb_PartialSig p) (rc_sigs rc)\<rparr> else rc))"
    using assms(4) by (cases "map_of (rc_sigs rc) idx"; cases "map_of (pc_rounds c) i")
      (auto simp: a update_conv' fun_eq_iff)
  show "rcvd (Append S p c) =
           (if map_of (rc_sigs rc) idx = None then (rcvd c)(idx := rcvd c idx @ [i]) else rcvd c)"
    by (cases "map_of (rc_sigs rc) idx") (auto simp: a fun_eq_iff r(2))
qed

lemma Append_rcvd_ok:
  assumes ok: "rcvd_ok c" and lim: "length (rcvd c (tbls_index_of S (pb_PartialSig p))) < MaxPartialsPerNode"
  shows "rcvd_ok (Append S p c)"
proof -
  let ?i = "roundID (pb_Round p) (pb_PreviousSig p)"
  let ?idx = "tbls_index_of S (pb_PartialSig p)"
  let ?rc = "case map_of (pc_rounds c) ?i of None \<Rightarrow> newRoundCache ?i p | Some rc \<Rightarrow> rc"
  note app = Append_below_limit [OF disjI1 [OF lim] refl refl refl]
  have base: "signers c ?i = fst ` set (rc_sigs ?rc)"
    by (simp add: signers_def newRoundCache_def split: option.split)
  have seen: "map_of (rc_sigs ?rc) ?idx = None \<longleftrightarrow> ?idx \<notin> signers c ?i"
    using base by (simp add: map_of_eq_None_iff)
  have s: "signers (Append S p c) j = (if j = ?i then insert ?idx (signers c ?i) else signers c j)" for j
    using base seen by (auto simp: signers_def app(1) dom_update)
  show ?thesis
  proof (cases "?idx \<in> signers c ?i")
    case True
    then have "rcvd (Append S p c) = rcvd c" "signers (Append S p c) = signers c"
      using seen s by (auto simp: app(2) fun_eq_iff insert_absorb)
    then show ?thesis using ok by (simp add: rcvd_ok_def)
  next
    case False
    then have "rcvd (Append S p c) = (rcvd c)(?idx := rcvd c ?idx @ [?i])"
      using seen by (simp add: app(2))
    moreover have "?i \<notin> set (rcvd c ?idx)" using ok False by (simp add: rcvd_ok_def)
    ultimately show ?thesis
      using ok unfolding rcvd_ok_def s by (auto split: if_splits)
  qed
qed

lemma FlushRounds_rcvd_ok:
  assumes ok: "rcvd_ok c" and d: "distinct (map fst (pc_rounds c))"
  shows "rcvd_ok (FlushRounds rnd c)"
proof -
  have e: "(i, rc) \<in> set (pc_rounds c) \<longleftrightarrow> map_of (pc_rounds c) i = Some rc" for i rc
    using d by simp
  have r: "rcvd (FlushRounds rnd c) j = filter (\<lambda>i. \<not> (\<exists>rc. map_of (pc_rounds c) i = Some rc \<and> rc_round rc \<le> rnd
             \<and> j \<in> fst ` set (rc_sigs rc))) (rcvd c j)" for j
    unfolding FlushRounds_def fold_flush_rcvd e ..
  have s: "signers (FlushRounds rnd c) i =
             (if \<exists>rc. map_of (pc_rounds c) i = Some rc \<and> rc_round rc \<le> rnd then {} else signers c i)" for i
    by (auto simp: signers_def FlushRounds_lookup [OF d] simp del: map_of_eq_Some_iff split: option.splits)
  show ?thesis
    unfolding rcvd_ok_def r s
    using ok by (auto simp: rcvd_ok_def signers_def simp del: map_of_eq_Some_iff split: option.splits if_splits)
qed

text \<open>What well-formedness says of a round cache that is looked up.\<close>

lemma GetRoundCache_wf:
  assumes "cache_wf S c" "GetRoundCache rnd prev c = Some rc"
  shows "rc_round rc = rnd \<and> rc_prev rc = prev \<and> roundCache_Msg rc = Message rnd prev
       \<and> distinct (map (tbls_index_of S) (roundCache_Partials rc))
       \<and> roundCache_Len rc = int (card (tbls_index_of S ` set (roundCache_Partials rc)))"
proof -
  have wf: "round_wf S (roundID rnd prev) rc"
    using assms(2) rounds_wf_lookup [OF assms(1) [unfolded cache_wf_def]] by (simp add: GetRoundCache_def)
  have "map (tbls_index_of S) (roundCache_Partials rc) = map fst (rc_sigs rc)"
    using wf by (auto simp: roundCache_Partials_def round_wf_def)
  moreover have d: "distinct (map fst (rc_sigs rc))" using wf by (simp add: round_wf_def)
  ultimately have "distinct (map (tbls_index_of S) (roundCache_Partials rc))"
    "card (tbls_index_of S ` set (roundCache_Partials rc)) = length (rc_sigs rc)"
    by (metis, metis d distinct_card length_map set_map)
  then show ?thesis
    using wf by (simp add: roundCache_Msg_def roundCache_Len_def round_wf_def)
qed

section \<open>Properties\<close>

text \<open>The operations of the aggregator on its cache, and a run of them.\<close>

datatype cache_op = OpAppend PartialBeaconPacket | OpFlush uint64

fun cache_step :: "('p, 's) suite \<Rightarrow> cache_op \<Rightarrow> partialCache \<Rightarrow> partialCache" where
  "cache_step S (OpAppend p) c = Append S p c"
| "cache_step S (OpFlush r) c = FlushRounds r c"

definition cache_run :: "('p, 's) suite \<Rightarrow> cache_op list \<Rightarrow> partialCache" where
  "cache_run S ops = fold (cache_step S) ops newPartialCache"

lemma cache_run_wf: "cache_wf S (cache_run S ops)"
proof -
  have "cache_wf S c \<Longrightarrow> cache_wf S (fold (cache_step S) ops c)" for c
  proof (induction ops arbitrary: c)
    case (Cons a ops)
    then show ?case by (cases a) (simp_all add: Append_wf FlushRounds_wf)
  qed simp
  then show ?thesis by (simp add: cache_run_def cache_wf_new)
qed

text \<open>
  C24. Whatever partials arrive and whatever rounds are flushed, every round cache is filed
  under the id of its own round and previous signature and holds at most one signature per
  index, each filed under the index that the signature itself carries; so a round with enough
  entries has signatures from that many different nodes.
\<close>

theorem cached_partials_are_from_distinct_nodes:
  "case GetRoundCache rnd prev (cache_run S ops) of
     None \<Rightarrow> True
   | Some rc \<Rightarrow> rc_round rc = rnd \<and> rc_prev rc = prev \<and> roundCache_Msg rc = Message rnd prev
       \<and> distinct (map (tbls_index_of S) (roundCache_Partials rc))
       \<and> roundCache_Len rc = int (card (tbls_index_of S ` set (roundCache_Partials rc)))"
proof (cases "GetRoundCache rnd prev (cache_run S ops)")
  case (Some rc)
  from GetRoundCache_wf [OF cache_run_wf Some] Some show ?thesis by simp
qed simp

text \<open>
  Flushing up to a round removes exactly the caches of that round and of earlier ones and
  leaves every later one as it was.
\<close>

lemma FlushRounds_removes_old_rounds:
  "GetRoundCache r prev (FlushRounds rnd (cache_run S ops)) =
     (if r \<le> rnd then None else GetRoundCache r prev (cache_run S ops))"
proof -
  note wf = cache_run_wf [of S ops, unfolded cache_wf_def]
  have "rc_round rc = r" if "map_of (pc_rounds (cache_run S ops)) (roundID r prev) = Some rc" for rc
    using rounds_wf_lookup [OF wf that] by (simp add: round_wf_def)
  then show ?thesis
    using wf by (auto simp: GetRoundCache_def rounds_wf_def FlushRounds_lookup simp del: map_of_eq_Some_iff
        split: option.split)
qed

text \<open>
  As long as no node reaches the limit of \<open>MaxPartialsPerNode\<close>, the cache's count of each
  node is exact: the list of ids of a node names, each once, the rounds in which the cache
  holds a signature of that node, whatever is appended and flushed.
\<close>

lemma received_ids_are_exact_below_limit:
  assumes "\<forall>k < length ops. \<forall>idx. length (rcvd (cache_run S (take k ops)) idx) < MaxPartialsPerNode"
  shows "rcvd_ok (cache_run S ops)"
  using assms
proof (induction ops rule: rev_induct)
  case Nil
  then show ?case by (simp add: cache_run_def rcvd_ok_new)
next
  case (snoc a ops)
  have lim: "length (rcvd (cache_run S (take k ops)) idx) < MaxPartialsPerNode" if "k \<le> length ops" for k idx
    using snoc.prems [rule_format, of k idx] that by simp
  then have ok: "rcvd_ok (cache_run S ops)" by (intro snoc.IH) simp
  have wf: "distinct (map fst (pc_rounds (cache_run S ops)))"
    using cache_run_wf [of S ops] by (simp add: cache_wf_def rounds_wf_def)
  show ?case
  proof (cases a)
    case (OpAppend p)
    then show ?thesis using Append_rcvd_ok [OF ok, of S p] lim [of "length ops"] by (simp add: cache_run_def)
  next
    case (OpFlush r)
    then show ?thesis using FlushRounds_rcvd_ok [OF ok wf] by (simp add: cache_run_def)
  qed
qed

lemma received_ids_are_exact_below_limit_example:
  "rcvd_ok (cache_run plain_suite [OpAppend \<lparr>pb_Round = 3, pb_PreviousSig = [1], pb_PartialSig = [0, 2, 9]\<rparr>])"
  by (rule received_ids_are_exact_below_limit)
    (simp add: cache_run_def newPartialCache_def rcvd_def MaxPartialsPerNode_def)

section \<open>The limit\<close>

lemma Append_fresh_run:
  assumes "\<forall>p \<in> set ps. tbls_index_of S (pb_PartialSig p) = idx"
    and "distinct (map (\<lambda>p. (pb_Round p, pb_PreviousSig p)) ps)" "length ps \<le> MaxPartialsPerNode"
  shows "rcvd (fold (Append S) ps newPartialCache) idx = map (\<lambda>p. roundID (pb_Round p) (pb_PreviousSig p)) ps
       \<and> (\<forall>i. map_of (pc_rounds (fold (Append S) ps newPartialCache)) i \<noteq> None
             \<longleftrightarrow> i \<in> (\<lambda>p. roundID (pb_Round p) (pb_PreviousSig p)) ` set ps)"
  using assms
proof (induction ps rule: rev_induct)
  case Nil
  then show ?case by (simp add: newPartialCache_def rcvd_def)
next
  case (snoc p ps)
  let ?c = "fold (Append S) ps newPartialCache"
  let ?i = "roundID (pb_Round p) (pb_PreviousSig p)"
  have IH: "rcvd ?c idx = map (\<lambda>p. roundID (pb_Round p) (pb_PreviousSig p)) ps"
    "\<forall>i. map_of (pc_rounds ?c) i \<noteq> None \<longleftrightarrow> i \<in> (\<lambda>p. roundID (pb_Round p) (pb_PreviousSig p)) ` set ps"
    using snoc by auto
  have "(pb_Round p, pb_PreviousSig p) \<notin> (\<lambda>p. (pb_Round p, pb_PreviousSig p)) ` set ps"
    using snoc.prems(2) by simp
  then have "?i \<notin> (\<lambda>p. roundID (pb_Round p) (pb_PreviousSig p)) ` set ps" by auto
  then have new: "map_of (pc_rounds ?c) ?i = None" using IH(2) by blast
  have idx: "tbls_index_of S (pb_PartialSig p) = idx" using snoc.prems(1) by simp
  have "length (rcvd ?c idx) < MaxPartialsPerNode" using IH(1) snoc.prems(3) by simp
  from Append_below_limit [of ?c idx ?i p S, OF disjI1 [OF this] refl idx [symmetric] refl] new IH
  show ?case by (auto simp: newRoundCache_def)
qed

text \<open>
  The limit of \<open>MaxPartialsPerNode\<close> ids per node does not hold: when a node sends one
  partial more than the limit, each for a different round or previous signature, the eviction
  in \<open>getCache\<close> records the new id and \<open>Append\<close> records it again, so that the node's list
  is longer than the limit and names the new round twice.
\<close>

lemma eviction_records_the_id_twice:
  assumes "\<forall>p \<in> set (ps @ [q]). tbls_index_of S (pb_PartialSig p) = idx"
    and "distinct (map (\<lambda>p. (pb_Round p, pb_PreviousSig p)) (ps @ [q]))" "length ps = MaxPartialsPerNode"
  shows "length (rcvd (fold (Append S) (ps @ [q]) newPartialCache) idx) = MaxPartialsPerNode + 1
       \<and> count_list (rcvd (fold (Append S) (ps @ [q]) newPartialCache) idx) (roundID (pb_Round q) (pb_PreviousSig q)) = 2"
proof -
  let ?ids = "map (\<lambda>p. roundID (pb_Round p) (pb_PreviousSig p)) ps"
  let ?c = "fold (Append S) ps newPartialCache"
  let ?i = "roundID (pb_Round q) (pb_PreviousSig q)"
  have run: "rcvd ?c idx = ?ids"
    "\<forall>i. map_of (pc_rounds ?c) i \<noteq> None \<longleftrightarrow> i \<in> (\<lambda>p. roundID (pb_Round p) (pb_PreviousSig p)) ` set ps"
    using Append_fresh_run [of ps S idx] assms by auto
  have "(pb_Round q, pb_PreviousSig q) \<notin> (\<lambda>p. (pb_Round p, pb_PreviousSig p)) ` set ps"
    using assms(2) by simp
  then have notin: "?i \<notin> set ?ids" by auto
  then have new: "map_of (pc_rounds ?c) ?i = None" using run(2) by auto
  have ne: "?ids \<noteq> []" using assms(3) by (auto simp: MaxPartialsPerNode_def)
  have "hd ?ids \<in> set ?ids" using ne by (rule hd_in_set)
  then obtain r where r: "map_of (pc_rounds ?c) (hd ?ids) = Some r" using run(2) by auto
  have idx: "tbls_index_of S (pb_PartialSig q) = idx" using assms(1) by simp
  have "\<exists>d. getCache S ?i q ?c = (True, d) \<and> rcvd d idx = tl ?ids @ [?i]
           \<and> map_of (pc_rounds d) ?i = Some (newRoundCache ?i q)"
    using new r assms(3) by (simp add: getCache_def Let_def idx run(1) update_conv')
  then obtain d where d: "getCache S ?i q ?c = (True, d)" "rcvd d idx = tl ?ids @ [?i]"
    "map_of (pc_rounds d) ?i = Some (newRoundCache ?i q)" by blast
  have "rcvd (Append S q ?c) idx = (tl ?ids @ [?i]) @ [?i]"
    using d by (simp add: Append_def Let_def roundCache_append_def newRoundCache_def idx)
  moreover have "?i \<notin> set (tl ?ids)" using notin ne by (meson list.set_sel(2))
  ultimately show ?thesis
    using assms(3) by (simp add: MaxPartialsPerNode_def)
qed

lemma eviction_records_the_id_twice_example:
  "length (rcvd (fold (Append plain_suite)
     (map (\<lambda>k. \<lparr>pb_Round = 1, pb_PreviousSig = [of_nat k], pb_PartialSig = [0, 2]\<rparr>) [0..<100]
      @ [\<lparr>pb_Round = 2, pb_PreviousSig = [], pb_PartialSig = [0, 2]\<rparr>]) newPartialCache) 2) = MaxPartialsPerNode + 1"
proof -
  have "inj_on (\<lambda>k. of_nat k :: byte) {0..<100}"
    by (rule inj_onI) (simp add: word_of_nat_eq_iff take_bit_nat_eq_self)
  then have "distinct (map (\<lambda>k. of_nat k :: byte) [0..<100])" by (simp add: distinct_map)
  then have "distinct (map (\<lambda>k. (1 :: uint64, [of_nat k :: byte])) [0..<100])"
    by (simp add: distinct_map inj_on_def)
  then show ?thesis
    by (intro conjunct1 [OF eviction_records_the_id_twice])
      (auto simp: plain_suite_def MaxPartialsPerNode_def be_val_def comp_def)
qed

end
