(* ===== verification/Chain_Store.thy ===== *)
theory Chain_Store
  imports Beacon_Stores Partial_Cache
begin

text \<open>
  \<open>src/chain/beacon/crypto.go\<close> and \<open>chain.go\<close>: the keys a node signs and verifies with,
  and the chain store, whose aggregation loop collects partial signatures, recovers the
  signature of a round and appends the beacon. An iteration of the loop is a function on the
  state of the chain store, one per branch of its \<open>select\<close>.
\<close>

section \<open>The crypto store\<close>

record ('p, 's) cryptoStore =
  cr_share :: "('p, 's) Share"
  cr_pub :: "'p list"
  cr_chain :: "'p Info"
  cr_group :: "'p Group"

definition newCryptoStore :: "('p, 's) suite \<Rightarrow> 'p Group \<Rightarrow> ('p, 's) Share \<Rightarrow> ('p, 's) cryptoStore result" where
  "newCryptoStore S currentGroup ks =
     (case NewChainInfo S currentGroup of
        Inl e \<Rightarrow> Inl e
      | Inr (chain, g) \<Rightarrow>
          (case g_PublicKey g of
             None \<Rightarrow> Inl (Panic ''nil pointer dereference'')
           | Some d \<Rightarrow> Inr \<lparr>cr_share = ks, cr_pub = DistPublic_PubPoly d, cr_chain = chain, cr_group = g\<rparr>))"

definition cryptoStore_GetGroup :: "('p, 's) cryptoStore \<Rightarrow> 'p Group" where
  "cryptoStore_GetGroup c = cr_group c"

definition cryptoStore_GetPub :: "('p, 's) cryptoStore \<Rightarrow> 'p list" where
  "cryptoStore_GetPub c = cr_pub c"

definition cryptoStore_SignPartial :: "('p, 's) suite \<Rightarrow> bytes \<Rightarrow> ('p, 's) cryptoStore \<Rightarrow> bytes result" where
  "cryptoStore_SignPartial S msg c = tbls_sign S (Share_PrivateShare (cr_share c)) msg"

definition cryptoStore_Index :: "('p, 's) cryptoStore \<Rightarrow> int" where
  "cryptoStore_Index c = sh_I (share_Share (cr_share c))"

text \<open>\<open>SetInfo\<close> dereferences the key of the new group; the chain information stays.\<close>

definition cryptoStore_SetInfo ::
  "'p Group \<Rightarrow> ('p, 's) Share \<Rightarrow> ('p, 's) cryptoStore \<Rightarrow> ('p, 's) cryptoStore result" where
  "cryptoStore_SetInfo newGroup ks c =
     (case g_PublicKey newGroup of
        None \<Rightarrow> Inl (Panic ''nil pointer dereference'')
      | Some d \<Rightarrow> Inr (c\<lparr>cr_share := ks, cr_group := newGroup, cr_pub := DistPublic_PubPoly d\<rparr>))"

section \<open>The chain store\<close>

text \<open>
  Who registers callbacks with the store: the aggregator, streams to clients and peers, a
  handler that waits for its transition to a new group, and the options of the daemon.
\<close>

datatype callback = AggregatorCb | StreamCb string | TransitionCb | OptsCb

text \<open>
  \<open>cs_last\<close> and \<open>cs_cache\<close> are the variables of the aggregation loop; \<open>cs_catchup\<close> is the
  channel \<open>catchupBeacons\<close>, of capacity one; \<open>cs_follow\<close> lists the calls of \<open>Follow\<close> the loop
  has started; \<open>cs_newPartials\<close> is the channel of partials that wait for the loop, with the
  senders that wait for room in it.
\<close>

record ('db, 'p, 's) chainStore =
  cs_stack :: "('db, 'p, callback) chain_stack"
  cs_crypto :: "('p, 's) cryptoStore"
  cs_last :: Beacon
  cs_cache :: partialCache
  cs_catchup :: "Beacon list"
  cs_follow :: "(uint64 \<times> 'p Identity list) list"
  cs_newPartials :: "(string \<times> PartialBeaconPacket) list"

definition partialCacheStoreLimit :: uint64 where
  "partialCacheStoreLimit = 3"

definition toPeers :: "'p Node list \<Rightarrow> 'p Identity list" where
  "toPeers nodes = map node_Identity nodes"

text \<open>
  \<open>newChainStore\<close> up to the first iteration of the loop it starts; \<open>runAggregator\<close> stops the
  program when the store has no last beacon.
\<close>

definition newChainStore ::
  "('p, 's) cryptoStore \<Rightarrow> int \<Rightarrow> 'db boltStore \<Rightarrow> ('db, 'p, 's) chainStore result" where
  "newChainStore c now store =
     (let a = newAppendStore bolt_ops store;
          ds = newDiscrepancyStore a (cryptoStore_GetGroup c) now;
          cbs = callbackStore_AddCallback ''chainstore'' AggregatorCb (NewCallbackStore ds)
      in case boltStore_Last store of
           Inl e \<Rightarrow> Inl (Panic ''chain_aggregator'')
         | Inr lst \<Rightarrow>
             Inr \<lparr>cs_stack = cbs, cs_crypto = c, cs_last = lst, cs_cache = newPartialCache, cs_catchup = [],
                  cs_follow = [], cs_newPartials = []\<rparr>)"

definition NewValidPartial :: "string \<Rightarrow> PartialBeaconPacket \<Rightarrow> ('db, 'p, 's) chainStore \<Rightarrow> ('db, 'p, 's) chainStore" where
  "NewValidPartial addr p cs = cs\<lparr>cs_newPartials := cs_newPartials cs @ [(addr, p)]\<rparr>"

definition chainStore_Stop :: "('db, 'p, 's) chainStore \<Rightarrow> ('db, 'p, 's) chainStore" where
  "chainStore_Stop cs = cs\<lparr>cs_stack := callbackStore_Close stack_ops (cs_stack cs)\<rparr>"

definition tryAppend :: "Beacon \<Rightarrow> Beacon \<Rightarrow> ('db, 'p, 's) chainStore \<Rightarrow> bool \<times> ('db, 'p, 's) chainStore" where
  "tryAppend lst newB cs =
     (if b_Round lst + 1 \<noteq> b_Round newB then (False, cs)
      else
        case callbackStore_Put stack_ops newB (cs_stack cs) of
          (Some e, st) \<Rightarrow> (False, cs\<lparr>cs_stack := st\<rparr>)
        | (None, st) \<Rightarrow>
            (True, cs\<lparr>cs_stack := st,
                      cs_catchup := (if length (cs_catchup cs) < 1 then cs_catchup cs @ [newB] else cs_catchup cs)\<rparr>))"

definition shouldSync :: "Beacon \<Rightarrow> Beacon \<Rightarrow> bool" where
  "shouldSync lst newB \<longleftrightarrow> Beacon_GetRound lst + 1 < Beacon_GetRound newB"

text \<open>The branch for a beacon that was stored.\<close>

definition onStored :: "Beacon \<Rightarrow> ('db, 'p, 's) chainStore \<Rightarrow> ('db, 'p, 's) chainStore" where
  "onStored b cs = cs\<lparr>cs_last := b, cs_cache := FlushRounds (b_Round b) (cs_cache cs)\<rparr>"

text \<open>What the loop does with a beacon it has aggregated.\<close>

definition onAggregated :: "Beacon \<Rightarrow> ('db, 'p, 's) chainStore \<Rightarrow> ('db, 'p, 's) chainStore" where
  "onAggregated newBeacon cs =
     (case tryAppend (cs_last cs) newBeacon cs of
        (True, cs') \<Rightarrow> cs'\<lparr>cs_last := newBeacon\<rparr>
      | (False, cs') \<Rightarrow>
          if shouldSync (cs_last cs') newBeacon
          then cs'\<lparr>cs_follow := cs_follow cs' @
                     [(b_Round newBeacon, toPeers (g_Nodes (cryptoStore_GetGroup (cs_crypto cs'))))]\<rparr>
          else cs')"

text \<open>The branch for a partial signature.\<close>

definition onPartial ::
  "('p, 's) suite \<Rightarrow> PartialBeaconPacket \<Rightarrow> ('db, 'p, 's) chainStore \<Rightarrow> ('db, 'p, 's) chainStore" where
  "onPartial S p cs =
     (let pRound = pb_Round p;
          isNotInPast = (b_Round (cs_last cs) < pRound);
          isNotTooFar = (pRound \<le> b_Round (cs_last cs) + (partialCacheStoreLimit + 1));
          shouldStore = (isNotInPast \<and> isNotTooFar)
      in if \<not> shouldStore then cs
         else
           let thr = g_Threshold (cryptoStore_GetGroup (cs_crypto cs));
               n = Group_Len (cryptoStore_GetGroup (cs_crypto cs));
               cs = cs\<lparr>cs_cache := Append S p (cs_cache cs)\<rparr>
           in case GetRoundCache pRound (pb_PreviousSig p) (cs_cache cs) of
                None \<Rightarrow> cs
              | Some rc \<Rightarrow>
                  if roundCache_Len rc < thr then cs
                  else
                    let msg = roundCache_Msg rc in
                    (case tbls_recover S (cryptoStore_GetPub (cs_crypto cs)) msg (roundCache_Partials rc) thr n of
                       Inl _ \<Rightarrow> cs
                     | Inr finalSig \<Rightarrow>
                         (case tbls_verify_recovered S (poly_commit S (cryptoStore_GetPub (cs_crypto cs))) msg finalSig of
                            Some _ \<Rightarrow> cs
                          | None \<Rightarrow>
                              let cs = cs\<lparr>cs_cache := FlushRounds pRound (cs_cache cs)\<rparr>;
                                  newBeacon = \<lparr>b_PreviousSig = rc_prev rc, b_Round = rc_round rc, b_Signature = finalSig\<rparr>
                              in onAggregated newBeacon cs)))"

datatype agg_event = BeaconStored Beacon | NewPartial PartialBeaconPacket

fun aggregate :: "('p, 's) suite \<Rightarrow> agg_event \<Rightarrow> ('db, 'p, 's) chainStore \<Rightarrow> ('db, 'p, 's) chainStore" where
  "aggregate S (BeaconStored b) cs = onStored b cs"
| "aggregate S (NewPartial p) cs = onPartial S p cs"

section \<open>What the aggregation loop keeps\<close>

definition agg_inv :: "('p, 's) suite \<Rightarrow> Beacon \<Rightarrow> ('db, 'p, 's) chainStore \<Rightarrow> bool" where
  "agg_inv S l cs \<longleftrightarrow>
     stack_inv l (cs_stack cs) \<and> cache_wf S (cs_cache cs)
   \<and> stack_chain (cs_stack cs) (b_Round (cs_last cs)) = Some (cs_last cs)"

lemma stack_inv_round_le: "stack_inv l c \<Longrightarrow> stack_chain c r = Some b \<Longrightarrow> r \<le> b_Round l"
  by (auto simp: stack_inv_def chain_ok_def dom_def)

lemma agg_inv_cache [simp]:
  "cache_wf S m \<Longrightarrow> agg_inv S l cs \<Longrightarrow> agg_inv S l (cs\<lparr>cs_cache := m\<rparr>)"
  "agg_inv S l (cs\<lparr>cs_follow := f\<rparr>) = agg_inv S l cs"
  by (simp_all add: agg_inv_def)

lemma onAggregated_cases:
  assumes inv: "agg_inv S l cs" and m: "b_Round l \<noteq> - 1"
  obtains (kept) "agg_inv S l (onAggregated b cs)"
      "stack_chain (cs_stack (onAggregated b cs)) = stack_chain (cs_stack cs)"
      "cs_last (onAggregated b cs) = cs_last cs" "cs_crypto (onAggregated b cs) = cs_crypto cs"
  | (appended) "agg_inv S b (onAggregated b cs)" "b_Round b = b_Round l + 1" "b_PreviousSig b = b_Signature l"
      "stack_chain (cs_stack (onAggregated b cs)) = (stack_chain (cs_stack cs))(b_Round b \<mapsto> b)"
      "cs_last (onAggregated b cs) = b" "cs_crypto (onAggregated b cs) = cs_crypto cs"
      "cs_catchup (onAggregated b cs) \<noteq> []"
proof (cases "b_Round (cs_last cs) + 1 = b_Round b")
  case False
  then show ?thesis
    using kept inv by (auto simp: onAggregated_def tryAppend_def)
next
  case True
  have st: "stack_inv l (cs_stack cs)" using inv by (simp add: agg_inv_def)
  obtain e st' where p: "callbackStore_Put stack_ops b (cs_stack cs) = (e, st')" by fastforce
  show ?thesis
  proof (rule stack_Put_cases [OF st m refl, of b])
    fix e' assume "fst (callbackStore_Put stack_ops b (cs_stack cs)) = Some e'"
      "stack_inv l (snd (callbackStore_Put stack_ops b (cs_stack cs)))"
      "stack_chain (snd (callbackStore_Put stack_ops b (cs_stack cs))) = stack_chain (cs_stack cs)"
    then show ?thesis using kept inv p True by (simp add: onAggregated_def tryAppend_def agg_inv_def)
  next
    assume "fst (callbackStore_Put stack_ops b (cs_stack cs)) = None"
      "stack_inv b (snd (callbackStore_Put stack_ops b (cs_stack cs)))" "b_Round b = b_Round l + 1"
      "b_PreviousSig b = b_Signature l"
      "stack_chain (snd (callbackStore_Put stack_ops b (cs_stack cs))) = (stack_chain (cs_stack cs))(b_Round b \<mapsto> b)"
    then show ?thesis
      using appended inv p True by (simp add: onAggregated_def tryAppend_def agg_inv_def length_0_conv)
  qed
qed

text \<open>The partial reached the point where a signature was recovered and verified.\<close>

definition recovered :: "('p, 's) suite \<Rightarrow> ('p, 's) cryptoStore \<Rightarrow> PartialBeaconPacket \<Rightarrow> partialCache \<Rightarrow> Beacon \<Rightarrow> bool" where
  "recovered S cr p cache b \<longleftrightarrow>
     (\<exists>rc. GetRoundCache (pb_Round p) (pb_PreviousSig p) cache = Some rc \<and> g_Threshold (cr_group cr) \<le> roundCache_Len rc
        \<and> b_Round b = pb_Round p \<and> b_PreviousSig b = pb_PreviousSig p
        \<and> tbls_recover S (cr_pub cr) (Message (pb_Round p) (pb_PreviousSig p)) (roundCache_Partials rc)
            (g_Threshold (cr_group cr)) (Group_Len (cr_group cr)) = Inr (b_Signature b)
        \<and> VerifyBeacon S (poly_commit S (cr_pub cr)) b = None)"

lemmas crypto_defs = cryptoStore_GetGroup_def cryptoStore_GetPub_def

lemma onPartial_cases:
  assumes wf: "cache_wf S (cs_cache cs)"
  obtains (ignored) "onPartial S p cs = cs"
  | (cached) "onPartial S p cs = cs\<lparr>cs_cache := Append S p (cs_cache cs)\<rparr>"
  | (aggregated) b where "recovered S (cs_crypto cs) p (Append S p (cs_cache cs)) b"
      "onPartial S p cs = onAggregated b (cs\<lparr>cs_cache := FlushRounds (pb_Round p) (Append S p (cs_cache cs))\<rparr>)"
proof (cases "b_Round (cs_last cs) < pb_Round p \<and> pb_Round p \<le> b_Round (cs_last cs) + (partialCacheStoreLimit + 1)")
  case False
  then show ?thesis using ignored by (auto simp: onPartial_def Let_def)
next
  case win: True
  let ?c = "Append S p (cs_cache cs)" and ?cr = "cs_crypto cs"
  show ?thesis
  proof (cases "GetRoundCache (pb_Round p) (pb_PreviousSig p) ?c")
    case None
    then show ?thesis using cached win by (simp add: onPartial_def Let_def)
  next
    case (Some rc)
    note rc = GetRoundCache_wf [OF Append_wf [OF wf] Some]
    let ?msg = "Message (pb_Round p) (pb_PreviousSig p)"
    show ?thesis
    proof (cases "g_Threshold (cr_group ?cr) \<le> roundCache_Len rc")
      case False
      then show ?thesis using cached win Some by (simp add: onPartial_def Let_def crypto_defs)
    next
      case thr: True
      show ?thesis
      proof (cases "tbls_recover S (cr_pub ?cr) ?msg (roundCache_Partials rc) (g_Threshold (cr_group ?cr)) (Group_Len (cr_group ?cr))")
        case (Inl e)
        then show ?thesis using cached win Some thr rc by (simp add: onPartial_def Let_def crypto_defs)
      next
        case (Inr sig)
        let ?b = "\<lparr>b_PreviousSig = pb_PreviousSig p, b_Round = pb_Round p, b_Signature = sig\<rparr>"
        show ?thesis
        proof (cases "tbls_verify_recovered S (poly_commit S (cr_pub ?cr)) ?msg sig")
          case None
          then have "recovered S ?cr p ?c ?b"
            using Some thr Inr by (simp add: recovered_def VerifyBeacon_def Let_def)
          then show ?thesis
            using aggregated [of ?b] win Some thr rc Inr None by (simp add: onPartial_def Let_def crypto_defs)
        qed (use cached win Some thr rc Inr in \<open>simp add: onPartial_def Let_def crypto_defs\<close>)
      qed
    qed
  qed
qed

section \<open>Properties\<close>

text \<open>
  C2. The aggregation loop appends only verified beacons: whatever partial signature arrives,
  the chain is either unchanged or extended by the next round with a beacon that names the
  signature of its predecessor, whose signature was recovered from at least the threshold of
  partials of pairwise different nodes and verifies under the group's public key.
\<close>

theorem aggregator_appends_only_verified_beacons:
  assumes "agg_inv S l cs" "b_Round l \<noteq> - 1"
  shows "let cs' = onPartial S p cs; cr = cs_crypto cs
         in (\<exists>l'. agg_inv S l' cs')
          \<and> (stack_chain (cs_stack cs') = stack_chain (cs_stack cs)
             \<or> (\<exists>b ps. stack_chain (cs_stack cs') = (stack_chain (cs_stack cs))(b_Round l + 1 \<mapsto> b)
                  \<and> b_Round b = b_Round l + 1 \<and> b_PreviousSig b = b_Signature l
                  \<and> VerifyBeacon S (poly_commit S (cr_pub cr)) b = None
                  \<and> distinct (map (tbls_index_of S) ps) \<and> g_Threshold (cr_group cr) \<le> int (length ps)
                  \<and> tbls_recover S (cr_pub cr) (Message (b_Round b) (b_PreviousSig b)) ps
                      (g_Threshold (cr_group cr)) (Group_Len (cr_group cr)) = Inr (b_Signature b)))"
proof -
  have wf: "cache_wf S (cs_cache cs)" using assms(1) by (simp add: agg_inv_def)
  show ?thesis
  proof (rule onPartial_cases [OF wf, of p])
    assume "onPartial S p cs = cs"
    then show ?thesis using assms(1) by (auto simp: Let_def)
  next
    assume "onPartial S p cs = cs\<lparr>cs_cache := Append S p (cs_cache cs)\<rparr>"
    then show ?thesis using agg_inv_cache(1) [OF Append_wf [OF wf] assms(1)] by (auto simp: Let_def)
  next
    fix b
    let ?cs = "cs\<lparr>cs_cache := FlushRounds (pb_Round p) (Append S p (cs_cache cs))\<rparr>"
    assume r: "recovered S (cs_crypto cs) p (Append S p (cs_cache cs)) b" and eq: "onPartial S p cs = onAggregated b ?cs"
    have inv: "agg_inv S l ?cs" using assms(1) wf by (simp add: Append_wf FlushRounds_wf)
    obtain rc where rc: "GetRoundCache (pb_Round p) (pb_PreviousSig p) (Append S p (cs_cache cs)) = Some rc"
      "g_Threshold (cr_group (cs_crypto cs)) \<le> roundCache_Len rc"
      "tbls_recover S (cr_pub (cs_crypto cs)) (Message (b_Round b) (b_PreviousSig b)) (roundCache_Partials rc)
         (g_Threshold (cr_group (cs_crypto cs))) (Group_Len (cr_group (cs_crypto cs))) = Inr (b_Signature b)"
      "VerifyBeacon S (poly_commit S (cr_pub (cs_crypto cs))) b = None"
      using r by (auto simp: recovered_def)
    have d: "distinct (map (tbls_index_of S) (roundCache_Partials rc))"
      "roundCache_Len rc = int (length (roundCache_Partials rc))"
      using GetRoundCache_wf [OF Append_wf [OF wf] rc(1)] by (auto simp: roundCache_Len_def roundCache_Partials_def)
    show ?thesis
    proof (cases rule: onAggregated_cases [OF inv assms(2), of b, case_names kept appended])
      case kept
      then show ?thesis using eq by (auto simp: Let_def)
    next
      case appended
      then show ?thesis
        unfolding Let_def using eq rc d
        by (intro conjI disjI2 exI [of _ b] exI [of _ "roundCache_Partials rc"]) auto
    qed
  qed
qed

definition example_crypto :: "(bytes, bytes) cryptoStore" where
  "example_crypto =
     \<lparr>cr_share = \<lparr>Commits = [[3], [4]], share_Share = \<lparr>sh_I = 0, sh_V = [5]\<rparr>\<rparr>, cr_pub = [[3], [4]],
      cr_chain = \<lparr>inf_PublicKey = [3], inf_Period = 30 * Second, inf_GenesisTime = 1600000000, inf_GroupHash = [7]\<rparr>,
      cr_group = example_group\<rparr>"

definition genesis_beacon :: Beacon where
  "genesis_beacon = \<lparr>b_PreviousSig = [], b_Round = 0, b_Signature = [7]\<rparr>"

definition partial_of :: "byte \<Rightarrow> PartialBeaconPacket" where
  "partial_of i = \<lparr>pb_Round = 1, pb_PreviousSig = [7], pb_PartialSig = [0, i]\<rparr>"

text \<open>A chain store that holds the genesis beacon and the partial of one node.\<close>

definition example_chainStore :: "((bytes \<times> bytes) list, bytes, bytes) chainStore" where
  "example_chainStore =
     \<lparr>cs_stack = callbackStore_AddCallback ''chainstore'' AggregatorCb
        (NewCallbackStore (newDiscrepancyStore (newAppendStore bolt_ops genesis_store) example_group 0)),
      cs_crypto = example_crypto, cs_last = genesis_beacon,
      cs_cache = Append plain_suite (partial_of 1) newPartialCache, cs_catchup = [], cs_follow = [], cs_newPartials = []\<rparr>"

lemma example_chainStore_inv: "agg_inv plain_suite genesis_beacon example_chainStore"
  using genesis_store_facts genesis_chain_ok Append_wf [OF cache_wf_new, of plain_suite "partial_of 1"]
  by (simp add: agg_inv_def example_chainStore_def genesis_beacon_def stack_inv_def stack_append_def stack_chain_def
      NewCallbackStore_def newDiscrepancyStore_def newAppendStore_def callbackStore_AddCallback_def)

theorem aggregator_appends_only_verified_beacons_witness:
  "\<exists>l'. agg_inv plain_suite l' (onPartial plain_suite (partial_of 0) example_chainStore)"
  using aggregator_appends_only_verified_beacons [OF example_chainStore_inv, of "partial_of 0"]
  by (simp add: genesis_beacon_def Let_def)

text \<open>
  Progress of one iteration: when a partial signature completes the threshold for the round
  after the last beacon, and the scheme recovers a signature that verifies, the beacon is
  appended to the chain (unless the database fails), becomes the last beacon, and the handler
  is notified.
\<close>

lemma aggregator_appends_at_threshold:
  assumes "agg_inv S (cs_last cs) cs" "unat (b_Round (cs_last cs)) + 4 < 2 ^ 64"
    and "pb_Round p = b_Round (cs_last cs) + 1" "pb_PreviousSig p = b_Signature (cs_last cs)"
    and "recovered S (cs_crypto cs) p (Append S p (cs_cache cs)) b"
    and "fst (boltStore_Put b (as_Store (stack_append (cs_stack cs)))) = None"
  shows "agg_inv S b (onPartial S p cs)"
    and "stack_chain (cs_stack (onPartial S p cs)) = (stack_chain (cs_stack cs))(b_Round (cs_last cs) + 1 \<mapsto> b)"
    and "cs_last (onPartial S p cs) = b" "cs_catchup (onPartial S p cs) \<noteq> []"
proof -
  let ?l = "cs_last cs" and ?cr = "cs_crypto cs"
  let ?cs = "cs\<lparr>cs_cache := FlushRounds (pb_Round p) (Append S p (cs_cache cs))\<rparr>"
  have wf: "cache_wf S (cs_cache cs)" and st: "stack_inv ?l (cs_stack cs)" using assms(1) by (simp_all add: agg_inv_def)
  have m: "b_Round ?l \<noteq> - 1" using assms(2) by (auto simp: unat_max_uint64)
  have u: "unat (b_Round ?l + 1) = unat (b_Round ?l) + 1" "unat (b_Round ?l + 4) = unat (b_Round ?l) + 4"
    using assms(2) unat_add_lem [of "b_Round ?l" 1] unat_add_lem [of "b_Round ?l" 4] by auto
  have win: "b_Round ?l < pb_Round p" "pb_Round p \<le> b_Round ?l + (partialCacheStoreLimit + 1)"
    using u by (simp_all add: assms(3) word_less_nat_alt word_le_nat_alt partialCacheStoreLimit_def)
  obtain rc where rc: "GetRoundCache (pb_Round p) (pb_PreviousSig p) (Append S p (cs_cache cs)) = Some rc"
    "g_Threshold (cr_group ?cr) \<le> roundCache_Len rc" "b_Round b = pb_Round p" "b_PreviousSig b = pb_PreviousSig p"
    "tbls_recover S (cr_pub ?cr) (Message (pb_Round p) (pb_PreviousSig p)) (roundCache_Partials rc)
       (g_Threshold (cr_group ?cr)) (Group_Len (cr_group ?cr)) = Inr (b_Signature b)"
    "tbls_verify_recovered S (poly_commit S (cr_pub ?cr)) (Message (pb_Round p) (pb_PreviousSig p)) (b_Signature b) = None"
    using assms(5) by (auto simp: recovered_def VerifyBeacon_def Let_def)
  have eq: "onPartial S p cs = onAggregated b ?cs"
    using win rc GetRoundCache_wf [OF Append_wf [OF wf] rc(1)]
    by (cases b) (simp add: onPartial_def Let_def crypto_defs)
  have "fst (appendStore_Put bolt_ops b (stack_append (cs_stack cs))) = None"
    using assms(3,4,6) rc st
    by (cases "boltStore_Put b (as_Store (stack_append (cs_stack cs)))")
      (simp add: appendStore_Put_def stack_inv_def)
  then have put: "fst (callbackStore_Put stack_ops b (cs_stack cs)) = None" by (simp add: stack_Put_append)
  obtain st' where st': "callbackStore_Put stack_ops b (cs_stack cs) = (None, st')"
    using put by (cases "callbackStore_Put stack_ops b (cs_stack cs)") auto
  have ok: "stack_inv b st'" "stack_chain st' = (stack_chain (cs_stack cs))(b_Round b \<mapsto> b)"
    by (rule stack_Put_cases [OF st m refl, of b]; use st' in simp)+
  show "agg_inv S b (onPartial S p cs)"
    "stack_chain (cs_stack (onPartial S p cs)) = (stack_chain (cs_stack cs))(b_Round (cs_last cs) + 1 \<mapsto> b)"
    "cs_last (onPartial S p cs) = b" "cs_catchup (onPartial S p cs) \<noteq> []"
    unfolding eq using ok rc(3) assms(3) st' wf
    by (auto simp: onAggregated_def tryAppend_def agg_inv_def FlushRounds_wf Append_wf)
qed

end
