(* ===== verification/Syncer.thy ===== *)
theory Syncer
  imports Chain_Store
begin

text \<open>
  \<open>src/chain/beacon/sync.go\<close>: following the chain of other nodes and serving one's own.
  The network is a parameter: what a peer streams is a list of packets, and sending to a
  client may fail. The syncer shares the callback store of the chain store.
\<close>

type_synonym ('db, 'p) sync_store = "('db, 'p, callback) chain_stack"

abbreviation sync_ops :: "('db, 'p) sync_store Store" where
  "sync_ops \<equiv> callback_ops stack_ops"

section \<open>Following a chain\<close>

record ('db, 'p) syncer =
  sy_store :: "('db, 'p) sync_store"
  sy_info :: "'p Info"
  sy_following :: bool

definition NewSyncer :: "('db, 'p) sync_store \<Rightarrow> 'p Info \<Rightarrow> ('db, 'p) syncer" where
  "NewSyncer s info = \<lparr>sy_store = s, sy_info = info, sy_following = False\<rparr>"

definition Syncing :: "('db, 'p) syncer \<Rightarrow> bool" where
  "Syncing s = sy_following s"

text \<open>The loop over the packets of one peer; no value means that the channel was closed.\<close>

fun syncStream ::
  "('p, 's) suite \<Rightarrow> 'p \<Rightarrow> uint64 \<Rightarrow> BeaconPacket option list \<Rightarrow> ('db, 'p) sync_store \<Rightarrow> bool option \<times> ('db, 'p) sync_store" where
  "syncStream S pk upTo [] st = (None, st)"
| "syncStream S pk upTo (beaconPacket # ps) st =
     (let beacon = protoToBeacon beaconPacket in
      case VerifyBeacon S pk beacon of
        Some e \<Rightarrow> (Some False, st)
      | None \<Rightarrow>
          (case callbackStore_Put stack_ops beacon st of
             (Some e, st) \<Rightarrow> (Some False, st)
           | (None, st) \<Rightarrow> if b_Round beacon = upTo then (Some True, st) else syncStream S pk upTo ps st))"

text \<open>
  A context, as the code sees it when the stream has ended: whether it is done and its error.
  The context package sets the error before it closes the channel \<open>Done\<close>.
\<close>

record ctx =
  ctx_Done :: bool
  ctx_Err :: "error option"

definition ctx_ok :: "ctx \<Rightarrow> bool" where
  "ctx_ok c \<longleftrightarrow> (ctx_Done c \<longleftrightarrow> ctx_Err c \<noteq> None)"

text \<open>\<open>client n from\<close> is what the peer answers to a request for the rounds from \<open>from\<close> on.\<close>

definition tryNode ::
  "('p, 's) suite \<Rightarrow> ('n \<Rightarrow> uint64 \<Rightarrow> BeaconPacket option list result) \<Rightarrow> ctx \<Rightarrow> uint64 \<Rightarrow> 'n
    \<Rightarrow> ('db, 'p) syncer \<Rightarrow> bool \<times> ('db, 'p) syncer" where
  "tryNode S client global upTo n s =
     (case st_Last sync_ops (sy_store s) of
        Inl _ \<Rightarrow> (False, s)
      | Inr lst \<Rightarrow>
          (case client n (b_Round lst + 1) of
             Inl _ \<Rightarrow> (False, s)
           | Inr beaconCh \<Rightarrow>
               (case syncStream S (inf_PublicKey (sy_info s)) upTo beaconCh (sy_store s) of
                  (Some r, st) \<Rightarrow> (r, s\<lparr>sy_store := st\<rparr>)
                | (None, st) \<Rightarrow>
                    (if ctx_Done global then ctx_Err global = None else False, s\<lparr>sy_store := st\<rparr>))))"

fun tryNodes ::
  "('p, 's) suite \<Rightarrow> ('n \<Rightarrow> uint64 \<Rightarrow> BeaconPacket option list result) \<Rightarrow> ctx \<Rightarrow> uint64 \<Rightarrow> 'n list
    \<Rightarrow> ('db, 'p) syncer \<Rightarrow> error option \<times> ('db, 'p) syncer" where
  "tryNodes S client global upTo [] s = (Some (Err ''sync store tried to follow all nodes''), s)"
| "tryNodes S client global upTo (n # ns) s =
     (case tryNode S client global upTo n s of
        (True, s) \<Rightarrow> (None, s)
      | (False, s) \<Rightarrow> tryNodes S client global upTo ns s)"

text \<open>\<open>perm\<close> is the random permutation of the indices of the nodes.\<close>

definition Follow ::
  "('p, 's) suite \<Rightarrow> ('n \<Rightarrow> uint64 \<Rightarrow> BeaconPacket option list result) \<Rightarrow> ctx \<Rightarrow> nat list \<Rightarrow> uint64 \<Rightarrow> 'n list
    \<Rightarrow> ('db, 'p) syncer \<Rightarrow> error option \<times> ('db, 'p) syncer" where
  "Follow S client c perm upTo nodes s =
     (if sy_following s then (Some (Err ''already following chain''), s)
      else
        let (e, s) = tryNodes S client c upTo (map (\<lambda>n. nodes ! n) perm) (s\<lparr>sy_following := True\<rparr>)
        in (e, s\<lparr>sy_following := False\<rparr>))"

definition peersToString :: "'p Identity list \<Rightarrow> string" where
  "peersToString peers =
     ''[ '' @ concat (case map Identity_Address peers of [] \<Rightarrow> [] | a # as \<Rightarrow> a # map (\<lambda>x. '' - '' @ x) as) @ '' ]''"

text \<open>\<open>RunSync\<close> of the chain store: the peers of the current group unless others are given.\<close>

definition RunSync_peers :: "('p, 's) cryptoStore \<Rightarrow> 'p Identity list option \<Rightarrow> 'p Identity list" where
  "RunSync_peers cr peers =
     (case peers of None \<Rightarrow> toPeers (g_Nodes (cryptoStore_GetGroup cr)) | Some ps \<Rightarrow> ps)"

section \<open>Serving a chain\<close>

text \<open>
  The loop over the cursor: the packets sent before the first failure of \<open>Send\<close>, with the
  error. \<open>send k\<close> is the result of sending the \<open>k\<close>-th packet of the stream; \<open>fuel\<close> bounds the
  iterations.
\<close>

fun sendCursor ::
  "(nat \<Rightarrow> error option) \<Rightarrow> nat \<Rightarrow> nat \<Rightarrow> Beacon option \<times> cursor_pos \<Rightarrow> ('db, 'p) sync_store
    \<Rightarrow> BeaconPacket list \<times> error option" where
  "sendCursor send k (Suc fuel) (Some bb, p) st =
     (case send k of
        Some e \<Rightarrow> ([], Some e)
      | None \<Rightarrow>
          let (sent, e) = sendCursor send (Suc k) fuel (st_Next sync_ops p st) st
          in (beaconToProto bb # sent, e))"
| "sendCursor send k _ _ st = ([], None)"

text \<open>
  \<open>SyncChain\<close> up to the registration of the callback: the packets sent and the error. The
  registration, in which it ends, is a second step, because beacons may be stored in between.
\<close>

definition SyncChain_send ::
  "(nat \<Rightarrow> error option) \<Rightarrow> uint64 \<Rightarrow> ('db, 'p) sync_store \<Rightarrow> BeaconPacket list \<times> error option" where
  "SyncChain_send send fromRound st =
     (case st_Last sync_ops st of
        Inl e \<Rightarrow> ([], Some e)
      | Inr lst \<Rightarrow>
          if b_Round lst < fromRound
          then ([], Some (Errf ''no beacon stored above requested round %d < %d'' [uint (b_Round lst), uint fromRound]))
          else sendCursor send 0 (nat (st_Len sync_ops st) + 1) (st_Seek sync_ops fromRound st) st)"

definition SyncChain_register :: "string \<Rightarrow> ('db, 'p) sync_store \<Rightarrow> ('db, 'p) sync_store" where
  "SyncChain_register addr st = callbackStore_AddCallback addr (StreamCb addr) st"

definition SyncChain_finish :: "string \<Rightarrow> ('db, 'p) sync_store \<Rightarrow> ('db, 'p) sync_store" where
  "SyncChain_finish addr st = callbackStore_RemoveCallback addr st"

section \<open>Lemmas\<close>

lemma sync_ops_simps [simp]:
  "st_Last sync_ops st = boltStore_Last (as_Store (stack_append st))"
  "st_Len sync_ops st = boltStore_Len (as_Store (stack_append st))"
  "st_Seek sync_ops r st = boltCursor_Seek r (as_Store (stack_append st))"
  "st_Next sync_ops p st = boltCursor_Next p (as_Store (stack_append st))"
  by (simp_all add: callback_ops_def discrepancy_ops_def append_ops_def stack_append_def)

lemma stack_inv_Last: "stack_inv l st \<Longrightarrow> boltStore_Last (as_Store (stack_append st)) = Inr l"
  unfolding stack_inv_def stack_chain_def by (intro chain_ok_Last) auto

text \<open>
  The chain of \<open>st'\<close>, with last beacon \<open>l'\<close>, extends that of \<open>st\<close> by verified beacons only.
\<close>

definition extends :: "('p, 's) suite \<Rightarrow> 'p \<Rightarrow> Beacon \<Rightarrow> ('db, 'p) sync_store \<Rightarrow> Beacon \<Rightarrow> ('db, 'p) sync_store \<Rightarrow> bool" where
  "extends S pk l st l' st' \<longleftrightarrow>
     stack_inv l' st' \<and> b_Round l \<le> b_Round l'
   \<and> (\<forall>r \<le> b_Round l. stack_chain st' r = stack_chain st r)
   \<and> (\<forall>r b. b_Round l < r \<longrightarrow> stack_chain st' r = Some b \<longrightarrow> VerifyBeacon S pk b = None)"

lemma extends_refl: "stack_inv l st \<Longrightarrow> extends S pk l st l st"
  unfolding extends_def using stack_inv_round_le [of l st] by fastforce

lemma extends_trans:
  assumes "extends S pk l st l' st'" "extends S pk l' st' l'' st''"
  shows "extends S pk l st l'' st''"
  unfolding extends_def
proof (intro conjI allI impI)
  show "stack_inv l'' st''" using assms(2) by (simp add: extends_def)
  show "b_Round l \<le> b_Round l''" using assms by (auto simp: extends_def)
  show "stack_chain st'' r = stack_chain st r" if "r \<le> b_Round l" for r
    using assms that by (auto simp: extends_def)
  show "VerifyBeacon S pk b = None" if "b_Round l < r" "stack_chain st'' r = Some b" for r b
    using assms that by (cases "r \<le> b_Round l'") (auto simp: extends_def not_le)
qed

lemma extends_Put:
  assumes "stack_inv l st" "b_Round l \<noteq> - 1" "VerifyBeacon S pk b = None"
    and "st' = snd (callbackStore_Put stack_ops b st)"
  shows "fst (callbackStore_Put stack_ops b st) = None \<Longrightarrow> extends S pk l st b st' \<and> b_Round b = b_Round l + 1"
    and "fst (callbackStore_Put stack_ops b st) \<noteq> None \<Longrightarrow> extends S pk l st l st'"
proof (rule_tac [!] stack_Put_cases [OF assms(1,2,4)])
  assume ok: "stack_inv b st'" "b_Round b = b_Round l + 1" "stack_chain st' = (stack_chain st)(b_Round b \<mapsto> b)"
  have lt: "b_Round l < b_Round b" using assms(2) ok(2) by (simp add: word_succ_less)
  show "extends S pk l st b st' \<and> b_Round b = b_Round l + 1"
    using ok lt assms(1,3) stack_inv_round_le [OF assms(1)] unfolding extends_def by (fastforce split: if_splits)
next
  fix e assume "stack_inv l st'" "stack_chain st' = stack_chain st"
  then show "extends S pk l st l st'"
    using stack_inv_round_le [of l st'] unfolding extends_def by fastforce
qed simp_all

lemma syncStream_extends:
  assumes "stack_inv l st" "unat (b_Round l) + length ps < 2 ^ 64" "syncStream S pk upTo ps st = (r, st')"
  shows "\<exists>l'. extends S pk l st l' st' \<and> unat (b_Round l') \<le> unat (b_Round l) + length ps
            \<and> (r = Some True \<longrightarrow> b_Round l' = upTo)"
  using assms
proof (induction ps arbitrary: l st)
  case Nil
  then show ?case using extends_refl [of l st S pk] by (intro exI [of _ l]) auto
next
  case (Cons p ps)
  let ?b = "protoToBeacon p"
  have m: "b_Round l \<noteq> - 1" using Cons.prems(2) by (auto simp: unat_max_uint64)
  obtain e st1 where put: "callbackStore_Put stack_ops ?b st = (e, st1)" by fastforce
  show ?case
  proof (cases "VerifyBeacon S pk ?b")
    case (Some x)
    then show ?thesis
      using Cons.prems extends_refl [of l st S pk] by (intro exI [of _ l]) (auto simp: Let_def)
  next
    case ver: None
    show ?thesis
    proof (cases e)
      case (Some x)
      then have "extends S pk l st l st1" using extends_Put(2) [OF Cons.prems(1) m ver refl] put by simp
      then show ?thesis using Cons.prems(3) ver put Some by (intro exI [of _ l]) (auto simp: Let_def)
    next
      case None
      then have ext: "extends S pk l st ?b st1" and rnd: "b_Round ?b = b_Round l + 1"
        using extends_Put(1) [OF Cons.prems(1) m ver refl] put by simp_all
      have u: "unat (b_Round ?b) = unat (b_Round l) + 1" using rnd m by (simp add: unat_succ)
      show ?thesis
      proof (cases "b_Round ?b = upTo")
        case True
        then show ?thesis
          using Cons.prems(3) ver put None ext u by (intro exI [of _ ?b]) (auto simp: Let_def)
      next
        case False
        then have "syncStream S pk upTo ps st1 = (r, st')"
          using Cons.prems(3) ver put None by (simp add: Let_def)
        moreover have "stack_inv ?b st1" "unat (b_Round ?b) + length ps < 2 ^ 64"
          using ext u Cons.prems(2) by (simp_all add: extends_def)
        ultimately obtain l' where "extends S pk ?b st1 l' st'" "unat (b_Round l') \<le> unat (b_Round ?b) + length ps"
            "r = Some True \<longrightarrow> b_Round l' = upTo"
          using Cons.IH by blast
        then show ?thesis using extends_trans [OF ext] u by (intro exI [of _ l']) auto
      qed
    qed
  qed
qed

lemma tryNode_extends:
  assumes "stack_inv l (sy_store s)" "\<forall>n r ps. client n r = Inr ps \<longrightarrow> length ps \<le> N" "unat (b_Round l) + N < 2 ^ 64"
    and "tryNode S client global upTo n s = (ok, s')" "ctx_ok global"
  shows "\<exists>l'. extends S (inf_PublicKey (sy_info s)) l (sy_store s) l' (sy_store s')
            \<and> unat (b_Round l') \<le> unat (b_Round l) + N \<and> (ok \<longrightarrow> b_Round l' = upTo)
            \<and> sy_info s' = sy_info s \<and> sy_following s' = sy_following s"
proof (cases "client n (b_Round l + 1)")
  case (Inl e)
  then show ?thesis
    using assms(1,4) extends_refl [OF assms(1)] by (intro exI [of _ l]) (auto simp: tryNode_def stack_inv_Last)
next
  case (Inr ps)
  obtain r st where r: "syncStream S (inf_PublicKey (sy_info s)) upTo ps (sy_store s) = (r, st)" by fastforce
  have len: "length ps \<le> N" using assms(2) Inr by blast
  then obtain l' where "extends S (inf_PublicKey (sy_info s)) l (sy_store s) l' st"
      "unat (b_Round l') \<le> unat (b_Round l) + length ps" "r = Some True \<longrightarrow> b_Round l' = upTo"
    using syncStream_extends [OF assms(1) _ r] assms(3) by auto
  moreover have "s' = s\<lparr>sy_store := st\<rparr>" "ok \<longrightarrow> r = Some True"
    using assms(1,4,5) Inr r by (auto simp: tryNode_def stack_inv_Last ctx_ok_def split: option.splits if_splits)
  ultimately show ?thesis using len by (intro exI [of _ l']) auto
qed

lemma tryNodes_extends:
  assumes "stack_inv l (sy_store s)" "\<forall>n r ps. client n r = Inr ps \<longrightarrow> length ps \<le> N"
    and "unat (b_Round l) + length ns * N < 2 ^ 64"
    and "tryNodes S client global upTo ns s = (e, s')" "ctx_ok global"
  shows "\<exists>l'. extends S (inf_PublicKey (sy_info s)) l (sy_store s) l' (sy_store s') \<and> (e = None \<longrightarrow> b_Round l' = upTo)
            \<and> sy_info s' = sy_info s"
  using assms
proof (induction ns arbitrary: l s)
  case Nil
  then show ?case using extends_refl [OF Nil.prems(1)] by (intro exI [of _ l]) auto
next
  case (Cons n ns)
  obtain ok s1 where t: "tryNode S client global upTo n s = (ok, s1)" by fastforce
  have "unat (b_Round l) + N < 2 ^ 64" using Cons.prems(3) by simp
  from tryNode_extends [OF Cons.prems(1,2) this t Cons.prems(5)]
  obtain l1 where l1: "extends S (inf_PublicKey (sy_info s)) l (sy_store s) l1 (sy_store s1)"
      "unat (b_Round l1) \<le> unat (b_Round l) + N" "ok \<longrightarrow> b_Round l1 = upTo" "sy_info s1 = sy_info s"
    by blast
  show ?case
  proof (cases ok)
    case True
    then show ?thesis using Cons.prems(4) t l1 by (intro exI [of _ l1]) auto
  next
    case False
    then have t': "tryNodes S client global upTo ns s1 = (e, s')" using Cons.prems(4) t by simp
    have "stack_inv l1 (sy_store s1)" "unat (b_Round l1) + length ns * N < 2 ^ 64"
      using l1(1,2) Cons.prems(3) by (simp_all add: extends_def)
    from Cons.IH [OF this(1) Cons.prems(2) this(2) t' Cons.prems(5)] obtain l'
      where "extends S (inf_PublicKey (sy_info s1)) l1 (sy_store s1) l' (sy_store s')" "e = None \<longrightarrow> b_Round l' = upTo"
        "sy_info s' = sy_info s1" by blast
    then show ?thesis using extends_trans [OF l1(1)] l1(4) by auto
  qed
qed

lemma sendCursor_walk:
  "\<exists>m. fst (sendCursor send k fuel cur st) = take m (map beaconToProto (walk sync_ops fuel cur st))
     \<and> (snd (sendCursor send k fuel cur st) = None \<longrightarrow> m = length (walk sync_ops fuel cur st))
     \<and> ((\<forall>j. send j = None) \<longrightarrow> snd (sendCursor send k fuel cur st) = None)"
proof (induction send k fuel cur st rule: sendCursor.induct)
  case (1 send k fuel bb p st)
  show ?case
  proof (cases "send k")
    case None
    obtain sent e where r: "sendCursor send (Suc k) fuel (st_Next sync_ops p st) st = (sent, e)" by fastforce
    from "1.IH" [OF None] obtain m where
      "sent = take m (map beaconToProto (walk sync_ops fuel (st_Next sync_ops p st) st))"
      "e = None \<longrightarrow> m = length (walk sync_ops fuel (st_Next sync_ops p st) st)" "(\<forall>j. send j = None) \<longrightarrow> e = None"
      unfolding r by auto
    note m = this
    have eq: "sendCursor send k (Suc fuel) (Some bb, p) st = (beaconToProto bb # sent, e)"
      using None by (simp add: r [simplified])
    show ?thesis
      unfolding eq fst_conv snd_conv using m by (intro exI [of _ "Suc m"]) simp
  qed (auto intro!: exI [of _ 0])
qed auto

section \<open>Properties\<close>

text \<open>
  C4. Following peers never damages the chain: whatever the peers send, the chain is extended,
  never rewritten; it stays unbroken; every beacon it gained verifies under the public key of
  the chain; when the call reports success the last beacon is of the requested round; and a
  second call while one is running is refused and changes nothing.
\<close>

theorem Follow_extends_by_verified_beacons:
  assumes "stack_inv l (sy_store s)" "\<forall>n r ps. client n r = Inr ps \<longrightarrow> length ps \<le> N"
    and "unat (b_Round l) + length perm * N < 2 ^ 64" "ctx_ok c"
    and "Follow S client c perm upTo nodes s = (e, s')"
  shows "if sy_following s then s' = s \<and> e = Some (Err ''already following chain'')
         else \<not> sy_following s'
            \<and> (\<exists>l'. stack_inv l' (sy_store s') \<and> b_Round l \<le> b_Round l' \<and> (e = None \<longrightarrow> b_Round l' = upTo)
                  \<and> (\<forall>r \<le> b_Round l. stack_chain (sy_store s') r = stack_chain (sy_store s) r)
                  \<and> (\<forall>r b. b_Round l < r \<and> stack_chain (sy_store s') r = Some b \<longrightarrow>
                        VerifyBeacon S (inf_PublicKey (sy_info s)) b = None))"
proof (cases "sy_following s")
  case True
  then show ?thesis using assms(5) by (simp add: Follow_def)
next
  case False
  obtain e1 s1 where t: "tryNodes S client c upTo (map (\<lambda>n. nodes ! n) perm) (s\<lparr>sy_following := True\<rparr>) = (e1, s1)"
    by fastforce
  from tryNodes_extends [OF _ assms(2) _ t assms(4), of l] assms(1,3)
  obtain l' where "extends S (inf_PublicKey (sy_info s)) l (sy_store s) l' (sy_store s1)" "e1 = None \<longrightarrow> b_Round l' = upTo"
    by auto
  moreover have "e = e1" "s' = s1\<lparr>sy_following := False\<rparr>" using assms(5) False t by (auto simp: Follow_def)
  ultimately show ?thesis using False by (auto simp: extends_def intro!: exI [of _ l'])
qed

definition example_syncer :: "((bytes \<times> bytes) list, bytes) syncer" where
  "example_syncer = NewSyncer (cs_stack example_chainStore) (cr_chain example_crypto)"

lemma example_syncer_inv: "stack_inv genesis_beacon (sy_store example_syncer)"
  using example_chainStore_inv by (simp add: agg_inv_def example_syncer_def NewSyncer_def)

theorem Follow_extends_by_verified_beacons_witness:
  "\<exists>l'. stack_inv l' (sy_store (snd (Follow plain_suite (\<lambda>n r. Inr [Some (beaconToProto first_beacon)])
          \<lparr>ctx_Done = False, ctx_Err = None\<rparr> [0] 5 [()] example_syncer)))"
proof -
  let ?client = "\<lambda>(n::unit) (r::uint64). Inr [Some (beaconToProto first_beacon)] :: BeaconPacket option list result"
  obtain e s' where f: "Follow plain_suite ?client \<lparr>ctx_Done = False, ctx_Err = None\<rparr> [0] 5 [()] example_syncer = (e, s')"
    by fastforce
  have "\<not> sy_following example_syncer" by (simp add: example_syncer_def NewSyncer_def)
  then show ?thesis
    using Follow_extends_by_verified_beacons [OF example_syncer_inv _ _ _ f, of 1]
    by (auto simp: ctx_ok_def genesis_beacon_def f)
qed

text \<open>The walk of \<open>SyncChain\<close> over an unbroken chain.\<close>

lemma SyncChain_send_spec:
  assumes "stack_inv l st" "fromRound \<le> b_Round l" "\<And>k. send k = None"
  shows "SyncChain_send send fromRound st
           = (map (\<lambda>k. beaconToProto (the (stack_chain st k))) (sorted_list_of_set {fromRound..b_Round l}), None)"
proof -
  let ?b = "as_Store (stack_append st)"
  have i: "bolt_invar ?b" and d: "dom (stack_chain st) = {0..b_Round l}"
    using assms(1) by (simp_all add: stack_inv_def chain_ok_def)
  have rf: "rounds_from (stack_chain st) fromRound = {fromRound..b_Round l}"
    using d by (auto simp: rounds_from_def)
  let ?fuel = "nat (boltStore_Len ?b) + 1"
  have "card (rounds_from (stack_chain st) fromRound) \<le> card (dom (stack_chain st))"
    by (rule card_mono) (auto simp: rounds_from_def)
  then have "card (rounds_from (stack_chain st) fromRound) < ?fuel"
    by (simp add: bolt_Len_spec [OF i] stack_chain_def)
  then have "walk sync_ops ?fuel (st_Seek sync_ops fromRound st) st
       = map (\<lambda>k. the (stack_chain st k)) (sorted_list_of_set (rounds_from (stack_chain st) fromRound))"
    using bolt_callback.callback.walk_spec [of st fromRound ?fuel] i
    by (simp add: stack_chain_def stack_append_def)
  then show ?thesis
    using sendCursor_walk [of send 0 ?fuel "st_Seek sync_ops fromRound st" st] assms
    by (auto simp: SyncChain_send_def stack_inv_Last [OF assms(1)] rf prod_eq_iff)
qed

lemma stack_chain_filed:
  assumes "stack_inv l st" "k \<le> b_Round l"
  shows "\<exists>b. stack_chain st k = Some b \<and> b_Round b = k"
proof -
  have d: "dom (stack_chain st) = {0..b_Round l}" and f: "filed (stack_chain st)"
    using assms(1) bolt_filed [of "as_Store (stack_append st)"] by (auto simp: stack_inv_def chain_ok_def stack_chain_def)
  have "k \<in> dom (stack_chain st)" using d assms(2) by simp
  then show ?thesis using f by (auto simp: filed_def)
qed

lemma SyncChain_send_rounds:
  assumes "stack_inv l st" "fromRound \<le> b_Round l" "\<And>k. send k = None"
  shows "map bp_Round (fst (SyncChain_send send fromRound st)) = sorted_list_of_set {fromRound..b_Round l}"
  unfolding SyncChain_send_spec [OF assms] fst_conv map_map
  by (rule map_idI) (use stack_chain_filed [OF assms(1)] in \<open>force simp: beaconToProto_def\<close>)

lemma update_fresh: "k \<notin> fst ` set xs \<Longrightarrow> AList.update k v xs = xs @ [(k, v)]"
  by (induction xs) auto

lemma uint64_succ_0: "(k :: uint64) \<noteq> - 1 \<Longrightarrow> k + 1 \<noteq> 0"
  using word_succ_less [of k] by auto

text \<open>
  C25. Serving a chain: when nothing fails, a client that asks for the rounds from \<open>fromRound\<close> on
  is sent every stored round from there to the last, once, in order, each as it is stored; a
  request beyond the last round is refused without sending anything.
\<close>

theorem SyncChain_serves_the_chain:
  assumes "stack_inv l st" "\<forall>k. send k = None"
  shows "let (sent, e) = SyncChain_send send fromRound st
         in if fromRound \<le> b_Round l
            then e = None \<and> map bp_Round sent = sorted_list_of_set {fromRound..b_Round l}
               \<and> (\<forall>p \<in> set sent. stack_chain st (bp_Round p) = Some (protoToBeacon (Some p)))
            else e \<noteq> None \<and> sent = []"
proof (cases "fromRound \<le> b_Round l")
  case True
  have "map bp_Round (fst (SyncChain_send send fromRound st)) = sorted_list_of_set {fromRound..b_Round l}"
    by (rule SyncChain_send_rounds [OF assms(1) True]) (use assms(2) in blast)
  moreover have "\<forall>p \<in> set (map (\<lambda>k. beaconToProto (the (stack_chain st k))) (sorted_list_of_set {fromRound..b_Round l})).
      stack_chain st (bp_Round p) = Some (protoToBeacon (Some p))"
  proof
    fix p assume "p \<in> set (map (\<lambda>k. beaconToProto (the (stack_chain st k))) (sorted_list_of_set {fromRound..b_Round l}))"
    then obtain k where k: "k \<in> {fromRound..b_Round l}" "p = beaconToProto (the (stack_chain st k))" by auto
    obtain b where b: "stack_chain st k = Some b" "b_Round b = k" using stack_chain_filed [OF assms(1)] k(1) by auto
    then have "bp_Round p = k" "protoToBeacon (Some p) = b" using k(2) by (simp_all add: beaconToProto_def protoToBeacon_def)
    then show "stack_chain st (bp_Round p) = Some (protoToBeacon (Some p))" using b by simp
  qed
  ultimately show ?thesis
    using True assms(2) SyncChain_send_spec [OF assms(1) True, of send] by (simp add: Let_def)
next
  case False
  then show ?thesis by (simp add: SyncChain_send_def stack_inv_Last [OF assms(1)] not_le)
qed

theorem SyncChain_serves_the_chain_witness:
  "map bp_Round (fst (SyncChain_send (\<lambda>_. None) 0 (sy_store example_syncer))) = [0]"
  using SyncChain_serves_the_chain [OF example_syncer_inv, of "\<lambda>_. None" 0]
  by (simp add: split_beta Let_def genesis_beacon_def)

text \<open>
  C34. The gap in the stream: \<open>SyncChain\<close> registers its callback only after the walk over the
  stored beacons, so a beacon stored in between reaches the client by neither way.  The client
  is sent the rounds up to the last one of the walk, and the next thing its stream carries is
  the round after the missing one.
\<close>

theorem SyncChain_misses_a_beacon:
  assumes "stack_inv l st" "fromRound \<le> b_Round l" "\<forall>k. send k = None" "unat (b_Round l) + 2 < 2 ^ 64"
    and "addr \<notin> fst ` set (cb_callbacks st)" "\<forall>(cb, b) \<in> set (cb_newJob st). cb \<noteq> StreamCb addr"
    and "\<forall>(k, cb) \<in> set (cb_callbacks st). cb \<noteq> StreamCb addr"
    and "callbackStore_Put stack_ops b1 st = (None, st1)"
    and "callbackStore_Put stack_ops b2 (SyncChain_register addr st1) = (None, st2)"
  shows "map bp_Round (fst (SyncChain_send send fromRound st)) = sorted_list_of_set {fromRound..b_Round l}
       \<and> map (\<lambda>(cb, b). b_Round b) (filter (\<lambda>(cb, b). cb = StreamCb addr) (cb_newJob st2)) = [b_Round l + 2]
       \<and> stack_chain st2 (b_Round l + 1) = Some b1"
proof -
  have n: "b_Round l \<noteq> - 1" using assms(4) by (auto simp: unat_max_uint64)
  have p1: "b_Round b1 = b_Round l + 1 \<and> stack_inv b1 st1 \<and> stack_chain st1 = (stack_chain st)(b_Round b1 \<mapsto> b1)
      \<and> cb_newJob st1 = cb_newJob st @ map (\<lambda>(_, cb). (cb, b1)) (cb_callbacks st)"
    by (rule stack_Put_cases [OF assms(1) n, of st1 b1]) (use assms(8) n in \<open>auto simp: uint64_succ_0\<close>)
  have c1: "cb_callbacks st1 = cb_callbacks st" using callbackStore_Put_jobs(2) [of stack_ops b1 st] assms(8) by simp
  have "unat (b_Round b1) = unat (b_Round l) + 1" using p1 unat_succ [OF n] by simp
  then have "unat (b_Round b1) < unat (- 1 :: uint64)" unfolding unat_max_uint64 using assms(4) by linarith
  then have n1: "b_Round b1 \<noteq> - 1" by (metis less_irrefl)
  let ?r = "SyncChain_register addr st1"
  have a: "stack_append ?r = stack_append st1"
    by (simp add: SyncChain_register_def callbackStore_AddCallback_def stack_append_def)
  have i: "stack_inv b1 ?r" and j: "cb_newJob ?r = cb_newJob st1" "stack_chain ?r = stack_chain st1"
    using p1 unfolding stack_inv_def stack_chain_def a
    by (blast, simp add: SyncChain_register_def callbackStore_AddCallback_def, blast)
  have cb: "cb_callbacks ?r = cb_callbacks st @ [(addr, StreamCb addr)]"
    using assms(5) by (simp add: SyncChain_register_def callbackStore_AddCallback_def c1 update_fresh)
  have p2: "b_Round b2 = b_Round b1 + 1 \<and> stack_chain st2 = (stack_chain st1)(b_Round b2 \<mapsto> b2)
      \<and> cb_newJob st2 = cb_newJob st1 @ map (\<lambda>(_, cb). (cb, b2)) (cb_callbacks ?r)"
    by (rule stack_Put_cases [OF i n1, of st2 b2]) (use assms(9) n1 j in \<open>auto simp: uint64_succ_0\<close>)
  have "SyncChain_send send fromRound st
           = (map (\<lambda>k. beaconToProto (the (stack_chain st k))) (sorted_list_of_set {fromRound..b_Round l}), None)"
    by (rule SyncChain_send_spec [OF assms(1,2)]) (use assms(3) in blast)
  show ?thesis
  proof (intro conjI)
    show "map bp_Round (fst (SyncChain_send send fromRound st)) = sorted_list_of_set {fromRound..b_Round l}"
      by (rule SyncChain_send_rounds [OF assms(1,2)]) (use assms(3) in blast)
    show "map (\<lambda>(cb, b). b_Round b) (filter (\<lambda>(cb, b). cb = StreamCb addr) (cb_newJob st2)) = [b_Round l + 2]"
      using p1 p2 j cb assms(6,7) by (auto simp: filter_empty_conv split_beta)
    show "stack_chain st2 (b_Round l + 1) = Some b1"
      using p1 p2 n1 by (auto)
  qed
qed

definition second_beacon :: Beacon where
  "second_beacon = \<lparr>b_PreviousSig = [8], b_Round = 2, b_Signature = [9]\<rparr>"

theorem SyncChain_misses_a_beacon_witness:
  "\<exists>st1 st2. callbackStore_Put stack_ops first_beacon (sy_store example_syncer) = (None, st1)
     \<and> callbackStore_Put stack_ops second_beacon (SyncChain_register ''client'' st1) = (None, st2)
     \<and> map (\<lambda>(cb, b). b_Round b) (filter (\<lambda>(cb, b). cb = StreamCb ''client'') (cb_newJob st2)) = [2]"
proof -
  have s: "sy_store example_syncer = cs_stack example_chainStore" by (simp add: example_syncer_def NewSyncer_def)
  obtain s1 where s1: "boltStore_Put first_beacon genesis_store = (None, s1)" "bs_bolt s1 = list_bolt" "bs_json s1 = plain_json"
    using list_bolt_Put [OF genesis_store_facts(4,5), of first_beacon] by (auto simp: first_beacon_def)
  obtain s2 where s2: "boltStore_Put second_beacon s1 = (None, s2)"
    using list_bolt_Put [OF s1(2,3), of second_beacon] by (auto simp: second_beacon_def)
  let ?st1 = "snd (callbackStore_Put stack_ops first_beacon (sy_store example_syncer))"
  let ?st2 = "snd (callbackStore_Put stack_ops second_beacon (SyncChain_register ''client'' ?st1))"
  note defs = stack_Put_append stack_append_def s example_chainStore_def NewCallbackStore_def newDiscrepancyStore_def
    newAppendStore_def callbackStore_AddCallback_def genesis_store_facts appendStore_Put_def
  have a1: "appendStore_Put bolt_ops first_beacon (stack_append (sy_store example_syncer))
              = (None, \<lparr>as_Store = s1, as_last = Some first_beacon\<rparr>)"
    by (simp add: defs s1) (simp add: first_beacon_def)
  then have p1: "callbackStore_Put stack_ops first_beacon (sy_store example_syncer) = (None, ?st1)"
    by (simp add: prod_eq_iff stack_Put_append)
  have "stack_append (SyncChain_register ''client'' ?st1) = \<lparr>as_Store = s1, as_last = Some first_beacon\<rparr>"
    using a1 stack_Put_append(1) [of first_beacon "sy_store example_syncer"]
    by (simp add: SyncChain_register_def callbackStore_AddCallback_def stack_append_def)
  then have p2: "callbackStore_Put stack_ops second_beacon (SyncChain_register ''client'' ?st1) = (None, ?st2)"
    by (simp add: prod_eq_iff stack_Put_append appendStore_Put_def s2) (simp add: first_beacon_def second_beacon_def)
  have c: "cb_callbacks (sy_store example_syncer) = [(''chainstore'', AggregatorCb)]" "cb_newJob (sy_store example_syncer) = []"
    by (simp_all add: s example_chainStore_def callbackStore_AddCallback_def NewCallbackStore_def)
  have "map (\<lambda>(cb, b). b_Round b) (filter (\<lambda>(cb, b). cb = StreamCb ''client'') (cb_newJob ?st2)) = [b_Round genesis_beacon + 2]"
    using SyncChain_misses_a_beacon [OF example_syncer_inv _ _ _ _ _ _ p1 p2, of 0 "\<lambda>_. None"]
    by (simp add: genesis_beacon_def c)
  then show ?thesis using p1 p2 by (intro exI [of _ ?st1] exI [of _ ?st2]) (simp add: genesis_beacon_def)
qed

end
