(* ===== verification/Ticker.thy ===== *)
theory Ticker
  imports Chain_Time
begin

text \<open>
  \<open>src/chain/beacon/ticker.go\<close>: the clock of a node, which announces each round at its time on
  the channels registered with it. A channel is a buffer of capacity one, addressed by its
  position in the list of all channels made; an iteration of the loop of \<open>Start\<close> is a function
  on the state of the ticker.
\<close>

section \<open>The ticker\<close>

definition tickerChanBacklog :: nat where
  "tickerChanBacklog = 5"

record roundInfo =
  ri_round :: uint64
  ri_time :: int

record channelInfo =
  chi_ch :: nat
  chi_startAt :: int

record tickChan =
  tc_buf :: "roundInfo list"
  tc_closed :: bool

text \<open>
  \<open>tk_chans\<close> holds every channel made; \<open>tk_newCh\<close> is the channel of registrations;
  \<open>tk_channels\<close>, \<open>tk_sendTicks\<close>, \<open>tk_tround\<close> and \<open>tk_ttime\<close> are the variables of the loop.
\<close>

record ticker =
  tk_period :: int
  tk_genesis :: int
  tk_chans :: "tickChan list"
  tk_newCh :: "channelInfo list"
  tk_stop :: bool
  tk_channels :: "channelInfo list"
  tk_sendTicks :: bool
  tk_tround :: uint64
  tk_ttime :: int
  tk_returned :: bool

definition newTicker :: "int \<Rightarrow> int \<Rightarrow> ticker" where
  "newTicker period genesis =
     \<lparr>tk_period = period, tk_genesis = genesis, tk_chans = [], tk_newCh = [], tk_stop = False, tk_channels = [],
      tk_sendTicks = False, tk_tround = 0, tk_ttime = 0, tk_returned = False\<rparr>"

text \<open>No value means that the call waits for room in the channel of registrations.\<close>

definition ticker_ChannelAt :: "int \<Rightarrow> ticker \<Rightarrow> (nat \<times> ticker) option" where
  "ticker_ChannelAt start t =
     (if length (tk_newCh t) < tickerChanBacklog
      then Some (length (tk_chans t),
                 t\<lparr>tk_chans := tk_chans t @ [\<lparr>tc_buf = [], tc_closed = False\<rparr>],
                   tk_newCh := tk_newCh t @ [\<lparr>chi_ch = length (tk_chans t), chi_startAt = start\<rparr>]\<rparr>)
      else None)"

definition ticker_Channel :: "int \<Rightarrow> ticker \<Rightarrow> (nat \<times> ticker) option" where
  "ticker_Channel now t = ticker_ChannelAt now t"

definition ticker_Stop :: "ticker \<Rightarrow> ticker result" where
  "ticker_Stop t = (if tk_stop t then Inl (Panic ''close of closed channel'') else Inr (t\<lparr>tk_stop := True\<rparr>))"

definition ticker_CurrentRound :: "(float64 \<Rightarrow> uint64) \<Rightarrow> int \<Rightarrow> ticker \<Rightarrow> uint64" where
  "ticker_CurrentRound impl now t = CurrentRound impl now (tk_period t) (tk_genesis t)"

section \<open>The loop\<close>

text \<open>
  The goroutine that feeds the loop, on a clock that wakes up on time: the first tick is at the
  time of the next round, the others follow at intervals of the period. Times are in seconds.
\<close>

definition first_tick :: "(float64 \<Rightarrow> uint64) \<Rightarrow> int \<Rightarrow> ticker \<Rightarrow> int" where
  "first_tick impl now t =
     (let ttime = snd (NextRound impl now (tk_period t) (tk_genesis t)) in if now < ttime then ttime else now)"

definition tick_times :: "(float64 \<Rightarrow> uint64) \<Rightarrow> int \<Rightarrow> nat \<Rightarrow> ticker \<Rightarrow> int list" where
  "tick_times impl now n t = map (\<lambda>k. (first_tick impl now t * Second + int k * tk_period t) div Second) [0..<n]"

text \<open>A send that does not wait: the value is dropped when the buffer is full.\<close>

definition try_send :: "roundInfo \<Rightarrow> nat \<Rightarrow> tickChan list \<Rightarrow> tickChan list" where
  "try_send i c chans =
     (let tc = chans ! c in if tc_buf tc = [] then chans[c := tc\<lparr>tc_buf := [i]\<rparr>] else chans)"

definition sendTicks :: "ticker \<Rightarrow> ticker" where
  "sendTicks t =
     (if tk_sendTicks t
      then let info = \<lparr>ri_round = tk_tround t, ri_time = tk_ttime t\<rparr>
           in t\<lparr>tk_sendTicks := False,
                tk_chans := fold (\<lambda>chinfo chans. if tk_ttime t < chi_startAt chinfo then chans
                                                 else try_send info (chi_ch chinfo) chans)
                              (tk_channels t) (tk_chans t)\<rparr>
      else t)"

text \<open>What the \<open>select\<close> of the loop receives: a tick, a registration or the stop signal.\<close>

datatype tick_event = Tick int | Register | StopSignal

text \<open>No value means that the event is not possible in the state.\<close>

fun on_event :: "(float64 \<Rightarrow> uint64) \<Rightarrow> tick_event \<Rightarrow> ticker \<Rightarrow> ticker option" where
  "on_event impl (Tick nt) t =
     Some (t\<lparr>tk_tround := CurrentRound impl nt (tk_period t) (tk_genesis t), tk_ttime := nt, tk_sendTicks := True\<rparr>)"
| "on_event impl Register t =
     (case tk_newCh t of
        [] \<Rightarrow> None
      | newChan # rest \<Rightarrow> Some (t\<lparr>tk_newCh := rest, tk_channels := tk_channels t @ [newChan]\<rparr>))"
| "on_event impl StopSignal t =
     (if tk_stop t
      then Some (t\<lparr>tk_chans := fold (\<lambda>ch chans. chans[chi_ch ch := (chans ! chi_ch ch)\<lparr>tc_closed := True\<rparr>])
                                (tk_channels t) (tk_chans t),
                   tk_returned := True\<rparr>)
      else None)"

definition Start_iteration :: "(float64 \<Rightarrow> uint64) \<Rightarrow> tick_event \<Rightarrow> ticker \<Rightarrow> ticker option" where
  "Start_iteration impl ev t = (if tk_returned t then None else on_event impl ev (sendTicks t))"

text \<open>Receiving from a channel.\<close>

definition chan_recv :: "nat \<Rightarrow> ticker \<Rightarrow> roundInfo option \<times> ticker" where
  "chan_recv c t =
     (case tc_buf (tk_chans t ! c) of
        [] \<Rightarrow> (None, t)
      | i # rest \<Rightarrow> (Some i, t\<lparr>tk_chans := (tk_chans t)[c := (tk_chans t ! c)\<lparr>tc_buf := rest\<rparr>]\<rparr>))"

section \<open>What a reader of a channel sees\<close>

text \<open>
  A reader that takes each announcement before the next tick: the loop handles a tick, starts
  its next iteration and waits; the reader receives if there is something to receive.
\<close>

fun observe :: "(float64 \<Rightarrow> uint64) \<Rightarrow> nat \<Rightarrow> int list \<Rightarrow> ticker \<Rightarrow> roundInfo list" where
  "observe impl c [] t = []"
| "observe impl c (nt # nts) t =
     (case on_event impl (Tick nt) t of
        None \<Rightarrow> []
      | Some t1 \<Rightarrow>
          (case chan_recv c (sendTicks t1) of
             (None, t2) \<Rightarrow> observe impl c nts t2
           | (Some i, t2) \<Rightarrow> i # observe impl c nts t2))"

definition channels_ok :: "ticker \<Rightarrow> bool" where
  "channels_ok t \<longleftrightarrow> distinct (map chi_ch (tk_channels t)) \<and> (\<forall>c \<in> set (tk_channels t). chi_ch c < length (tk_chans t))"

definition registered :: "nat \<Rightarrow> int \<Rightarrow> ticker \<Rightarrow> bool" where
  "registered c start t \<longleftrightarrow>
     \<lparr>chi_ch = c, chi_startAt = start\<rparr> \<in> set (tk_channels t) \<and> tc_buf (tk_chans t ! c) = [] \<and> channels_ok t"

lemma length_try_send [simp]: "length (try_send i c chans) = length chans"
  by (simp add: try_send_def Let_def)

lemma try_send_nth:
  "c' < length chans \<Longrightarrow>
     try_send i c chans ! c' = (if c = c' \<and> tc_buf (chans ! c) = [] then (chans ! c)\<lparr>tc_buf := [i]\<rparr> else chans ! c')"
  by (cases "c = c'") (simp_all add: try_send_def Let_def)

abbreviation send_all :: "int \<Rightarrow> roundInfo \<Rightarrow> channelInfo list \<Rightarrow> tickChan list \<Rightarrow> tickChan list" where
  "send_all time i \<equiv> fold (\<lambda>chinfo chans. if time < chi_startAt chinfo then chans else try_send i (chi_ch chinfo) chans)"

lemma length_send_all [simp]: "length (send_all time i cs chans) = length chans"
  by (induction cs arbitrary: chans) auto

lemma send_all_other:
  "c \<notin> chi_ch ` set cs \<Longrightarrow> c < length chans \<Longrightarrow> send_all time i cs chans ! c = chans ! c"
  by (induction cs arbitrary: chans) (auto simp: try_send_nth)

lemma send_all_nth:
  assumes "distinct (map chi_ch cs)" "\<lparr>chi_ch = c, chi_startAt = start\<rparr> \<in> set cs" "c < length chans" "tc_buf (chans ! c) = []"
  shows "tc_buf (send_all time i cs chans ! c) = (if time < start then [] else [i])"
  using assms
proof (induction cs arbitrary: chans)
  case (Cons d cs)
  show ?case
  proof (cases "d = \<lparr>chi_ch = c, chi_startAt = start\<rparr>")
    case True
    then have "c \<notin> chi_ch ` set cs" using Cons.prems(1) by auto
    then show ?thesis using Cons.prems True by (simp add: send_all_other try_send_nth)
  next
    case False
    then have "\<lparr>chi_ch = c, chi_startAt = start\<rparr> \<in> set cs" using Cons.prems(2) by auto
    then have "chi_ch d \<noteq> c" using Cons.prems(1) by (auto simp: image_iff)
    then show ?thesis using Cons False by (auto simp: try_send_nth)
  qed
qed simp

text \<open>One tick, seen from a registered channel.\<close>

lemma observe_tick:
  assumes "registered c start t"
  shows "\<exists>t'. registered c start t' \<and> tk_period t' = tk_period t \<and> tk_genesis t' = tk_genesis t
       \<and> observe impl c (nt # nts) t =
           (if nt < start then [] else [\<lparr>ri_round = CurrentRound impl nt (tk_period t) (tk_genesis t), ri_time = nt\<rparr>])
           @ observe impl c nts t'"
proof -
  let ?i = "\<lparr>ri_round = CurrentRound impl nt (tk_period t) (tk_genesis t), ri_time = nt\<rparr>"
  let ?t1 = "sendTicks (the (on_event impl (Tick nt) t))"
  have ok: "c < length (tk_chans t)" using assms by (auto simp: registered_def channels_ok_def)
  have b: "tc_buf (tk_chans ?t1 ! c) = (if nt < start then [] else [?i])"
    using send_all_nth [of "tk_channels t" c start "tk_chans t" nt ?i] assms ok
    by (simp add: sendTicks_def registered_def channels_ok_def Let_def)
  have k: "tk_channels ?t1 = tk_channels t" "length (tk_chans ?t1) = length (tk_chans t)"
    "tk_period ?t1 = tk_period t" "tk_genesis ?t1 = tk_genesis t"
    by (simp_all add: sendTicks_def Let_def)
  let ?t2 = "snd (chan_recv c ?t1)"
  have "registered c start ?t2 \<and> tk_period ?t2 = tk_period t \<and> tk_genesis ?t2 = tk_genesis t"
    using assms ok b k by (auto simp: chan_recv_def registered_def channels_ok_def)
  moreover have "fst (chan_recv c ?t1) = (if nt < start then None else Some ?i)"
    using b by (simp add: chan_recv_def)
  ultimately show ?thesis
    by (intro exI [of _ ?t2], cases "chan_recv c ?t1") (simp split: option.split)
qed

lemma observe_ticks:
  "registered c start t \<Longrightarrow>
     observe impl c nts t =
       map (\<lambda>nt. \<lparr>ri_round = CurrentRound impl nt (tk_period t) (tk_genesis t), ri_time = nt\<rparr>) (filter (\<lambda>nt. start \<le> nt) nts)"
proof (induction nts arbitrary: t)
  case (Cons nt nts)
  from observe_tick [OF Cons.prems, of impl nt nts] obtain t' where
    "registered c start t'" "tk_period t' = tk_period t" "tk_genesis t' = tk_genesis t"
    "observe impl c (nt # nts) t =
       (if nt < start then [] else [\<lparr>ri_round = CurrentRound impl nt (tk_period t) (tk_genesis t), ri_time = nt\<rparr>])
       @ observe impl c nts t'" by blast
  with Cons.IH [of t'] show ?case by simp
qed simp

text \<open>The next round and its time, as a multiple of the period.\<close>

lemma NextRound_multiple:
  assumes "period_ok P" "genesis_ok g" "now - g + P < B" "0 < B" "B < 2 ^ 53"
  obtains m where "0 \<le> m" "m * P < B" "NextRound impl now (P * Second) g = (to_uint64 (m + 1), g + m * P)" "now < g + m * P"
proof (cases "now < g")
  case True
  then show ?thesis using that [of 0] assms by (simp add: NextRound_def to_uint64_def)
next
  case False
  let ?q = "(now - g) div P"
  have P: "0 < P" using assms(1) by (simp add: period_ok_def)
  have e: "?q * P + (now - g) mod P = now - g" by (rule div_mult_mod_eq)
  have r: "0 \<le> (now - g) mod P" "(now - g) mod P < P" using P by simp_all
  have q: "?q * P \<le> now - g" "now - g < (?q + 1) * P" using e r unfolding distrib_right by linarith+
  have "0 \<le> ?q" using P False by (simp add: pos_imp_zdiv_nonneg_iff)
  note q = q this
  show ?thesis
    using that [of "?q + 1"] q NextRound_whole [OF assms(1,2), of now impl] False assms(3,5) P
    by (auto simp: algebra_simps)
qed

text \<open>
  C22. On a clock that wakes up on time the ticker announces every round from the next one on,
  in order, none twice and none left out, each with its own time; a reader that keeps up gets
  exactly those announced at or after the time it asked to start at.
\<close>

theorem ticker_announces_each_round:
  assumes "period_ok P" "genesis_ok g" "tk_period t = P * Second" "tk_genesis t = g"
    and "now - g + (int n + 1) * P < 2 ^ 52" "int n * P < 2 ^ 52" "registered c start t"
  shows "observe impl c (tick_times impl now n t) t =
    (let announce = (\<lambda>k. let r = fst (NextRound impl now (P * Second) g) + of_nat k
                          in \<lparr>ri_round = r, ri_time = TimeOfRound (P * Second) g r\<rparr>)
     in filter (\<lambda>i. start \<le> ri_time i) (map announce [0..<n]))"
proof -
  have P: "0 < P" using assms(1) by (simp add: period_ok_def)
  have "0 \<le> int n * P" using P by simp
  then have b0: "now - g + P < 2 ^ 52" using assms(5) by (simp add: algebra_simps)
  obtain m where m: "0 \<le> m" "m * P < 2 ^ 52"
      "NextRound impl now (P * Second) g = (to_uint64 (m + 1), g + m * P)" "now < g + m * P"
    by (rule NextRound_multiple [OF assms(1,2), of now "2 ^ 52" impl]) (use b0 in \<open>simp_all\<close>)
  have tick: "(first_tick impl now t * Second + int k * tk_period t) div Second = g + (m + int k) * P" for k
    using m(3,4) by (simp add: first_tick_def assms Second_def algebra_simps)
  have rnd: "CurrentRound impl (g + (m + int k) * P) (P * Second) g = to_uint64 (m + 1) + of_nat k
           \<and> TimeOfRound (P * Second) g (to_uint64 (m + 1) + of_nat k) = g + (m + int k) * P" if "k < n" for k
  proof -
    have b: "(m + int k) * P < 2 ^ 53"
    proof -
      have "int k * P \<le> int n * P" using that P by (intro mult_right_mono) auto
      then show ?thesis using m(2) assms(6) by (simp add: algebra_simps)
    qed
    have w: "to_uint64 (m + 1) + of_nat k = (to_uint64 (m + int k + 1) :: uint64)" by (simp add: to_uint64_def)
    show ?thesis
      using CurrentRound_whole [OF assms(1,2), of "g + (m + int k) * P" impl] b m(1) P
        TimeOfRound_small [OF assms(1,2), of "m + int k"]
      by (simp add: w)
  qed
  have ticks: "tick_times impl now n t = map (\<lambda>k. g + (m + int k) * P) [0..<n]"
    unfolding tick_times_def tick by simp
  let ?a = "\<lambda>k. \<lparr>ri_round = to_uint64 (m + 1) + of_nat k, ri_time = g + (m + int k) * P\<rparr>"
  have "observe impl c (tick_times impl now n t) t = filter (\<lambda>i. start \<le> ri_time i) (map ?a [0..<n])"
    unfolding observe_ticks [OF assms(7)] ticks assms(3,4) filter_map o_def map_map by (auto simp: rnd)
  moreover have "map ?a [0..<n] = map (\<lambda>k. let r = fst (NextRound impl now (P * Second) g) + of_nat k
                          in \<lparr>ri_round = r, ri_time = TimeOfRound (P * Second) g r\<rparr>) [0..<n]"
    using rnd by (simp add: m(3) Let_def)
  ultimately show ?thesis by (simp only: Let_def)
qed

definition example_ticker :: ticker where
  "example_ticker =
     (newTicker (30 * Second) 1600000000)
       \<lparr>tk_chans := [\<lparr>tc_buf = [], tc_closed = False\<rparr>], tk_channels := [\<lparr>chi_ch = 0, chi_startAt = 1600000030\<rparr>]\<rparr>"

theorem ticker_announces_each_round_witness:
  "observe (\<lambda>_. 0) 0 (tick_times (\<lambda>_. 0) 1500000000 4 example_ticker) example_ticker
     = [\<lparr>ri_round = 2, ri_time = 1600000030\<rparr>, \<lparr>ri_round = 3, ri_time = 1600000060\<rparr>,
        \<lparr>ri_round = 4, ri_time = 1600000090\<rparr>]"
proof -
  have P: "period_ok 30" "genesis_ok 1600000000" by (simp_all add: period_ok_def genesis_ok_def)
  have t: "TimeOfRound (30 * Second) 1600000000 1 = 1600000000" "TimeOfRound (30 * Second) 1600000000 2 = 1600000030"
    "TimeOfRound (30 * Second) 1600000000 3 = 1600000060" "TimeOfRound (30 * Second) 1600000000 4 = 1600000090"
    using TimeOfRound_small [OF P, of 0] TimeOfRound_small [OF P, of 1] TimeOfRound_small [OF P, of 2]
      TimeOfRound_small [OF P, of 3] by (simp_all add: to_uint64_def)
  have "registered 0 1600000030 example_ticker" by (simp add: registered_def channels_ok_def example_ticker_def)
  then show ?thesis
    using ticker_announces_each_round [OF P, of example_ticker 1500000000 4 0 1600000030 "\<lambda>_. 0"] t
    by (simp add: example_ticker_def newTicker_def NextRound_def Let_def upt_rec)
qed

end
