(* ===== verification/Beacon_Node.thy ===== *)
theory Beacon_Node
  imports Syncer Ticker
begin

text \<open>
  \<open>src/chain/beacon/node.go\<close>: the handler of the beacon protocol, which signs a partial for
  every round, sends it to the other nodes, checks the partials it receives and hands them to
  the aggregation loop of its chain store. A goroutine the code starts is an entry of a list in
  the state of the handler, and what it does is a function of its own.
\<close>

section \<open>The handler\<close>

record ('p, 's) Config =
  cf_Public :: "'p Node"
  cf_Share :: "('p, 's) Share option"
  cf_Group :: "'p Group option"

text \<open>A loop \<open>run\<close> that has its channel of ticks.\<close>

record run_loop =
  rl_chan :: nat
  rl_current :: roundInfo

text \<open>
  \<open>h_run\<close> holds the start times of the calls of \<open>run\<close> that wait for their channel, \<open>h_loops\<close>
  the loops, \<open>h_sync\<close> the calls of \<open>RunSync\<close>, \<open>h_delayed\<close> the broadcasts that wait for the
  catchup period, \<open>h_sent\<close> the packets given to the network, and \<open>h_transition\<close> the variables
  of the callback for a transition.
\<close>

record ('db, 'p, 's) Handler =
  h_conf :: "('p, 's) Config"
  h_chain :: "('db, 'p, 's) chainStore"
  h_ticker :: ticker
  h_addr :: string
  h_stopped :: bool
  h_run :: "int list"
  h_loops :: "run_loop list"
  h_sync :: "(uint64 \<times> 'p Identity list) list"
  h_delayed :: "(roundInfo \<times> Beacon) list"
  h_sent :: "('p Identity \<times> PartialBeaconPacket) list"
  h_transition :: "(uint64 \<times> 'p Group \<times> ('p, 's) Share) option"

abbreviation h_crypto :: "('db, 'p, 's) Handler \<Rightarrow> ('p, 's) cryptoStore" where
  "h_crypto h \<equiv> cs_crypto (h_chain h)"

definition h_group :: "('db, 'p, 's) Handler \<Rightarrow> 'p Group" where
  "h_group h = the (cf_Group (h_conf h))"

text \<open>The group of the configuration is the object whose seed \<open>newCryptoStore\<close> computes.\<close>

definition NewHandler ::
  "('p, 's) suite \<Rightarrow> int \<Rightarrow> 'db boltStore \<Rightarrow> ('p, 's) Config \<Rightarrow> ('db, 'p, 's) Handler result" where
  "NewHandler S now s conf =
     (case (cf_Share conf, cf_Group conf) of
        (Some ks, Some g) \<Rightarrow>
          (case Group_Find S g (node_Identity (cf_Public conf)) of
             None \<Rightarrow> Inl (Err ''beacon: keypair not included in the given group'')
           | Some node \<Rightarrow>
               (case newCryptoStore S g ks of
                  Inl e \<Rightarrow> Inl e
                | Inr crypto \<Rightarrow>
                    (case boltStore_Put (GenesisBeacon (cr_chain crypto)) s of
                       (Some e, s) \<Rightarrow> Inl e
                     | (None, s) \<Rightarrow>
                         (case newChainStore crypto now s of
                            Inl e \<Rightarrow> Inl e
                          | Inr store \<Rightarrow>
                              Inr \<lparr>h_conf = conf\<lparr>cf_Group := Some (cr_group crypto)\<rparr>, h_chain = store,
                                   h_ticker = newTicker (g_Period g) (g_GenesisTime g),
                                   h_addr = Identity_Address (node_Identity (cf_Public conf)), h_stopped = False,
                                   h_run = [], h_loops = [], h_sync = [], h_delayed = [], h_sent = [],
                                   h_transition = None\<rparr>))))
      | _ \<Rightarrow> Inl (Err ''beacon: invalid configuration''))"

section \<open>Receiving partials\<close>

definition ProcessPartialBeacon ::
  "(float64 \<Rightarrow> uint64) \<Rightarrow> ('p, 's) suite \<Rightarrow> int \<Rightarrow> string \<Rightarrow> PartialBeaconPacket
    \<Rightarrow> ('db, 'p, 's) Handler \<Rightarrow> error option \<times> ('db, 'p, 's) Handler" where
  "ProcessPartialBeacon impl S now addr p h =
     (let nextRound = fst (NextRound impl now (g_Period (h_group h)) (g_GenesisTime (h_group h)));
          currentRound = nextRound - 1
      in if nextRound < pb_Round p
         then (Some (Errf ''invalid round: %d instead of %d'' [uint (pb_Round p), uint currentRound]), h)
         else
           let msg = Message (pb_Round p) (pb_PreviousSig p)
           in case tbls_verify_partial S (cryptoStore_GetPub (h_crypto h)) msg (pb_PartialSig p) of
                Some e \<Rightarrow> (Some e, h)
              | None \<Rightarrow>
                  let idx = tbls_index_of S (pb_PartialSig p)
                  in if idx = cryptoStore_Index (h_crypto h) then (None, h)
                     else (None, h\<lparr>h_chain := NewValidPartial addr p (h_chain h)\<rparr>))"

text \<open>The form of a signature in the logs.\<close>

definition log_shortSigStr :: "bytes \<Rightarrow> string" where
  "log_shortSigStr sig = (let max = (if length sig < 3 then length sig else 3) in hex_EncodeToString (take max sig))"

section \<open>Sending partials\<close>

definition next_packet ::
  "('p, 's) suite \<Rightarrow> roundInfo \<Rightarrow> Beacon \<Rightarrow> ('db, 'p, 's) Handler \<Rightarrow> PartialBeaconPacket result" where
  "next_packet S current upon h =
     (let (previousSig, rnd) =
            (if ri_round current = b_Round upon then (b_PreviousSig upon, ri_round current)
             else (b_Signature upon, b_Round upon + 1));
          msg = Message rnd previousSig
      in case cryptoStore_SignPartial S msg (h_crypto h) of
           Inl e \<Rightarrow> Inl (Panic ''beacon_round'')
         | Inr currSig \<Rightarrow> Inr \<lparr>pb_Round = rnd, pb_PreviousSig = previousSig, pb_PartialSig = currSig\<rparr>)"

definition broadcastNextPartial ::
  "('p, 's) suite \<Rightarrow> roundInfo \<Rightarrow> Beacon \<Rightarrow> ('db, 'p, 's) Handler \<Rightarrow> ('db, 'p, 's) Handler result" where
  "broadcastNextPartial S current upon h =
     (case next_packet S current upon h of
        Inl e \<Rightarrow> Inl e
      | Inr packet \<Rightarrow>
          Inr (h\<lparr>h_chain := NewValidPartial (h_addr h) packet (h_chain h),
                 h_sent := h_sent h @
                   map (\<lambda>i. (i, packet))
                     (filter (\<lambda>i. h_addr h \<noteq> Identity_Address i)
                       (map node_Identity (g_Nodes (cryptoStore_GetGroup (h_crypto h)))))\<rparr>))"

section \<open>Starting\<close>

definition RunSync :: "uint64 \<Rightarrow> 'p Identity list option \<Rightarrow> ('db, 'p, 's) Handler \<Rightarrow> ('db, 'p, 's) Handler" where
  "RunSync upTo peers h = h\<lparr>h_sync := h_sync h @ [(upTo, RunSync_peers (h_crypto h) peers)]\<rparr>"

definition go_run :: "int \<Rightarrow> ('db, 'p, 's) Handler \<Rightarrow> ('db, 'p, 's) Handler" where
  "go_run startTime h = h\<lparr>h_run := h_run h @ [startTime]\<rparr>"

definition Handler_Start ::
  "(float64 \<Rightarrow> uint64) \<Rightarrow> int \<Rightarrow> ('db, 'p, 's) Handler \<Rightarrow> error option \<times> ('db, 'p, 's) Handler" where
  "Handler_Start impl now h =
     (if g_GenesisTime (h_group h) < now
      then (Some (Err ''beacon: genesis time already passed. Call Catchup()''), h)
      else (None, go_run (snd (NextRound impl now (g_Period (h_group h)) (g_GenesisTime (h_group h)))) h))"

definition Handler_Catchup ::
  "(float64 \<Rightarrow> uint64) \<Rightarrow> int \<Rightarrow> ('db, 'p, 's) Handler \<Rightarrow> ('db, 'p, 's) Handler" where
  "Handler_Catchup impl now h =
     (let (nRound, tTime) = NextRound impl now (g_Period (h_group h)) (g_GenesisTime (h_group h))
      in RunSync nRound None (go_run tTime h))"

definition Handler_Transition ::
  "(float64 \<Rightarrow> uint64) \<Rightarrow> 'p Group \<Rightarrow> ('db, 'p, 's) Handler \<Rightarrow> ('db, 'p, 's) Handler result" where
  "Handler_Transition impl prevGroup h =
     (let g = h_group h;
          targetTime = g_TransitionTime g;
          tRound = CurrentRound impl targetTime (g_Period g) (g_GenesisTime g);
          tTime = TimeOfRound (g_Period g) (g_GenesisTime g) tRound
      in if tTime \<noteq> targetTime then Inl (Panic ''transition_time'')
         else Inr (RunSync (tRound - 1) (Some (toPeers (g_Nodes prevGroup))) (go_run targetTime h)))"

definition TransitionNewGroup ::
  "(float64 \<Rightarrow> uint64) \<Rightarrow> ('p, 's) Share \<Rightarrow> 'p Group \<Rightarrow> ('db, 'p, 's) Handler \<Rightarrow> ('db, 'p, 's) Handler result" where
  "TransitionNewGroup impl newShare newGroup h =
     (let targetTime = g_TransitionTime newGroup;
          tRound = CurrentRound impl targetTime (g_Period (h_group h)) (g_GenesisTime (h_group h));
          tTime = TimeOfRound (g_Period (h_group h)) (g_GenesisTime (h_group h)) tRound
      in if tTime \<noteq> targetTime then Inl (Panic ''transition_time'')
         else
           let targetRound = tRound - 1;
               cs = h_chain h
           in Inr (h\<lparr>h_chain := cs\<lparr>cs_stack := callbackStore_AddCallback ''transition'' TransitionCb (cs_stack cs)\<rparr>,
                     h_transition := Some (targetRound, newGroup, newShare)\<rparr>))"

text \<open>The callback that \<open>TransitionNewGroup\<close> registers.\<close>

definition on_transition :: "Beacon \<Rightarrow> ('db, 'p, 's) Handler \<Rightarrow> ('db, 'p, 's) Handler result" where
  "on_transition b h =
     (case h_transition h of
        None \<Rightarrow> Inr h
      | Some (targetRound, newGroup, newShare) \<Rightarrow>
          if b_Round b < targetRound then Inr h
          else
            (case cryptoStore_SetInfo newGroup newShare (h_crypto h) of
               Inl e \<Rightarrow> Inl e
             | Inr cr \<Rightarrow>
                 let cs = h_chain h
                 in Inr (h\<lparr>h_chain := cs\<lparr>cs_crypto := cr,
                             cs_stack := callbackStore_RemoveCallback ''transition'' (cs_stack cs)\<rparr>\<rparr>)))"

section \<open>The loop\<close>

text \<open>\<open>run\<close> up to its first iteration; no value means that it waits for its channel.\<close>

definition run_begin :: "int \<Rightarrow> ('db, 'p, 's) Handler \<Rightarrow> ('db, 'p, 's) Handler option" where
  "run_begin startTime h =
     map_option (\<lambda>(c, t). h\<lparr>h_ticker := t,
         h_loops := h_loops h @ [\<lparr>rl_chan = c, rl_current = \<lparr>ri_round = 0, ri_time = 0\<rparr>\<rparr>]\<rparr>)
       (ticker_ChannelAt startTime (h_ticker h))"

text \<open>The branches of the \<open>select\<close> of the \<open>k\<close>-th loop: a tick, and a beacon aggregated late.\<close>

definition run_tick ::
  "('p, 's) suite \<Rightarrow> nat \<Rightarrow> roundInfo \<Rightarrow> ('db, 'p, 's) Handler \<Rightarrow> ('db, 'p, 's) Handler result" where
  "run_tick S k current h =
     (let h = h\<lparr>h_loops := (h_loops h)[k := (h_loops h ! k)\<lparr>rl_current := current\<rparr>]\<rparr>
      in case st_Last sync_ops (cs_stack (h_chain h)) of
           Inl _ \<Rightarrow> Inr h
         | Inr lastBeacon \<Rightarrow>
             (case broadcastNextPartial S current lastBeacon h of
                Inl e \<Rightarrow> Inl e
              | Inr h \<Rightarrow>
                  if b_Round lastBeacon + 1 < ri_round current then Inr (RunSync (ri_round current) None h)
                  else Inr h))"

definition run_appended :: "nat \<Rightarrow> ('db, 'p, 's) Handler \<Rightarrow> ('db, 'p, 's) Handler option" where
  "run_appended k h =
     (case cs_catchup (h_chain h) of
        [] \<Rightarrow> None
      | b # rest \<Rightarrow>
          let h = h\<lparr>h_chain := (h_chain h)\<lparr>cs_catchup := rest\<rparr>\<rparr>;
              current = rl_current (h_loops h ! k)
          in Some (if b_Round b < ri_round current then h\<lparr>h_delayed := h_delayed h @ [(current, b)]\<rparr> else h))"

section \<open>Stopping\<close>

definition Handler_Stop :: "('db, 'p, 's) Handler \<Rightarrow> ('db, 'p, 's) Handler result" where
  "Handler_Stop h =
     (if h_stopped h then Inr h
      else
        (case ticker_Stop (h_ticker h) of
           Inl e \<Rightarrow> Inl e
         | Inr t \<Rightarrow> Inr (h\<lparr>h_chain := chainStore_Stop (h_chain h), h_ticker := t, h_stopped := True\<rparr>)))"

text \<open>\<open>sleep\<close> is what becomes of the handler while the call sleeps.\<close>

definition Handler_StopAt ::
  "(int \<Rightarrow> ('db, 'p, 's) Handler \<Rightarrow> ('db, 'p, 's) Handler) \<Rightarrow> int \<Rightarrow> int \<Rightarrow> ('db, 'p, 's) Handler
    \<Rightarrow> error option \<times> ('db, 'p, 's) Handler result" where
  "Handler_StopAt sleep now stopTime h =
     (if stopTime \<le> now then (Some (Err ''can't stop in the past or present''), Inr h)
      else (None, Handler_Stop (sleep (wrap64 (wrap64 (stopTime - now) * Second)) h)))"

section \<open>Proxies\<close>

definition Handler_AddCallback :: "string \<Rightarrow> callback \<Rightarrow> ('db, 'p, 's) Handler \<Rightarrow> ('db, 'p, 's) Handler" where
  "Handler_AddCallback i fn h =
     h\<lparr>h_chain := (h_chain h)\<lparr>cs_stack := callbackStore_AddCallback i fn (cs_stack (h_chain h))\<rparr>\<rparr>"

definition Handler_RemoveCallback :: "string \<Rightarrow> ('db, 'p, 's) Handler \<Rightarrow> ('db, 'p, 's) Handler" where
  "Handler_RemoveCallback i h =
     h\<lparr>h_chain := (h_chain h)\<lparr>cs_stack := callbackStore_RemoveCallback i (cs_stack (h_chain h))\<rparr>\<rparr>"

section \<open>Collecting the partials of a round\<close>

definition cached :: "uint64 \<Rightarrow> bytes \<Rightarrow> partialCache \<Rightarrow> (int \<times> bytes) list" where
  "cached rnd prev c = (case GetRoundCache rnd prev c of None \<Rightarrow> [] | Some rc \<Rightarrow> rc_sigs rc)"

text \<open>There is room for a partial of the node: its round has a cache, or the node is below its limit.\<close>

definition has_room :: "('p, 's) suite \<Rightarrow> partialCache \<Rightarrow> PartialBeaconPacket \<Rightarrow> bool" where
  "has_room S c p \<longleftrightarrow> GetRoundCache (pb_Round p) (pb_PreviousSig p) c \<noteq> None
     \<or> length (rcvd c (tbls_index_of S (pb_PartialSig p))) < MaxPartialsPerNode"

lemma Append_collects:
  assumes "has_room S c p" "tbls_index_of S (pb_PartialSig p) \<notin> fst ` set (cached (pb_Round p) (pb_PreviousSig p) c)"
  shows "\<exists>rc. GetRoundCache (pb_Round p) (pb_PreviousSig p) (Append S p c) = Some rc
       \<and> rc_sigs rc = cached (pb_Round p) (pb_PreviousSig p) c @ [(tbls_index_of S (pb_PartialSig p), pb_PartialSig p)]"
proof -
  let ?i = "roundID (pb_Round p) (pb_PreviousSig p)" and ?x = "tbls_index_of S (pb_PartialSig p)"
  define rc where "rc = (case map_of (pc_rounds c) ?i of None \<Rightarrow> newRoundCache ?i p | Some rc \<Rightarrow> rc)"
  have sg: "rc_sigs rc = cached (pb_Round p) (pb_PreviousSig p) c"
    by (simp add: rc_def cached_def GetRoundCache_def newRoundCache_def split: option.split)
  have fresh: "map_of (rc_sigs rc) ?x = None" using assms(2) by (simp add: sg map_of_eq_None_iff)
  have "map_of (pc_rounds (Append S p c)) ?i = Some (rc\<lparr>rc_sigs := AList.update ?x (pb_PartialSig p) (rc_sigs rc)\<rparr>)"
    using Append_below_limit(1) [of c ?x ?i p S rc] assms(1) fresh by (auto simp: has_room_def GetRoundCache_def rc_def)
  then show ?thesis using assms(2) by (simp add: GetRoundCache_def sg update_fresh)
qed

lemma round_window:
  assumes "unat r + 4 < 2 ^ 64"
  shows "r < r + 1" "r + 1 \<le> r + (partialCacheStoreLimit + 1)"
  using assms unat_add_lem [of r 1] unat_add_lem [of r 4]
  by (simp_all add: word_less_nat_alt word_le_nat_alt partialCacheStoreLimit_def)

lemma onPartial_below:
  assumes "pb_Round p = b_Round (cs_last cs) + 1" "unat (b_Round (cs_last cs)) + 4 < 2 ^ 64"
    and "GetRoundCache (pb_Round p) (pb_PreviousSig p) (Append S p (cs_cache cs)) = Some rc"
    and "roundCache_Len rc < g_Threshold (cr_group (cs_crypto cs))"
  shows "onPartial S p cs = cs\<lparr>cs_cache := Append S p (cs_cache cs)\<rparr>"
  using assms round_window [OF assms(2)] by (simp add: onPartial_def Let_def crypto_defs)

lemma onPartial_past: "pb_Round p \<le> b_Round (cs_last cs) \<Longrightarrow> onPartial S p cs = cs"
  by (drule leD) (simp add: onPartial_def Let_def)

lemma fold_onPartial_past: "\<forall>p \<in> set ps. pb_Round p \<le> b_Round (cs_last cs) \<Longrightarrow> fold (onPartial S) ps cs = cs"
  by (induction ps) (simp_all add: onPartial_past)

text \<open>
  Documented behaviour of the threshold scheme, for a public polynomial \<open>pub\<close> of \<open>t\<close>
  coefficients, the private shares \<open>shares\<close> on it and a group of \<open>n\<close> nodes: a share signs,
  its partial carries its index and verifies, and \<open>t\<close> valid partials of different indices
  recover a signature that verifies under the constant coefficient.
\<close>

definition tbls_laws :: "('p, 's) suite \<Rightarrow> 'p list \<Rightarrow> 's PriShare set \<Rightarrow> int \<Rightarrow> int \<Rightarrow> bool" where
  "tbls_laws S pub shares t n \<longleftrightarrow>
     (\<forall>sh \<in> shares. \<forall>m. \<exists>sig. tbls_sign S sh m = Inr sig \<and> tbls_index_of S sig = sh_I sh
        \<and> tbls_verify_partial S pub m sig = None)
   \<and> (\<forall>m ps. (\<forall>p \<in> set ps. tbls_verify_partial S pub m p = None) \<and> distinct (map (tbls_index_of S) ps)
        \<and> t \<le> int (length ps) \<longrightarrow>
        (\<exists>sig. tbls_recover S pub m ps t n = Inr sig \<and> tbls_verify_recovered S (poly_commit S pub) m sig = None))"

lemma tbls_laws_sign:
  assumes "tbls_laws S pub shares t n" "sh \<in> shares"
  obtains sig where "tbls_sign S sh m = Inr sig" "tbls_index_of S sig = sh_I sh" "tbls_verify_partial S pub m sig = None"
  using assms unfolding tbls_laws_def by blast

lemma tbls_laws_recover:
  assumes "tbls_laws S pub shares t n" "\<forall>p \<in> set ps. tbls_verify_partial S pub m p = None"
    "distinct (map (tbls_index_of S) ps)" "t \<le> int (length ps)"
  shows "\<exists>sig. tbls_recover S pub m ps t n = Inr sig \<and> tbls_verify_recovered S (poly_commit S pub) m sig = None"
  using assms unfolding tbls_laws_def by blast

text \<open>The partials of the next round, valid and of different nodes.\<close>

definition next_partials :: "('p, 's) suite \<Rightarrow> 'p list \<Rightarrow> Beacon \<Rightarrow> PartialBeaconPacket list \<Rightarrow> bool" where
  "next_partials S pub l ps \<longleftrightarrow>
     (\<forall>p \<in> set ps. pb_Round p = b_Round l + 1 \<and> pb_PreviousSig p = b_Signature l
        \<and> tbls_verify_partial S pub (Message (b_Round l + 1) (b_Signature l)) (pb_PartialSig p) = None)
   \<and> distinct (map (\<lambda>p. tbls_index_of S (pb_PartialSig p)) ps)"

lemma recovered_at_threshold:
  assumes "tbls_laws S (cr_pub cr) shares (g_Threshold (cr_group cr)) (Group_Len (cr_group cr))"
    and "cache_wf S c" "GetRoundCache (pb_Round p) (pb_PreviousSig p) c = Some rc"
    and "g_Threshold (cr_group cr) \<le> roundCache_Len rc"
    and "\<forall>s \<in> snd ` set (rc_sigs rc). tbls_verify_partial S (cr_pub cr) (Message (pb_Round p) (pb_PreviousSig p)) s = None"
  obtains b where "recovered S cr p c b"
proof -
  have "distinct (map (tbls_index_of S) (roundCache_Partials rc))" using GetRoundCache_wf [OF assms(2,3)] by simp
  then obtain sig where "tbls_recover S (cr_pub cr) (Message (pb_Round p) (pb_PreviousSig p)) (roundCache_Partials rc)
        (g_Threshold (cr_group cr)) (Group_Len (cr_group cr)) = Inr sig"
      "tbls_verify_recovered S (poly_commit S (cr_pub cr)) (Message (pb_Round p) (pb_PreviousSig p)) sig = None"
    using tbls_laws_recover [OF assms(1), of "roundCache_Partials rc"] assms(4,5)
    by (auto simp: roundCache_Partials_def roundCache_Len_def)
  then have "recovered S cr p c \<lparr>b_PreviousSig = pb_PreviousSig p, b_Round = pb_Round p, b_Signature = sig\<rparr>"
    using assms(3,4) by (simp add: recovered_def VerifyBeacon_def Let_def)
  then show ?thesis by (rule that)
qed

lemma collect:
  assumes "tbls_laws S (cr_pub (cs_crypto cs)) shares (g_Threshold (cr_group (cs_crypto cs))) (Group_Len (cr_group (cs_crypto cs)))"
    and "agg_inv S l cs" "cs_last cs = l" "unat (b_Round l) + 4 < 2 ^ 64"
    and "\<forall>b. b_PreviousSig b = b_Signature l \<longrightarrow> fst (boltStore_Put b (as_Store (stack_append (cs_stack cs)))) = None"
    and "next_partials S (cr_pub (cs_crypto cs)) l ps" "\<forall>p \<in> set ps. has_room S (cs_cache cs) p"
    and "\<forall>e \<in> set (cached (b_Round l + 1) (b_Signature l) (cs_cache cs)). fst e \<notin> (\<lambda>p. tbls_index_of S (pb_PartialSig p)) ` set ps
           \<and> tbls_verify_partial S (cr_pub (cs_crypto cs)) (Message (b_Round l + 1) (b_Signature l)) (snd e) = None"
    and "int (length (cached (b_Round l + 1) (b_Signature l) (cs_cache cs))) < g_Threshold (cr_group (cs_crypto cs))"
    and "g_Threshold (cr_group (cs_crypto cs)) \<le> int (length (cached (b_Round l + 1) (b_Signature l) (cs_cache cs)) + length ps)"
  shows "\<exists>b. agg_inv S b (fold (onPartial S) ps cs) \<and> cs_last (fold (onPartial S) ps cs) = b
       \<and> b_Round b = b_Round l + 1 \<and> b_PreviousSig b = b_Signature l
       \<and> VerifyBeacon S (poly_commit S (cr_pub (cs_crypto cs))) b = None
       \<and> stack_chain (cs_stack (fold (onPartial S) ps cs)) = (stack_chain (cs_stack cs))(b_Round l + 1 \<mapsto> b)"
  using assms
proof (induction ps arbitrary: cs)
  case Nil
  then show ?case by simp
next
  case (Cons p ps)
  let ?cr = "cs_crypto cs" and ?c = "Append S p (cs_cache cs)" and ?x = "tbls_index_of S (pb_PartialSig p)"
  let ?sg = "cached (b_Round l + 1) (b_Signature l) (cs_cache cs)"
  have p: "pb_Round p = b_Round l + 1" "pb_PreviousSig p = b_Signature l"
    "tbls_verify_partial S (cr_pub ?cr) (Message (b_Round l + 1) (b_Signature l)) (pb_PartialSig p) = None"
    using Cons.prems(6) by (simp_all add: next_partials_def)
  have wf: "cache_wf S ?c" using Cons.prems(2) by (simp add: agg_inv_def Append_wf)
  have "?x \<notin> fst ` set ?sg" using Cons.prems(8) by force
  with Append_collects [of S "cs_cache cs" p] Cons.prems(7) p
  obtain rc where rc: "GetRoundCache (pb_Round p) (pb_PreviousSig p) ?c = Some rc" "rc_sigs rc = ?sg @ [(?x, pb_PartialSig p)]"
    by auto
  have sg': "cached (b_Round l + 1) (b_Signature l) ?c = ?sg @ [(?x, pb_PartialSig p)]"
    using rc p by (simp add: cached_def)
  show ?case
  proof (cases "roundCache_Len rc < g_Threshold (cr_group ?cr)")
    case True
    have eq: "onPartial S p cs = cs\<lparr>cs_cache := ?c\<rparr>"
      by (rule onPartial_below [OF _ _ rc(1) True]) (use p Cons.prems(3,4) in simp_all)
    have "\<exists>b. agg_inv S b (fold (onPartial S) ps (cs\<lparr>cs_cache := ?c\<rparr>)) \<and> cs_last (fold (onPartial S) ps (cs\<lparr>cs_cache := ?c\<rparr>)) = b
       \<and> b_Round b = b_Round l + 1 \<and> b_PreviousSig b = b_Signature l
       \<and> VerifyBeacon S (poly_commit S (cr_pub (cs_crypto (cs\<lparr>cs_cache := ?c\<rparr>)))) b = None
       \<and> stack_chain (cs_stack (fold (onPartial S) ps (cs\<lparr>cs_cache := ?c\<rparr>))) = (stack_chain (cs_stack (cs\<lparr>cs_cache := ?c\<rparr>)))(b_Round l + 1 \<mapsto> b)"
    proof (rule Cons.IH)
      show "agg_inv S l (cs\<lparr>cs_cache := ?c\<rparr>)" using Cons.prems(2) wf by simp
      show "next_partials S (cr_pub (cs_crypto (cs\<lparr>cs_cache := ?c\<rparr>))) l ps" using Cons.prems(6) by (simp add: next_partials_def)
      show "\<forall>p \<in> set ps. has_room S (cs_cache (cs\<lparr>cs_cache := ?c\<rparr>)) p"
        using Cons.prems(6) rc(1) p by (simp add: has_room_def next_partials_def)
      show "\<forall>e \<in> set (cached (b_Round l + 1) (b_Signature l) (cs_cache (cs\<lparr>cs_cache := ?c\<rparr>))).
          fst e \<notin> (\<lambda>p. tbls_index_of S (pb_PartialSig p)) ` set ps
           \<and> tbls_verify_partial S (cr_pub (cs_crypto (cs\<lparr>cs_cache := ?c\<rparr>))) (Message (b_Round l + 1) (b_Signature l)) (snd e) = None"
        using Cons.prems(6,8) p(3) by (auto simp: sg' next_partials_def)
    qed (use Cons.prems True rc sg' in \<open>auto simp: roundCache_Len_def\<close>)
    then show ?thesis by (simp add: eq)
  next
    case False
    obtain b where b: "recovered S ?cr p ?c b"
      by (rule recovered_at_threshold [OF Cons.prems(1) wf rc(1)]) (use False rc p Cons.prems(8) in auto)
    have bf: "b_Round b = b_Round l + 1" "b_PreviousSig b = b_Signature l"
      "VerifyBeacon S (poly_commit S (cr_pub ?cr)) b = None" using b p by (auto simp: recovered_def)
    have ap: "agg_inv S b (onPartial S p cs)" "cs_last (onPartial S p cs) = b"
      "stack_chain (cs_stack (onPartial S p cs)) = (stack_chain (cs_stack cs))(b_Round l + 1 \<mapsto> b)"
      using aggregator_appends_at_threshold [OF _ _ _ _ b] Cons.prems(2-5) p bf(2) by simp_all
    have "fold (onPartial S) ps (onPartial S p cs) = onPartial S p cs"
      by (rule fold_onPartial_past) (use Cons.prems(6) ap(2) bf(1) in \<open>simp add: next_partials_def\<close>)
    then show ?thesis using ap bf by simp
  qed
qed

section \<open>A round of the protocol\<close>

text \<open>The packets a node receives, in their order, and the aggregation loop emptying its channel.\<close>

definition receive_all ::
  "(float64 \<Rightarrow> uint64) \<Rightarrow> ('p, 's) suite \<Rightarrow> int \<Rightarrow> (string \<times> PartialBeaconPacket) list \<Rightarrow> ('db, 'p, 's) Handler
    \<Rightarrow> ('db, 'p, 's) Handler" where
  "receive_all impl S now = fold (\<lambda>(addr, p) h. snd (ProcessPartialBeacon impl S now addr p h))"

definition aggregate_all :: "('p, 's) suite \<Rightarrow> ('db, 'p, 's) Handler \<Rightarrow> ('db, 'p, 's) Handler" where
  "aggregate_all S h =
     h\<lparr>h_chain := fold (onPartial S) (map snd (cs_newPartials (h_chain h))) ((h_chain h)\<lparr>cs_newPartials := []\<rparr>)\<rparr>"

text \<open>The packet \<open>p\<close> is one that \<open>h\<close> sends to the node \<open>i\<close> when it ticks upon the beacon \<open>l\<close>.\<close>

definition sends :: "('p, 's) suite \<Rightarrow> roundInfo \<Rightarrow> Beacon \<Rightarrow> 'p Identity \<Rightarrow> ('db, 'p, 's) Handler \<Rightarrow> PartialBeaconPacket \<Rightarrow> bool" where
  "sends S current l i h p \<longleftrightarrow>
     (case broadcastNextPartial S current l (h\<lparr>h_sent := []\<rparr>) of
        Inl _ \<Rightarrow> False
      | Inr h' \<Rightarrow> (i, p) \<in> set (h_sent h'))"

lemma sends_packet: "sends S current l i h p \<Longrightarrow> next_packet S current l h = Inr p"
  by (auto simp: sends_def broadcastNextPartial_def next_packet_def Let_def split: sum.splits prod.splits if_splits)

lemma next_packet_valid:
  assumes "tbls_laws S pub shares t n" "Share_PrivateShare (cr_share (h_crypto h)) \<in> shares" "ri_round current \<noteq> b_Round l"
  obtains p where "next_packet S current l h = Inr p" "pb_Round p = b_Round l + 1" "pb_PreviousSig p = b_Signature l"
    "tbls_index_of S (pb_PartialSig p) = cryptoStore_Index (h_crypto h)"
    "tbls_verify_partial S pub (Message (b_Round l + 1) (b_Signature l)) (pb_PartialSig p) = None"
proof -
  obtain sig where "tbls_sign S (Share_PrivateShare (cr_share (h_crypto h))) (Message (b_Round l + 1) (b_Signature l)) = Inr sig"
    "tbls_index_of S sig = sh_I (Share_PrivateShare (cr_share (h_crypto h)))"
    "tbls_verify_partial S pub (Message (b_Round l + 1) (b_Signature l)) sig = None"
    by (rule tbls_laws_sign [OF assms(1,2), where m = "Message (b_Round l + 1) (b_Signature l)"])
  then show ?thesis
    using that [of "\<lparr>pb_Round = b_Round l + 1, pb_PreviousSig = b_Signature l, pb_PartialSig = sig\<rparr>"] assms(3)
    by (simp add: next_packet_def cryptoStore_SignPartial_def cryptoStore_Index_def Share_PrivateShare_def Let_def)
qed

text \<open>A valid packet of another node, not too far in the future, reaches the aggregation loop.\<close>

definition acceptable :: "(float64 \<Rightarrow> uint64) \<Rightarrow> ('p, 's) suite \<Rightarrow> int \<Rightarrow> ('db, 'p, 's) Handler \<Rightarrow> PartialBeaconPacket \<Rightarrow> bool" where
  "acceptable impl S now h p \<longleftrightarrow>
     pb_Round p \<le> fst (NextRound impl now (g_Period (h_group h)) (g_GenesisTime (h_group h)))
   \<and> tbls_verify_partial S (cr_pub (h_crypto h)) (Message (pb_Round p) (pb_PreviousSig p)) (pb_PartialSig p) = None
   \<and> tbls_index_of S (pb_PartialSig p) \<noteq> cryptoStore_Index (h_crypto h)"

lemma ProcessPartialBeacon_accepts:
  "acceptable impl S now h p \<Longrightarrow>
     ProcessPartialBeacon impl S now addr p h = (None, h\<lparr>h_chain := NewValidPartial addr p (h_chain h)\<rparr>)"
  by (auto simp: acceptable_def ProcessPartialBeacon_def Let_def cryptoStore_GetPub_def dest: leD)

lemma acceptable_queue [simp]:
  "acceptable impl S now (h\<lparr>h_chain := NewValidPartial addr q (h_chain h)\<rparr>) p = acceptable impl S now h p"
  by (simp add: acceptable_def NewValidPartial_def h_group_def)

lemma receive_all_accepts:
  "\<forall>(a, p) \<in> set qs. acceptable impl S now h p \<Longrightarrow>
     receive_all impl S now qs h = h\<lparr>h_chain := (h_chain h)\<lparr>cs_newPartials := cs_newPartials (h_chain h) @ qs\<rparr>\<rparr>"
proof (induction qs arbitrary: h)
  case (Cons q qs)
  obtain a p where q: "q = (a, p)" by fastforce
  have "receive_all impl S now qs (h\<lparr>h_chain := NewValidPartial a p (h_chain h)\<rparr>)
      = (h\<lparr>h_chain := NewValidPartial a p (h_chain h)\<rparr>)\<lparr>h_chain :=
          (NewValidPartial a p (h_chain h))\<lparr>cs_newPartials := cs_newPartials (NewValidPartial a p (h_chain h)) @ qs\<rparr>\<rparr>"
    using Cons.IH [of "h\<lparr>h_chain := NewValidPartial a p (h_chain h)\<rparr>"] Cons.prems by auto
  then show ?case
    using Cons.prems by (simp add: q receive_all_def ProcessPartialBeacon_accepts) (simp add: NewValidPartial_def)
qed (simp add: receive_all_def)

lemma sends_all_valid:
  assumes "list_all2 (\<lambda>h' (addr, p). sends S current l i h' p) hs qs" "tbls_laws S pub shares t n"
    and "\<forall>h' \<in> set hs. Share_PrivateShare (cr_share (h_crypto h')) \<in> shares" "ri_round current \<noteq> b_Round l"
  shows "map (\<lambda>q. tbls_index_of S (pb_PartialSig (snd q))) qs = map (\<lambda>h'. cryptoStore_Index (h_crypto h')) hs"
    and "\<forall>(a, p) \<in> set qs. pb_Round p = b_Round l + 1 \<and> pb_PreviousSig p = b_Signature l
      \<and> tbls_verify_partial S pub (Message (b_Round l + 1) (b_Signature l)) (pb_PartialSig p) = None"
proof -
  let ?ok = "\<lambda>p. pb_Round p = b_Round l + 1 \<and> pb_PreviousSig p = b_Signature l
      \<and> tbls_verify_partial S pub (Message (b_Round l + 1) (b_Signature l)) (pb_PartialSig p) = None"
  have "list_all2 (\<lambda>h' q. ?ok (snd q) \<and> tbls_index_of S (pb_PartialSig (snd q)) = cryptoStore_Index (h_crypto h')) hs qs"
  proof (rule list.rel_mono_strong [OF assms(1)])
    fix h' q assume hq: "h' \<in> set hs" "(\<lambda>(addr, p). sends S current l i h' p) q"
    obtain p where p: "next_packet S current l h' = Inr p" "?ok p"
      "tbls_index_of S (pb_PartialSig p) = cryptoStore_Index (h_crypto h')"
      by (rule next_packet_valid [OF assms(2) _ assms(4), of h']) (use assms(3) hq in auto)
    have "snd q = p" using hq(2) p(1) sends_packet by (cases q) fastforce
    then show "?ok (snd q) \<and> tbls_index_of S (pb_PartialSig (snd q)) = cryptoStore_Index (h_crypto h')"
      using p(2,3) by simp
  qed
  then show "map (\<lambda>q. tbls_index_of S (pb_PartialSig (snd q))) qs = map (\<lambda>h'. cryptoStore_Index (h_crypto h')) hs"
    and "\<forall>(a, p) \<in> set qs. ?ok p"
    by (induction rule: list_all2_induct) auto
qed

text \<open>
  C1. A round completes: when a node and enough others that share its last beacon tick, and
  their packets reach it, the node stores the beacon of the next round. The packets are those
  the others broadcast; they pass the checks of the node, and its aggregation loop recovers the
  signature, appends a beacon that names its predecessor and verifies under the group's key,
  and leaves the rest of the chain as it was, in whatever order the packets come.
\<close>

theorem round_completes:
  assumes "tbls_laws S (cr_pub (h_crypto h)) shares (g_Threshold (cr_group (h_crypto h))) (Group_Len (cr_group (h_crypto h)))"
    and "agg_inv S l (h_chain h)" "cs_last (h_chain h) = l" "cs_newPartials (h_chain h) = []"
    and "GetRoundCache (b_Round l + 1) (b_Signature l) (cs_cache (h_chain h)) = None"
    and "\<forall>idx. length (rcvd (cs_cache (h_chain h)) idx) < MaxPartialsPerNode"
    and "\<forall>b. b_PreviousSig b = b_Signature l \<longrightarrow>
            fst (boltStore_Put b (as_Store (stack_append (cs_stack (h_chain h))))) = None"
    and "unat (b_Round l) + 4 < 2 ^ 64"
    and "b_Round l + 1 \<le> fst (NextRound impl now (g_Period (h_group h)) (g_GenesisTime (h_group h)))"
    and "ri_round current \<noteq> b_Round l"
    and "\<forall>h' \<in> set (h # hs). Share_PrivateShare (cr_share (h_crypto h')) \<in> shares"
    and "distinct (map (\<lambda>h'. cryptoStore_Index (h_crypto h')) (h # hs))"
    and "list_all2 (\<lambda>h' (addr, p). sends S current l i h' p) hs qs"
    and "1 \<le> g_Threshold (cr_group (h_crypto h))" "g_Threshold (cr_group (h_crypto h)) \<le> int (length hs) + 1"
  shows "case broadcastNextPartial S current l h of
           Inl _ \<Rightarrow> False
         | Inr h1 \<Rightarrow>
             \<exists>b. cs_last (h_chain (aggregate_all S (receive_all impl S now qs h1))) = b
               \<and> b_Round b = b_Round l + 1 \<and> b_PreviousSig b = b_Signature l
               \<and> VerifyBeacon S (poly_commit S (cr_pub (h_crypto h))) b = None
               \<and> stack_chain (cs_stack (h_chain (aggregate_all S (receive_all impl S now qs h1))))
                   = (stack_chain (cs_stack (h_chain h)))(b_Round l + 1 \<mapsto> b)"
proof -
  let ?pub = "cr_pub (h_crypto h)" and ?idx = "\<lambda>p. tbls_index_of S (pb_PartialSig p)"
  obtain p0 where p0: "next_packet S current l h = Inr p0" "pb_Round p0 = b_Round l + 1" "pb_PreviousSig p0 = b_Signature l"
    "?idx p0 = cryptoStore_Index (h_crypto h)"
    "tbls_verify_partial S ?pub (Message (b_Round l + 1) (b_Signature l)) (pb_PartialSig p0) = None"
    by (rule next_packet_valid [OF assms(1) _ assms(10)]) (use assms(11) in auto)
  have "\<forall>h' \<in> set hs. Share_PrivateShare (cr_share (h_crypto h')) \<in> shares" using assms(11) by simp
  note qs = sends_all_valid [OF assms(13,1) this assms(10)]
  note idx = qs(1)
  have valid: "\<forall>(a, p) \<in> set qs. pb_Round p = b_Round l + 1 \<and> pb_PreviousSig p = b_Signature l
      \<and> tbls_verify_partial S ?pub (Message (b_Round l + 1) (b_Signature l)) (pb_PartialSig p) = None" by (rule qs(2))
  have len: "length qs = length hs" using assms(13) by (simp add: list_all2_lengthD)
  have other: "\<forall>(a, p) \<in> set qs. ?idx p \<noteq> cryptoStore_Index (h_crypto h)"
    using assms(12) by (force simp flip: idx)
  let ?h1 = "h\<lparr>h_chain := NewValidPartial (h_addr h) p0 (h_chain h),
       h_sent := h_sent h @ map (\<lambda>i. (i, p0)) (filter (\<lambda>i. h_addr h \<noteq> Identity_Address i)
                   (map node_Identity (g_Nodes (cryptoStore_GetGroup (h_crypto h)))))\<rparr>"
  have b1: "broadcastNextPartial S current l h = Inr ?h1" by (simp add: broadcastNextPartial_def p0(1))
  have acc: "\<forall>(a, p) \<in> set qs. acceptable impl S now ?h1 p"
    using valid other assms(9) by (auto simp: acceptable_def NewValidPartial_def h_group_def)
  let ?cs = "(h_chain h)\<lparr>cs_newPartials := []\<rparr>"
  have fin: "h_chain (aggregate_all S (receive_all impl S now qs ?h1)) = fold (onPartial S) (p0 # map snd qs) ?cs"
    unfolding receive_all_accepts [OF acc] by (simp add: aggregate_all_def NewValidPartial_def assms(4))
  have np: "next_partials S ?pub l (p0 # map snd qs)"
    using valid p0 assms(12) by (auto simp: next_partials_def o_def idx simp flip: p0(4))
  have "\<exists>b. agg_inv S b (fold (onPartial S) (p0 # map snd qs) ?cs) \<and> cs_last (fold (onPartial S) (p0 # map snd qs) ?cs) = b
       \<and> b_Round b = b_Round l + 1 \<and> b_PreviousSig b = b_Signature l
       \<and> VerifyBeacon S (poly_commit S (cr_pub (cs_crypto ?cs))) b = None
       \<and> stack_chain (cs_stack (fold (onPartial S) (p0 # map snd qs) ?cs)) = (stack_chain (cs_stack ?cs))(b_Round l + 1 \<mapsto> b)"
    by (rule collect) (use assms np len in \<open>simp_all add: agg_inv_def cached_def has_room_def\<close>)
  then show ?thesis unfolding b1 sum.case fin by auto
qed

lemma plain_tbls_laws: "tbls_laws plain_suite [[3], [4]] {sh. 0 \<le> sh_I sh \<and> sh_I sh < 65536} t n"
  by (auto simp: tbls_laws_def plain_suite_def be_val_be_bytes)

text \<open>Two nodes of the example group, at the genesis beacon.\<close>

definition example_handler :: "int \<Rightarrow> string \<Rightarrow> ((bytes \<times> bytes) list, bytes, bytes) Handler" where
  "example_handler k addr =
     \<lparr>h_conf = \<lparr>cf_Public = hd (g_Nodes example_group), cf_Share = None, cf_Group = Some example_group\<rparr>,
      h_chain = example_chainStore\<lparr>cs_cache := newPartialCache,
        cs_crypto := example_crypto\<lparr>cr_share := \<lparr>Commits = [[3], [4]], share_Share = \<lparr>sh_I = k, sh_V = [5]\<rparr>\<rparr>\<rparr>\<rparr>,
      h_ticker = newTicker (30 * Second) 1600000000, h_addr = addr, h_stopped = False, h_run = [], h_loops = [],
      h_sync = [], h_delayed = [], h_sent = [], h_transition = None\<rparr>"

lemma example_handler_facts:
  "agg_inv plain_suite genesis_beacon (h_chain (example_handler k addr))" "cs_last (h_chain (example_handler k addr)) = genesis_beacon"
  "cs_newPartials (h_chain (example_handler k addr)) = []" "cs_cache (h_chain (example_handler k addr)) = newPartialCache"
  "cr_pub (h_crypto (example_handler k addr)) = [[3], [4]]" "cr_group (h_crypto (example_handler k addr)) = example_group"
  "as_Store (stack_append (cs_stack (h_chain (example_handler k addr)))) = genesis_store"
  "h_group (example_handler k addr) = example_group" "h_addr (example_handler k addr) = addr"
  "cryptoStore_Index (h_crypto (example_handler k addr)) = k"
  "Share_PrivateShare (cr_share (h_crypto (example_handler k addr))) = \<lparr>sh_I = k, sh_V = [5]\<rparr>"
proof -
  show "agg_inv plain_suite genesis_beacon (h_chain (example_handler k addr))"
    using example_chainStore_inv cache_wf_new [of plain_suite] by (simp add: agg_inv_def example_handler_def)
qed (simp_all add: example_handler_def example_chainStore_def example_crypto_def h_group_def stack_append_def
      NewCallbackStore_def newDiscrepancyStore_def newAppendStore_def callbackStore_AddCallback_def
      cryptoStore_Index_def Share_PrivateShare_def)

theorem round_completes_witness:
  "\<exists>p h1 b. sends plain_suite \<lparr>ri_round = 1, ri_time = 1600000000\<rparr> genesis_beacon
        (node_Identity (hd (g_Nodes example_group))) (example_handler 1 ''a:1'') p
     \<and> broadcastNextPartial plain_suite \<lparr>ri_round = 1, ri_time = 1600000000\<rparr> genesis_beacon (example_handler 0 ''b:1'') = Inr h1
     \<and> stack_chain (cs_stack (h_chain (aggregate_all plain_suite (receive_all (\<lambda>_. 0) plain_suite 1500000000 [(''a:1'', p)] h1)))) 1 = Some b"
proof -
  let ?t = "\<lparr>ri_round = 1, ri_time = 1600000000\<rparr> :: roundInfo" and ?h = "example_handler 0 ''b:1''" and ?h' = "example_handler 1 ''a:1''"
  let ?i = "node_Identity (hd (g_Nodes example_group))"
  obtain p where p: "next_packet plain_suite ?t genesis_beacon ?h' = Inr p"
    by (rule next_packet_valid [OF plain_tbls_laws, of ?h' ?t genesis_beacon])
      (simp_all add: example_handler_facts genesis_beacon_def)
  have "Identity_Address ?i = ''b:1''" by (simp add: example_group_def LoadGroup_def Identity_Address_def)
  moreover have "?i \<in> node_Identity ` set (g_Nodes example_group)" by (simp add: example_group_def LoadGroup_def)
  moreover have "next_packet plain_suite ?t genesis_beacon (?h'\<lparr>h_sent := []\<rparr>) = Inr p"
    using p by (simp add: next_packet_def)
  ultimately have snt: "sends plain_suite ?t genesis_beacon ?i ?h' p"
    by (auto simp: sends_def broadcastNextPartial_def example_handler_facts cryptoStore_GetGroup_def)
  have db: "\<forall>b. b_PreviousSig b = b_Signature genesis_beacon \<longrightarrow>
      fst (boltStore_Put b (as_Store (stack_append (cs_stack (h_chain ?h))))) = None"
  proof (intro allI impI)
    fix b :: Beacon assume "b_PreviousSig b = b_Signature genesis_beacon"
    then show "fst (boltStore_Put b (as_Store (stack_append (cs_stack (h_chain ?h))))) = None"
      using list_bolt_Put [OF genesis_store_facts(4,5), of b] by (auto simp: example_handler_facts genesis_beacon_def)
  qed
  have "case broadcastNextPartial plain_suite ?t genesis_beacon ?h of
           Inl _ \<Rightarrow> False
         | Inr h1 \<Rightarrow>
             \<exists>b. cs_last (h_chain (aggregate_all plain_suite (receive_all (\<lambda>_. 0) plain_suite 1500000000 [(''a:1'', p)] h1))) = b
               \<and> b_Round b = b_Round genesis_beacon + 1 \<and> b_PreviousSig b = b_Signature genesis_beacon
               \<and> VerifyBeacon plain_suite (poly_commit plain_suite (cr_pub (h_crypto ?h))) b = None
               \<and> stack_chain (cs_stack (h_chain (aggregate_all plain_suite (receive_all (\<lambda>_. 0) plain_suite 1500000000 [(''a:1'', p)] h1))))
                   = (stack_chain (cs_stack (h_chain ?h)))(b_Round genesis_beacon + 1 \<mapsto> b)"
    by (rule round_completes [OF plain_tbls_laws [folded example_handler_facts(5) [of 0 "''b:1''"]]
          example_handler_facts(1-3) _ _ db, where hs = "[?h']" and i = ?i])
      (simp_all add: example_handler_facts genesis_beacon_def GetRoundCache_def newPartialCache_def rcvd_def
        MaxPartialsPerNode_def NextRound_def snt [unfolded genesis_beacon_def], simp_all add: example_group_def LoadGroup_def)
  then show ?thesis using snt by (force simp: genesis_beacon_def split: sum.splits)
qed

section \<open>Restarting and transitions\<close>

lemma chain_ok_genesis:
  assumes "bolt_invar s" "boltStore_Put b s = (None, s')" "b_Round b = 0"
    and "bolt_contents s = Map.empty \<or> (\<exists>hi. chain_ok (bolt_contents s) hi \<and> bolt_contents s 0 = Some b)"
  obtains l where "bolt_invar s'" "bolt_contents s' = (bolt_contents s)(0 \<mapsto> b)" "boltStore_Last s' = Inr l"
    "bolt_contents s' (b_Round l) = Some l" "chain_ok (bolt_contents s') (b_Round l)"
proof -
  have i: "bolt_invar s'" using bolt_Put_invar [OF assms(1), of b] assms(2) by simp
  have c: "bolt_contents s' = (bolt_contents s)(0 \<mapsto> b)" using bolt_Put_ok [OF assms(1,2)] assms(3) by simp
  obtain hi where hi: "chain_ok (bolt_contents s') hi"
    using assms(4)
  proof
    assume "bolt_contents s = Map.empty"
    then have "chain_ok (bolt_contents s') 0" by (simp add: c chain_ok_def)
    then show ?thesis by (rule that)
  next
    assume "\<exists>hi. chain_ok (bolt_contents s) hi \<and> bolt_contents s 0 = Some b"
    then show ?thesis using that c by (auto simp: fun_upd_idem)
  qed
  then have d: "dom (bolt_contents s') = {0..hi}" by (simp add: chain_ok_def)
  then obtain l where l: "bolt_contents s' hi = Some l" by (metis atLeastAtMost_iff domD order_refl word_zero_le)
  have r: "b_Round l = hi" using bolt_filed [of s'] l i by (simp add: filed_def)
  have "Max {0..hi} = hi" by (rule Max_eqI) auto
  then have "boltStore_Last s' = Inr l" using l d by (simp add: bolt_Last_spec [OF i] greatest_def)
  then show ?thesis using that [of l] i c l hi r by simp
qed

text \<open>
  C14. Starting on a database: a handler is only made for a node of its group; on an empty
  database it starts a chain with the genesis beacon, and on the database of an earlier run of
  the same chain it finds the whole chain again, with its last beacon, and keeps it unbroken.
\<close>

theorem NewHandler_restores_the_chain:
  assumes "bolt_invar s" "NewHandler S now s conf = Inr h"
    and "bolt_contents s = Map.empty
       \<or> (\<exists>hi. chain_ok (bolt_contents s) hi \<and> bolt_contents s 0 = Some (GenesisBeacon (cr_chain (h_crypto h))))"
  shows "agg_inv S (cs_last (h_chain h)) (h_chain h)
       \<and> stack_chain (cs_stack (h_chain h)) = (bolt_contents s)(0 \<mapsto> GenesisBeacon (cr_chain (h_crypto h)))
       \<and> (\<exists>g. cf_Group conf = Some g \<and> Group_Find S g (node_Identity (cf_Public conf)) \<noteq> None)"
proof -
  obtain ks g node crypto s' where
    c: "cf_Share conf = Some ks" "cf_Group conf = Some g" "Group_Find S g (node_Identity (cf_Public conf)) = Some node"
      "newCryptoStore S g ks = Inr crypto" "boltStore_Put (GenesisBeacon (cr_chain crypto)) s = (None, s')"
      "newChainStore crypto now s' = Inr (h_chain h)"
    using assms(2) by (auto simp: NewHandler_def split: option.splits sum.splits prod.splits)
  obtain lst where lst: "boltStore_Last s' = Inr lst" using c(6) by (auto simp: newChainStore_def Let_def split: sum.splits)
  have k: "h_crypto h = crypto" "cs_last (h_chain h) = lst" "cs_cache (h_chain h) = newPartialCache"
    "stack_append (cs_stack (h_chain h)) = \<lparr>as_Store = s', as_last = Some lst\<rparr>"
    using c(6) [symmetric] lst by (simp_all add: newChainStore_def Let_def stack_append_def NewCallbackStore_def newDiscrepancyStore_def
        newAppendStore_def callbackStore_AddCallback_def)
  obtain l where l: "bolt_invar s'" "bolt_contents s' = (bolt_contents s)(0 \<mapsto> GenesisBeacon (cr_chain crypto))"
    "boltStore_Last s' = Inr l" "bolt_contents s' (b_Round l) = Some l" "chain_ok (bolt_contents s') (b_Round l)"
    by (rule chain_ok_genesis [OF assms(1) c(5)]) (use assms(3) k(1) in \<open>simp_all add: GenesisBeacon_def\<close>)
  have "lst = l" using lst l(3) by simp
  then show ?thesis
    using l c k cache_wf_new by (simp add: agg_inv_def stack_inv_def stack_chain_def)
qed

definition example_conf :: "(bytes, bytes) Config" where
  "example_conf = \<lparr>cf_Public = hd (g_Nodes example_group), cf_Share = Some \<lparr>Commits = [[3], [4]], share_Share = \<lparr>sh_I = 0, sh_V = [5]\<rparr>\<rparr>,
     cf_Group = Some example_group\<rparr>"

theorem NewHandler_restores_the_chain_witness:
  "\<exists>h. NewHandler plain_suite 0 example_store example_conf = Inr h \<and> agg_inv plain_suite (cs_last (h_chain h)) (h_chain h)"
proof -
  have f: "Group_Find plain_suite example_group (node_Identity (hd (g_Nodes example_group))) \<noteq> None"
    by (simp add: Group_Find_def example_group_def LoadGroup_def Identity_Equal_def plain_suite_def)
  obtain cr where cr: "newCryptoStore plain_suite example_group \<lparr>Commits = [[3], [4]], share_Share = \<lparr>sh_I = 0, sh_V = [5]\<rparr>\<rparr> = Inr cr"
    by (simp add: newCryptoStore_def NewChainInfo_def DistPublic_Key_def example_group_def LoadGroup_def
        Group_GetGenesisSeed_def Group_Hash_def Let_def)
  obtain s' where s': "boltStore_Put (GenesisBeacon (cr_chain cr)) example_store = (None, s')"
    using list_bolt_Put [of example_store "GenesisBeacon (cr_chain cr)"] by (auto simp: example_store_def GenesisBeacon_def)
  obtain l where "boltStore_Last s' = Inr l"
    by (rule chain_ok_genesis [OF example_store_invar s']) (simp_all add: GenesisBeacon_def example_store_empty)
  then obtain h where h: "NewHandler plain_suite 0 example_store example_conf = Inr h"
    using f cr s' by (auto simp: NewHandler_def example_conf_def newChainStore_def Let_def)
  then show ?thesis
    using NewHandler_restores_the_chain [OF example_store_invar h] by (simp add: example_store_empty)
qed

text \<open>The calls of the transition callback, which may come after its removal from the queue of jobs.\<close>

fun run_transition :: "Beacon list \<Rightarrow> ('db, 'p, 's) Handler \<Rightarrow> ('db, 'p, 's) Handler result" where
  "run_transition [] h = Inr h"
| "run_transition (b # bs) h = (case on_transition b h of Inl e \<Rightarrow> Inl e | Inr h \<Rightarrow> run_transition bs h)"

lemma run_transition_crypto:
  assumes "h_transition h = Some (target, ng, ns)" "g_PublicKey ng = Some d"
    and "h_crypto h = cr \<or> h_crypto h = cr\<lparr>cr_share := ns, cr_group := ng, cr_pub := DistPublic_PubPoly d\<rparr>"
  shows "\<exists>h'. run_transition bs h = Inr h'
       \<and> h_crypto h' = (if \<exists>b \<in> set bs. target \<le> b_Round b
                        then cr\<lparr>cr_share := ns, cr_group := ng, cr_pub := DistPublic_PubPoly d\<rparr> else h_crypto h)
       \<and> stack_append (cs_stack (h_chain h')) = stack_append (cs_stack (h_chain h))"
  using assms
proof (induction bs arbitrary: h)
  case (Cons b bs)
  show ?case
  proof (cases "b_Round b < target")
    case True
    then show ?thesis using Cons.IH [OF Cons.prems] Cons.prems(1) by (auto simp: on_transition_def)
  next
    case False
    let ?cr = "cr\<lparr>cr_share := ns, cr_group := ng, cr_pub := DistPublic_PubPoly d\<rparr>"
    let ?h = "h\<lparr>h_chain := (h_chain h)\<lparr>cs_crypto := ?cr,
                cs_stack := callbackStore_RemoveCallback ''transition'' (cs_stack (h_chain h))\<rparr>\<rparr>"
    have "on_transition b h = Inr ?h"
      using Cons.prems False by (auto simp: on_transition_def cryptoStore_SetInfo_def Let_def)
    moreover have "stack_append (cs_stack (h_chain ?h)) = stack_append (cs_stack (h_chain h))"
      by (simp add: stack_append_def callbackStore_RemoveCallback_def)
    moreover have "\<exists>h'. run_transition bs ?h = Inr h'
       \<and> h_crypto h' = (if \<exists>b \<in> set bs. target \<le> b_Round b then ?cr else h_crypto ?h)
       \<and> stack_append (cs_stack (h_chain h')) = stack_append (cs_stack (h_chain ?h))"
      by (rule Cons.IH) (use Cons.prems in simp_all)
    ultimately show ?thesis using False by (auto simp: not_less)
  qed
qed simp

text \<open>
  C8. A resharing takes over at its time: after \<open>TransitionNewGroup\<close> the node signs with its old
  share while the stored beacons are before the round that precedes the transition, and with
  the new share, under the new group and its polynomial, from the moment that round or a later
  one is stored; the round after it is the one whose time is the transition time; neither the
  chain nor its information changes. A transition time that is not the time of a round stops
  the program.
\<close>

theorem transition_takes_over_at_its_round:
  assumes "g_PublicKey ng = Some d" "h_crypto h = cr"
  shows "let g = h_group h;
             r = CurrentRound impl (g_TransitionTime ng) (g_Period g) (g_GenesisTime g)
         in case TransitionNewGroup impl ns ng h of
              Inl e \<Rightarrow> TimeOfRound (g_Period g) (g_GenesisTime g) r \<noteq> g_TransitionTime ng
            | Inr h1 \<Rightarrow>
                TimeOfRound (g_Period g) (g_GenesisTime g) r = g_TransitionTime ng
              \<and> (\<exists>h2. run_transition bs h1 = Inr h2
                   \<and> h_crypto h2 = (if \<exists>b \<in> set bs. r - 1 \<le> b_Round b
                                    then \<lparr>cr_share = ns, cr_pub = DistPublic_PubPoly d, cr_chain = cr_chain cr, cr_group = ng\<rparr>
                                    else cr)
                   \<and> stack_chain (cs_stack (h_chain h2)) = stack_chain (cs_stack (h_chain h)))"
proof -
  let ?g = "h_group h"
  let ?r = "CurrentRound impl (g_TransitionTime ng) (g_Period ?g) (g_GenesisTime ?g)"
  show ?thesis
  proof (cases "TimeOfRound (g_Period ?g) (g_GenesisTime ?g) ?r = g_TransitionTime ng")
    case True
    let ?h1 = "h\<lparr>h_chain := (h_chain h)\<lparr>cs_stack := callbackStore_AddCallback ''transition'' TransitionCb (cs_stack (h_chain h))\<rparr>,
                     h_transition := Some (?r - 1, ng, ns)\<rparr>"
    have t: "TransitionNewGroup impl ns ng h = Inr ?h1" using True by (simp add: TransitionNewGroup_def Let_def)
    have a: "stack_append (cs_stack (h_chain ?h1)) = stack_append (cs_stack (h_chain h))"
      by (simp add: stack_append_def callbackStore_AddCallback_def)
    have "cr\<lparr>cr_share := ns, cr_group := ng, cr_pub := DistPublic_PubPoly d\<rparr>
        = \<lparr>cr_share = ns, cr_pub = DistPublic_PubPoly d, cr_chain = cr_chain cr, cr_group = ng\<rparr>" by simp
    then show ?thesis
      using run_transition_crypto [of ?h1 "?r - 1" ng ns d cr bs] assms True a by (auto simp: t Let_def stack_chain_def)
  next
    case False
    then show ?thesis by (simp add: TransitionNewGroup_def Let_def)
  qed
qed

theorem transition_takes_over_at_its_round_witness:
  "\<exists>h1 h2. TransitionNewGroup (\<lambda>_. 0) \<lparr>Commits = [[3], [4]], share_Share = \<lparr>sh_I = 9, sh_V = [6]\<rparr>\<rparr>
        (example_group\<lparr>g_TransitionTime := 1600000030\<rparr>) (example_handler 0 ''b:1'') = Inr h1
     \<and> run_transition [first_beacon] h1 = Inr h2 \<and> cryptoStore_Index (h_crypto h2) = 9"
proof -
  let ?ns = "\<lparr>Commits = [[3], [4]], share_Share = \<lparr>sh_I = 9, sh_V = [6]\<rparr>\<rparr> :: (bytes, bytes) Share"
  let ?ng = "example_group\<lparr>g_TransitionTime := 1600000030\<rparr>" and ?h = "example_handler 0 ''b:1''"
  have P: "period_ok 30" "genesis_ok 1600000000" by (simp_all add: period_ok_def genesis_ok_def)
  have g: "g_Period example_group = 30 * Second" "g_GenesisTime example_group = 1600000000"
    by (simp_all add: example_group_def LoadGroup_def)
  have r: "CurrentRound (\<lambda>_. 0) 1600000030 (30 * Second) 1600000000 = 2"
    using CurrentRound_whole [OF P, of 1600000030 "\<lambda>_. 0"] by (simp add: to_uint64_def)
  have t: "TimeOfRound (30 * Second) 1600000000 2 = 1600000030"
    using TimeOfRound_small [OF P, of 1] by (simp add: to_uint64_def)
  have d: "g_PublicKey ?ng = Some \<lparr>Coefficients = [[3], [4]]\<rparr>" by (simp add: example_group_def LoadGroup_def)
  obtain h1 h2 where "TransitionNewGroup (\<lambda>_. 0) ?ns ?ng ?h = Inr h1" "run_transition [first_beacon] h1 = Inr h2"
    "cr_share (h_crypto h2) = ?ns"
    using transition_takes_over_at_its_round [OF d refl, where h = ?h and impl = "\<lambda>_. 0" and ns = ?ns and bs = "[first_beacon]"] r t
    by (cases "TransitionNewGroup (\<lambda>_. 0) ?ns ?ng ?h") (auto simp: Let_def example_handler_facts g first_beacon_def)
  then show ?thesis by (simp add: cryptoStore_Index_def)
qed

end
