(* ===== verification/Dkg_Broadcast.thy ===== *)
theory Dkg_Broadcast
  imports Key_Group
begin

text \<open>
  \<open>src/core/broadcast.go\<close> and the packets of \<open>src/core/convert.go\<close>: how the packets of the
  distributed key generation travel. A node sends its own packets to all the others and echoes
  each packet of another node once. The hash of a packet and the check of its signature belong
  to the library that runs the protocol and are parameters.
\<close>

section \<open>Packets\<close>

record Deal =
  dl_ShareIndex :: uint32
  dl_EncryptedShare :: bytes

record 'p DealBundle =
  db_DealerIndex :: uint32
  db_Deals :: "Deal list"
  db_Public :: "'p list"
  db_SessionID :: bytes
  db_Signature :: bytes

record Response =
  rs_DealerIndex :: uint32
  rs_Status :: bool

record ResponseBundle =
  rb_ShareIndex :: uint32
  rb_Responses :: "Response list"
  rb_SessionID :: bytes
  rb_Signature :: bytes

record 's Justification =
  ju_ShareIndex :: uint32
  ju_Share :: 's

record 's JustificationBundle =
  jb_DealerIndex :: uint32
  jb_Justifications :: "'s Justification list"
  jb_SessionID :: bytes
  jb_Signature :: bytes

datatype ('p, 's) dkg_packet =
  DealPacket "'p DealBundle" | ResponsePacket ResponseBundle | JustificationPacket "'s JustificationBundle"

text \<open>The messages on the wire: points and scalars are bytes.\<close>

type_synonym pdkg_packet = "(bytes, bytes) dkg_packet"

section \<open>Conversions\<close>

definition protoToDeal :: "('p, 's) suite \<Rightarrow> bytes DealBundle \<Rightarrow> 'p DealBundle result" where
  "protoToDeal S d =
     (case mapE (\<lambda>c. case pt_unmarshal S c of Inl e \<Rightarrow> Inl (Wrap ''invalid public coeff:%s'' e) | Inr p \<Rightarrow> Inr p) (db_Public d) of
        Inl e \<Rightarrow> Inl e
      | Inr publics \<Rightarrow>
          Inr \<lparr>db_DealerIndex = db_DealerIndex d,
               db_Deals = map (\<lambda>dd. \<lparr>dl_ShareIndex = dl_ShareIndex dd, dl_EncryptedShare = dl_EncryptedShare dd\<rparr>) (db_Deals d),
               db_Public = publics, db_SessionID = db_SessionID d, db_Signature = db_Signature d\<rparr>)"

definition protoToResp :: "ResponseBundle \<Rightarrow> ResponseBundle" where
  "protoToResp r =
     \<lparr>rb_ShareIndex = rb_ShareIndex r,
      rb_Responses = map (\<lambda>rr. \<lparr>rs_DealerIndex = rs_DealerIndex rr, rs_Status = rs_Status rr\<rparr>) (rb_Responses r),
      rb_SessionID = rb_SessionID r, rb_Signature = rb_Signature r\<rparr>"

definition protoToJustif :: "('p, 's) suite \<Rightarrow> bytes JustificationBundle \<Rightarrow> 's JustificationBundle result" where
  "protoToJustif S j =
     (case mapE (\<lambda>jj. case sc_unmarshal S (ju_Share jj) of
                        Inl e \<Rightarrow> Inl (Wrap ''invalid share: %s'' e)
                      | Inr share \<Rightarrow> Inr \<lparr>ju_ShareIndex = ju_ShareIndex jj, ju_Share = share\<rparr>) (jb_Justifications j) of
        Inl e \<Rightarrow> Inl e
      | Inr js \<Rightarrow>
          Inr \<lparr>jb_DealerIndex = jb_DealerIndex j, jb_Justifications = js, jb_SessionID = jb_SessionID j,
               jb_Signature = jb_Signature j\<rparr>)"

text \<open>No value stands for a packet without a bundle.\<close>

definition protoToDKGPacket :: "('p, 's) suite \<Rightarrow> pdkg_packet option \<Rightarrow> ('p, 's) dkg_packet result" where
  "protoToDKGPacket S d =
     (case d of
        Some (DealPacket deal) \<Rightarrow> map_sum id DealPacket (protoToDeal S deal)
      | Some (ResponsePacket resp) \<Rightarrow> Inr (ResponsePacket (protoToResp resp))
      | Some (JustificationPacket just) \<Rightarrow> map_sum id JustificationPacket (protoToJustif S just)
      | None \<Rightarrow> Inl (Err ''unknown packet''))"

definition dealToProto :: "('p, 's) suite \<Rightarrow> 'p DealBundle \<Rightarrow> pdkg_packet" where
  "dealToProto S d =
     DealPacket \<lparr>db_DealerIndex = db_DealerIndex d,
       db_Deals = map (\<lambda>deal. \<lparr>dl_ShareIndex = dl_ShareIndex deal, dl_EncryptedShare = dl_EncryptedShare deal\<rparr>) (db_Deals d),
       db_Public = map (pt_marshal S) (db_Public d), db_SessionID = db_SessionID d, db_Signature = db_Signature d\<rparr>"

definition respToProto :: "ResponseBundle \<Rightarrow> pdkg_packet" where
  "respToProto r =
     ResponsePacket \<lparr>rb_ShareIndex = rb_ShareIndex r,
       rb_Responses = map (\<lambda>resp. \<lparr>rs_DealerIndex = rs_DealerIndex resp, rs_Status = rs_Status resp\<rparr>) (rb_Responses r),
       rb_SessionID = rb_SessionID r, rb_Signature = rb_Signature r\<rparr>"

definition justifToProto :: "('p, 's) suite \<Rightarrow> 's JustificationBundle \<Rightarrow> pdkg_packet" where
  "justifToProto S j =
     JustificationPacket \<lparr>jb_DealerIndex = jb_DealerIndex j,
       jb_Justifications = map (\<lambda>just. \<lparr>ju_ShareIndex = ju_ShareIndex just, ju_Share = sc_marshal S (ju_Share just)\<rparr>) (jb_Justifications j),
       jb_SessionID = jb_SessionID j, jb_Signature = jb_Signature j\<rparr>"

definition dkgPacketToProto :: "('p, 's) suite \<Rightarrow> ('p, 's) dkg_packet \<Rightarrow> pdkg_packet" where
  "dkgPacketToProto S p =
     (case p of
        DealPacket inner \<Rightarrow> dealToProto S inner
      | ResponsePacket inner \<Rightarrow> respToProto inner
      | JustificationPacket inner \<Rightarrow> justifToProto S inner)"

section \<open>The set of hashes\<close>

record arraySet =
  ar_hashes :: "bytes list"

definition arraySet_put :: "bytes \<Rightarrow> arraySet \<Rightarrow> arraySet" where
  "arraySet_put h a = (if find (\<lambda>x. x = h) (ar_hashes a) \<noteq> None then a else a\<lparr>ar_hashes := ar_hashes a @ [h]\<rparr>)"

definition arraySet_exists :: "bytes \<Rightarrow> arraySet \<Rightarrow> bool" where
  "arraySet_exists h a = (find (\<lambda>x. x = h) (ar_hashes a) \<noteq> None)"

section \<open>Senders and the dispatcher\<close>

definition maxQueueSize :: int where
  "maxQueueSize = 1000"

definition senderQueueSize :: "int \<Rightarrow> int" where
  "senderQueueSize nodes = (if maxQueueSize < nodes then maxQueueSize else nodes)"

text \<open>
  \<open>sd_newCh\<close> is the channel of the sender, of capacity \<open>sd_cap\<close>; \<open>sd_sent\<close> lists the packets
  given to the network.
\<close>

record sender =
  sd_to :: string
  sd_newCh :: "pdkg_packet list"
  sd_cap :: int
  sd_sent :: "pdkg_packet list"
  sd_closed :: bool

definition newSender :: "string \<Rightarrow> int \<Rightarrow> sender" where
  "newSender dest queueSize = \<lparr>sd_to = dest, sd_newCh = [], sd_cap = queueSize, sd_sent = [], sd_closed = False\<rparr>"

definition sender_sendPacket :: "pdkg_packet \<Rightarrow> sender \<Rightarrow> sender result" where
  "sender_sendPacket p s =
     (if sd_closed s then Inl (Panic ''send on closed channel'')
      else if int (length (sd_newCh s)) < sd_cap s then Inr (s\<lparr>sd_newCh := sd_newCh s @ [p]\<rparr>) else Inr s)"

definition sender_sendDirect :: "pdkg_packet \<Rightarrow> sender \<Rightarrow> sender" where
  "sender_sendDirect p s = s\<lparr>sd_sent := sd_sent s @ [p]\<rparr>"

text \<open>One iteration of the loop of a sender; no value means that it waits.\<close>

definition sender_run :: "sender \<Rightarrow> sender option" where
  "sender_run s = (case sd_newCh s of [] \<Rightarrow> None | p # rest \<Rightarrow> Some (sender_sendDirect p (s\<lparr>sd_newCh := rest\<rparr>)))"

definition sender_stop :: "sender \<Rightarrow> sender result" where
  "sender_stop s = (if sd_closed s then Inl (Panic ''close of closed channel'') else Inr (s\<lparr>sd_closed := True\<rparr>))"

definition newDispatcher :: "'p Node list \<Rightarrow> string \<Rightarrow> sender list" where
  "newDispatcher dests us =
     map (\<lambda>node. newSender (Identity_Address (node_Identity node)) (senderQueueSize (int (length dests))))
       (filter (\<lambda>node. Identity_Address (node_Identity node) \<noteq> us) dests)"

text \<open>\<open>perm\<close> is the random permutation of the positions of the senders.\<close>

definition dispatcher_broadcast :: "nat list \<Rightarrow> pdkg_packet \<Rightarrow> sender list \<Rightarrow> sender list result" where
  "dispatcher_broadcast perm p ds =
     fold (\<lambda>i r. case r of Inl e \<Rightarrow> Inl e
                 | Inr ds \<Rightarrow> map_sum id (\<lambda>s. ds[i := s]) (sender_sendPacket p (ds ! i))) perm (Inr ds)"

definition dispatcher_broadcastDirect :: "nat list \<Rightarrow> pdkg_packet \<Rightarrow> sender list \<Rightarrow> sender list" where
  "dispatcher_broadcastDirect perm p ds = fold (\<lambda>i ds. ds[i := sender_sendDirect p (ds ! i)]) perm ds"

definition dispatcher_stop :: "sender list \<Rightarrow> sender list result" where
  "dispatcher_stop ds = mapE sender_stop ds"

section \<open>The echo broadcast\<close>

text \<open>
  \<open>eb_app\<close> is what the channels \<open>dealCh\<close>, \<open>respCh\<close> and \<open>justCh\<close> carry to the protocol, in the
  order of the sends; \<open>eb_dealCh\<close> and the other two select one kind.
\<close>

record ('p, 's) echoBroadcast =
  eb_dispatcher :: "sender list"
  eb_hashes :: arraySet
  eb_app :: "('p, 's) dkg_packet list"

definition eb_dealCh :: "('p, 's) echoBroadcast \<Rightarrow> 'p DealBundle list" where
  "eb_dealCh b = List.map_filter (\<lambda>p. case p of DealPacket x \<Rightarrow> Some x | _ \<Rightarrow> None) (eb_app b)"

definition eb_respCh :: "('p, 's) echoBroadcast \<Rightarrow> ResponseBundle list" where
  "eb_respCh b = List.map_filter (\<lambda>p. case p of ResponsePacket x \<Rightarrow> Some x | _ \<Rightarrow> None) (eb_app b)"

definition eb_justCh :: "('p, 's) echoBroadcast \<Rightarrow> 's JustificationBundle list" where
  "eb_justCh b = List.map_filter (\<lambda>p. case p of JustificationPacket x \<Rightarrow> Some x | _ \<Rightarrow> None) (eb_app b)"

definition newEchoBroadcast :: "string \<Rightarrow> 'p Node list \<Rightarrow> ('p, 's) echoBroadcast" where
  "newEchoBroadcast own dests = \<lparr>eb_dispatcher = newDispatcher dests own, eb_hashes = \<lparr>ar_hashes = []\<rparr>, eb_app = []\<rparr>"

definition sendout ::
  "('p, 's) suite \<Rightarrow> nat list \<Rightarrow> bytes \<Rightarrow> ('p, 's) dkg_packet \<Rightarrow> bool \<Rightarrow> ('p, 's) echoBroadcast
    \<Rightarrow> ('p, 's) echoBroadcast result" where
  "sendout S perm h p bypass b =
     (let proto = dkgPacketToProto S p;
          b = b\<lparr>eb_hashes := arraySet_put h (eb_hashes b)\<rparr>
      in if bypass then Inr (b\<lparr>eb_dispatcher := dispatcher_broadcastDirect perm proto (eb_dispatcher b)\<rparr>)
         else map_sum id (\<lambda>ds. b\<lparr>eb_dispatcher := ds\<rparr>) (dispatcher_broadcast perm proto (eb_dispatcher b)))"

definition passToApplication :: "('p, 's) dkg_packet \<Rightarrow> ('p, 's) echoBroadcast \<Rightarrow> ('p, 's) echoBroadcast" where
  "passToApplication p b = b\<lparr>eb_app := eb_app b @ [p]\<rparr>"

text \<open>
  \<open>PushDeals\<close>, \<open>PushResponses\<close> and \<open>PushJustifications\<close> differ only in the kind of packet;
  \<open>pkt_hash\<close> is the hash of the library.
\<close>

definition push ::
  "('p, 's) suite \<Rightarrow> (('p, 's) dkg_packet \<Rightarrow> bytes) \<Rightarrow> nat list \<Rightarrow> ('p, 's) dkg_packet \<Rightarrow> ('p, 's) echoBroadcast
    \<Rightarrow> ('p, 's) echoBroadcast result" where
  "push S pkt_hash perm p b = sendout S perm (pkt_hash p) p True (passToApplication p b)"

definition PushDeals ::
  "('p, 's) suite \<Rightarrow> (('p, 's) dkg_packet \<Rightarrow> bytes) \<Rightarrow> nat list \<Rightarrow> 'p DealBundle \<Rightarrow> ('p, 's) echoBroadcast
    \<Rightarrow> ('p, 's) echoBroadcast result" where
  "PushDeals S pkt_hash perm bundle b = push S pkt_hash perm (DealPacket bundle) b"

definition PushResponses ::
  "('p, 's) suite \<Rightarrow> (('p, 's) dkg_packet \<Rightarrow> bytes) \<Rightarrow> nat list \<Rightarrow> ResponseBundle \<Rightarrow> ('p, 's) echoBroadcast
    \<Rightarrow> ('p, 's) echoBroadcast result" where
  "PushResponses S pkt_hash perm bundle b = push S pkt_hash perm (ResponsePacket bundle) b"

definition PushJustifications ::
  "('p, 's) suite \<Rightarrow> (('p, 's) dkg_packet \<Rightarrow> bytes) \<Rightarrow> nat list \<Rightarrow> 's JustificationBundle \<Rightarrow> ('p, 's) echoBroadcast
    \<Rightarrow> ('p, 's) echoBroadcast result" where
  "PushJustifications S pkt_hash perm bundle b = push S pkt_hash perm (JustificationPacket bundle) b"

text \<open>\<open>BroadcastDKG\<close>, with the error it replies; a panic of a sender is a panic of the call.\<close>

definition BroadcastDKG ::
  "('p, 's) suite \<Rightarrow> (('p, 's) dkg_packet \<Rightarrow> bytes) \<Rightarrow> (('p, 's) dkg_packet \<Rightarrow> error option) \<Rightarrow> nat list
    \<Rightarrow> pdkg_packet option \<Rightarrow> ('p, 's) echoBroadcast \<Rightarrow> (error option \<times> ('p, 's) echoBroadcast) result" where
  "BroadcastDKG S pkt_hash verif perm p b =
     (case protoToDKGPacket S p of
        Inl _ \<Rightarrow> Inr (Some (Err ''invalid packet''), b)
      | Inr dkgPacket \<Rightarrow>
          let h = pkt_hash dkgPacket
          in if arraySet_exists h (eb_hashes b) then Inr (None, b)
             else
               (case verif dkgPacket of
                  Some _ \<Rightarrow> Inr (Some (Err ''invalid packet''), b)
                | None \<Rightarrow>
                    map_sum id (\<lambda>b. (None, passToApplication dkgPacket b)) (sendout S perm h dkgPacket False b)))"

definition echoBroadcast_Stop :: "('p, 's) echoBroadcast \<Rightarrow> ('p, 's) echoBroadcast result" where
  "echoBroadcast_Stop b = map_sum id (\<lambda>ds. b\<lparr>eb_dispatcher := ds\<rparr>) (dispatcher_stop (eb_dispatcher b))"

section \<open>Round trip of packets\<close>

text \<open>
  C29. A packet of the key generation survives the wire: what a node decodes is the packet the
  other node sent, whatever its kind, with every commitment, share, index and signature.
\<close>

theorem dkg_packet_roundtrip:
  assumes "codec_laws S"
  shows "protoToDKGPacket S (Some (dkgPacketToProto S p)) = Inr p"
proof (cases p)
  case (DealPacket d)
  have "mapE (\<lambda>c. case pt_unmarshal S c of Inl e \<Rightarrow> Inl (Wrap ''invalid public coeff:%s'' e) | Inr p \<Rightarrow> Inr p)
          (map (pt_marshal S) (db_Public d)) = Inr (db_Public d)"
    by (rule mapE_inverse) (simp add: assms)
  then show ?thesis
    by (simp add: DealPacket dkgPacketToProto_def dealToProto_def protoToDKGPacket_def protoToDeal_def map_idI)
next
  case (ResponsePacket r)
  then show ?thesis
    by (simp add: dkgPacketToProto_def respToProto_def protoToDKGPacket_def protoToResp_def map_idI)
next
  case (JustificationPacket j)
  have "mapE (\<lambda>jj. case sc_unmarshal S (ju_Share jj) of
                        Inl e \<Rightarrow> Inl (Wrap ''invalid share: %s'' e)
                      | Inr share \<Rightarrow> Inr \<lparr>ju_ShareIndex = ju_ShareIndex jj, ju_Share = share\<rparr>)
          (map (\<lambda>just. \<lparr>ju_ShareIndex = ju_ShareIndex just, ju_Share = sc_marshal S (ju_Share just)\<rparr>) (jb_Justifications j))
        = Inr (jb_Justifications j)"
    by (rule mapE_inverse) (simp add: assms)
  then show ?thesis
    by (simp add: JustificationPacket dkgPacketToProto_def justifToProto_def protoToDKGPacket_def protoToJustif_def)
qed

theorem dkg_packet_roundtrip_witness:
  "protoToDKGPacket plain_suite (Some (dkgPacketToProto plain_suite (JustificationPacket
      \<lparr>jb_DealerIndex = 1, jb_Justifications = [\<lparr>ju_ShareIndex = 2, ju_Share = [3]\<rparr>], jb_SessionID = [4], jb_Signature = [5]\<rparr>)))
   = Inr (JustificationPacket \<lparr>jb_DealerIndex = 1, jb_Justifications = [\<lparr>ju_ShareIndex = 2, ju_Share = [3]\<rparr>],
            jb_SessionID = [4], jb_Signature = [5]\<rparr>)"
  by (rule dkg_packet_roundtrip [OF plain_suite_laws(1)])

section \<open>Echoing\<close>

lemma arraySet_exists_iff: "arraySet_exists h a \<longleftrightarrow> h \<in> set (ar_hashes a)"
  by (auto simp: arraySet_exists_def find_None_iff)

lemma set_arraySet_put: "set (ar_hashes (arraySet_put h a)) = insert h (set (ar_hashes a))"
  by (auto simp: arraySet_put_def find_None_iff)

text \<open>What a sender that is not stopped does with a packet.\<close>

definition enqueue :: "pdkg_packet \<Rightarrow> sender \<Rightarrow> sender" where
  "enqueue p s = (if int (length (sd_newCh s)) < sd_cap s then s\<lparr>sd_newCh := sd_newCh s @ [p]\<rparr> else s)"

lemma sendPacket_open: "\<not> sd_closed s \<Longrightarrow> sender_sendPacket p s = Inr (enqueue p s)"
  by (simp add: sender_sendPacket_def enqueue_def)

lemma enqueue_closed [simp]: "sd_closed (enqueue p s) = sd_closed s"
  by (simp add: enqueue_def)

lemma broadcast_fold:
  assumes "\<forall>s \<in> set ds. \<not> sd_closed s" "distinct perm" "set perm \<subseteq> {..<length ds}"
  shows "dispatcher_broadcast perm p ds = Inr (map (\<lambda>i. if i \<in> set perm then enqueue p (ds ! i) else ds ! i) [0..<length ds])"
  using assms
proof (induction perm rule: rev_induct)
  case Nil
  then show ?case by (simp add: dispatcher_broadcast_def map_nth)
next
  case (snoc i perm)
  let ?ds = "map (\<lambda>i. if i \<in> set perm then enqueue p (ds ! i) else ds ! i) [0..<length ds]"
  have i: "i < length ds" "i \<notin> set perm" using snoc.prems by auto
  have "dispatcher_broadcast (perm @ [i]) p ds = map_sum id (\<lambda>s. ?ds[i := s]) (sender_sendPacket p (?ds ! i))"
    using snoc by (simp add: dispatcher_broadcast_def)
  also have "\<dots> = Inr (?ds[i := enqueue p (ds ! i)])"
    using i snoc.prems(1) by (simp add: sendPacket_open)
  also have "?ds[i := enqueue p (ds ! i)] = map (\<lambda>j. if j \<in> set (perm @ [i]) then enqueue p (ds ! j) else ds ! j) [0..<length ds]"
    using i by (auto intro!: nth_equalityI simp: nth_list_update)
  finally show ?case .
qed

definition perm_of :: "nat \<Rightarrow> nat list \<Rightarrow> bool" where
  "perm_of n perm \<longleftrightarrow> distinct perm \<and> set perm = {..<n}"

lemma broadcast_all:
  assumes "\<forall>s \<in> set ds. \<not> sd_closed s" "perm_of (length ds) perm"
  shows "dispatcher_broadcast perm p ds = Inr (map (enqueue p) ds)"
proof -
  have "map (\<lambda>i. if i \<in> set perm then enqueue p (ds ! i) else ds ! i) [0..<length ds] = map (\<lambda>i. enqueue p (ds ! i)) [0..<length ds]"
    using assms(2) by (simp add: perm_of_def)
  also have "\<dots> = map (enqueue p) ds" by (rule nth_equalityI) simp_all
  finally show ?thesis using broadcast_fold [OF assms(1), of perm p] assms(2) by (simp add: perm_of_def)
qed

text \<open>The calls of \<open>BroadcastDKG\<close> by other nodes, one after the other under the lock.\<close>

fun receives ::
  "('p, 's) suite \<Rightarrow> (('p, 's) dkg_packet \<Rightarrow> bytes) \<Rightarrow> (('p, 's) dkg_packet \<Rightarrow> error option)
    \<Rightarrow> (nat list \<times> pdkg_packet option) list \<Rightarrow> ('p, 's) echoBroadcast \<Rightarrow> ('p, 's) echoBroadcast result" where
  "receives S pkt_hash verif [] b = Inr b"
| "receives S pkt_hash verif ((perm, p) # qs) b =
     (case BroadcastDKG S pkt_hash verif perm p b of
        Inl e \<Rightarrow> Inl e
      | Inr (_, b) \<Rightarrow> receives S pkt_hash verif qs b)"

text \<open>The first of the elements that agree on \<open>f\<close>, in order.\<close>

fun first_by :: "('a \<Rightarrow> 'b) \<Rightarrow> 'a list \<Rightarrow> 'a list" where
  "first_by f [] = []"
| "first_by f (x # xs) = x # filter (\<lambda>y. f y \<noteq> f x) (first_by f xs)"

lemma first_by_snoc: "first_by f (xs @ [x]) = first_by f xs @ (if f x \<in> f ` set xs then [] else [x])"
  by (induction xs) auto

text \<open>The packets that decode and pass the check of their signature.\<close>

definition valid_packets ::
  "('p, 's) suite \<Rightarrow> (('p, 's) dkg_packet \<Rightarrow> error option) \<Rightarrow> (nat list \<times> pdkg_packet option) list \<Rightarrow> ('p, 's) dkg_packet list" where
  "valid_packets S verif qs =
     concat (map (\<lambda>(perm, p). case protoToDKGPacket S p of
                                Inl _ \<Rightarrow> [] | Inr pk \<Rightarrow> if verif pk = None then [pk] else []) qs)"

lemma receives_snoc:
  "receives S pkt_hash verif (qs @ [(perm, p)]) b =
     (case receives S pkt_hash verif qs b of
        Inl e \<Rightarrow> Inl e
      | Inr b' \<Rightarrow> (case BroadcastDKG S pkt_hash verif perm p b' of Inl e \<Rightarrow> Inl e | Inr (_, b'') \<Rightarrow> Inr b''))"
  by (induction qs arbitrary: b) (auto split: sum.split prod.split)

text \<open>The state after the valid packets \<open>vs\<close> have arrived.\<close>

definition echo_state ::
  "('p, 's) suite \<Rightarrow> (('p, 's) dkg_packet \<Rightarrow> bytes) \<Rightarrow> string \<Rightarrow> 'p Node list \<Rightarrow> ('p, 's) dkg_packet list
    \<Rightarrow> ('p, 's) echoBroadcast \<Rightarrow> bool" where
  "echo_state S pkt_hash own dests vs b \<longleftrightarrow>
     eb_app b = first_by pkt_hash vs \<and> set (ar_hashes (eb_hashes b)) = pkt_hash ` set vs
   \<and> map sd_to (eb_dispatcher b) = filter (\<lambda>a. a \<noteq> own) (map (\<lambda>n. Identity_Address (node_Identity n)) dests)
   \<and> (\<forall>s \<in> set (eb_dispatcher b). \<not> sd_closed s \<and> 0 \<le> sd_cap s
         \<and> sd_newCh s = take (nat (sd_cap s)) (map (dkgPacketToProto S) (eb_app b)))"

lemma echo_state_new: "echo_state S pkt_hash own dests [] (newEchoBroadcast own dests)"
  by (auto simp: echo_state_def newEchoBroadcast_def newDispatcher_def newSender_def filter_map o_def senderQueueSize_def
      maxQueueSize_def)

lemma sd_to_enqueue [simp]: "sd_to \<circ> enqueue p = sd_to"
  by (simp add: enqueue_def fun_eq_iff)

lemma echo_step:
  assumes "echo_state S pkt_hash own dests vs b" "perm_of (length (newDispatcher dests own)) perm"
  shows "\<exists>e b'. BroadcastDKG S pkt_hash verif perm p b = Inr (e, b')
       \<and> echo_state S pkt_hash own dests (vs @ valid_packets S verif [(perm, p)]) b'"
proof -
  have len: "length (eb_dispatcher b) = length (newDispatcher dests own)"
    using arg_cong [OF assms(1) [unfolded echo_state_def, THEN conjunct2, THEN conjunct2, THEN conjunct1], of length]
    by (simp add: newDispatcher_def filter_map o_def)
  show ?thesis
  proof (cases "protoToDKGPacket S p")
    case (Inl e)
    then show ?thesis using assms(1) by (simp add: BroadcastDKG_def valid_packets_def)
  next
    case (Inr pk)
    have seen: "arraySet_exists (pkt_hash pk) (eb_hashes b) \<longleftrightarrow> pkt_hash pk \<in> pkt_hash ` set vs"
      using assms(1) by (simp add: arraySet_exists_iff echo_state_def)
    show ?thesis
    proof (cases "verif pk = None \<and> pkt_hash pk \<notin> pkt_hash ` set vs")
      case True
      let ?b = "b\<lparr>eb_hashes := arraySet_put (pkt_hash pk) (eb_hashes b),
                  eb_dispatcher := map (enqueue (dkgPacketToProto S pk)) (eb_dispatcher b), eb_app := eb_app b @ [pk]\<rparr>"
      have "BroadcastDKG S pkt_hash verif perm p b = Inr (None, ?b)"
        using True Inr broadcast_all [of "eb_dispatcher b" perm "dkgPacketToProto S pk"] assms len
        by (simp add: BroadcastDKG_def sendout_def passToApplication_def Let_def seen echo_state_def)
      moreover have "echo_state S pkt_hash own dests (vs @ [pk]) ?b"
        using True assms(1) unfolding echo_state_def
        by (simp add: first_by_snoc set_arraySet_put) (auto simp: enqueue_def)
      ultimately show ?thesis using True Inr by (simp add: valid_packets_def)
    next
      case False
      then have "\<exists>e. BroadcastDKG S pkt_hash verif perm p b = Inr (e, b)"
        using Inr seen by (auto simp: BroadcastDKG_def Let_def)
      moreover have "echo_state S pkt_hash own dests (vs @ valid_packets S verif [(perm, p)]) b"
        using False Inr assms(1) by (auto simp: valid_packets_def echo_state_def first_by_snoc)
      ultimately show ?thesis by blast
    qed
  qed
qed



end
