(* ===== verification/Group_Setup.thy ===== *)
theory Group_Setup
  imports Key_Group Sha256
begin

text \<open>
  \<open>src/core/group_setup.go\<close>: how a group comes about. The manager of the leader collects the
  keys of the participants and creates the group; the receiver of a participant checks the
  group the leader sends. Each iteration of the loop of the manager is a function on its
  state; a clock value is in nanoseconds since the Unix epoch.
\<close>

section \<open>Packets and constants\<close>

record SetupInfoPacket =
  si_Leader :: bool
  si_LeaderAddress :: string
  si_LeaderTls :: bool
  si_Nodes :: uint32
  si_Threshold :: uint32
  si_Timeout :: uint32
  si_BeaconOffset :: uint32
  si_Secret :: bytes
  si_Force :: bool

record InitResharePacket =
  ir_Info :: SetupInfoPacket
  ir_CatchupPeriodChanged :: bool
  ir_CatchupPeriod :: uint32

record SignalDKGPacket =
  sg_Node :: "ProtoIdentity option"
  sg_SecretProof :: bytes
  sg_PreviousGroupHash :: bytes

record DKGInfoPacket =
  di_NewGroup :: "GroupPacket option"
  di_SecretProof :: bytes
  di_DkgTimeout :: uint32
  di_Signature :: bytes

definition DefaultGenesisOffset :: int where
  "DefaultGenesisOffset = 1 * Second"

definition DefaultResharingOffset :: int where
  "DefaultResharingOffset = 30 * Second"

definition hashSecret :: "bytes \<Rightarrow> bytes" where
  "hashSecret s = sha256 s"

definition correctSecret :: "bytes \<Rightarrow> bytes \<Rightarrow> bool" where
  "correctSecret hashed received = (let got = hashSecret received in hashed = got)"

definition validInitPacket :: "SetupInfoPacket \<Rightarrow> (int \<times> int \<times> int) result" where
  "validInitPacket pkt =
     (let n = uint (si_Nodes pkt); thr = uint (si_Threshold pkt)
      in if thr < MinimumT n then Inl (Errf ''invalid thr: %d nodes, need thr %d got %d'' [n, thr, MinimumT n])
         else if n < thr then Inl (Errf ''invalid thr: %d nodes, can't have thr %d'' [n, thr])
         else Inr (n, thr, wrap64 (uint (si_Timeout pkt) * Second)))"

section \<open>The manager of the leader\<close>

text \<open>
  \<open>sm_pushKeyCh\<close> holds the keys that wait for the loop, with their senders; \<open>sm_doneCh\<close> is
  whether the channel of capacity one holds a signal; \<open>sm_startDKG\<close> is the group handed over;
  \<open>sm_inKeys\<close> is the variable of the loop.
\<close>

record 'p setupManager =
  sm_expected :: int
  sm_thr :: int
  sm_beaconOffset :: int
  sm_catchupPeriod :: int
  sm_beaconPeriod :: int
  sm_dkgTimeout :: int
  sm_leaderKey :: "'p Identity"
  sm_isResharing :: bool
  sm_oldGroup :: "'p Group option"
  sm_oldHash :: bytes
  sm_startDKG :: "'p Group option"
  sm_pushKeyCh :: "(string \<times> 'p Identity) list"
  sm_doneCh :: bool
  sm_hashedSecret :: bytes
  sm_inKeys :: "'p Identity list"
  sm_returned :: bool

definition newDKGSetup :: "'p Identity \<Rightarrow> uint32 \<Rightarrow> uint32 \<Rightarrow> SetupInfoPacket \<Rightarrow> 'p setupManager result" where
  "newDKGSetup leaderKey beaconPeriod catchupPeriod pkt =
     (case validInitPacket pkt of
        Inl e \<Rightarrow> Inl e
      | Inr (n, thr, dkgTimeout) \<Rightarrow>
          let offset = (if si_BeaconOffset pkt = 0 then DefaultGenesisOffset else wrap64 (uint (si_BeaconOffset pkt) * Second))
          in Inr \<lparr>sm_expected = n, sm_thr = thr, sm_beaconOffset = offset,
                  sm_catchupPeriod = wrap64 (uint catchupPeriod * Second), sm_beaconPeriod = wrap64 (uint beaconPeriod * Second),
                  sm_dkgTimeout = dkgTimeout, sm_leaderKey = leaderKey, sm_isResharing = False, sm_oldGroup = None,
                  sm_oldHash = [], sm_startDKG = None, sm_pushKeyCh = [], sm_doneCh = False,
                  sm_hashedSecret = hashSecret (si_Secret pkt), sm_inKeys = [leaderKey], sm_returned = False\<rparr>)"

definition newReshareSetup ::
  "(float64 \<Rightarrow> uint32) \<Rightarrow> ('p, 's) suite \<Rightarrow> 'p Identity \<Rightarrow> 'p Group \<Rightarrow> InitResharePacket \<Rightarrow> 'p setupManager result" where
  "newReshareSetup impl S leaderKey oldGroup pkt =
     (let beaconPeriod = f_to_uint32 impl (Seconds (g_Period oldGroup));
          catchupPeriod = (if \<not> ir_CatchupPeriodChanged pkt then f_to_uint32 impl (Seconds (g_CatchupPeriod oldGroup))
                           else ir_CatchupPeriod pkt)
      in case newDKGSetup leaderKey beaconPeriod catchupPeriod (ir_Info pkt) of
           Inl e \<Rightarrow> Inl e
         | Inr sm \<Rightarrow>
             let (h, oldGroup') = Group_Hash S oldGroup;
                 offset = wrap64 (uint (si_BeaconOffset (ir_Info pkt)) * Second)
             in Inr (sm\<lparr>sm_oldGroup := Some oldGroup', sm_oldHash := h, sm_isResharing := True,
                        sm_beaconOffset := (if offset = 0 then DefaultResharingOffset else offset)\<rparr>))"

definition ReceivedKey ::
  "('p, 's) suite \<Rightarrow> string \<Rightarrow> SignalDKGPacket \<Rightarrow> 'p setupManager \<Rightarrow> error option \<times> 'p setupManager" where
  "ReceivedKey S addr p s =
     (if \<not> correctSecret (sm_hashedSecret s) (sg_SecretProof p) then (Some (Err ''shared secret is incorrect''), s)
      else if sm_isResharing s \<and> sm_oldHash s \<noteq> sg_PreviousGroupHash p
      then (Some (Err ''inconsistent previous group hash''), s)
      else
        (case IdentityFromProto S (sg_Node p) of
           Inl err \<Rightarrow> (Some (Wrap ''invalid id: %v'' err), s)
         | Inr newID \<Rightarrow>
             (case Identity_ValidSignature S newID of
                Some err \<Rightarrow> (Some (Wrap ''invalid sig: %s'' err), s)
              | None \<Rightarrow> (None, s\<lparr>sm_pushKeyCh := sm_pushKeyCh s @ [(addr, newID)]\<rparr>))))"

definition createAndSend ::
  "(float64 \<Rightarrow> uint64) \<Rightarrow> ('p, 's) suite \<Rightarrow> int \<Rightarrow> 'p Identity list \<Rightarrow> 'p setupManager \<Rightarrow> 'p setupManager result" where
  "createAndSend impl S now ks s =
     (let totalDKG = wrap64 (wrap64 (sm_dkgTimeout s * 3) + sm_beaconOffset s);
          later = (now + totalDKG) div Second
      in if \<not> sm_isResharing s then
           let ps = trunc_seconds (sm_beaconPeriod s)
           in if ps = 0 then Inl (Panic ''integer divide by zero'')
              else
                let genesis = wrap64 (later + (ps - rem64 later ps))
                in Inr (s\<lparr>sm_startDKG := Some (NewGroup S ks (sm_thr s) genesis (sm_beaconPeriod s) (sm_catchupPeriod s))\<rparr>)
         else
           (case sm_oldGroup s of
              None \<Rightarrow> Inl (Panic ''nil pointer dereference'')
            | Some old \<Rightarrow>
                let genesis = g_GenesisTime old;
                    transition = snd (NextRound impl later (sm_beaconPeriod s) (g_GenesisTime old));
                    (seed, old') = Group_GetGenesisSeed S old
                in Inr (s\<lparr>sm_oldGroup := Some old',
                     sm_startDKG := Some ((NewGroup S ks (sm_thr s) genesis (sm_beaconPeriod s) (sm_catchupPeriod s))
                       \<lparr>g_TransitionTime := transition, g_GenesisSeed := Some seed\<rparr>)\<rparr>)))"

text \<open>
  An iteration of the loop on a key. No value means that the loop waits: there is no key, or
  the channel of the signal is full when it wants to send. \<open>verifyKeys\<close> accepts every list.
\<close>

definition run_key ::
  "(float64 \<Rightarrow> uint64) \<Rightarrow> ('p, 's) suite \<Rightarrow> int \<Rightarrow> 'p setupManager \<Rightarrow> 'p setupManager result option" where
  "run_key impl S now s =
     (if sm_returned s then None
      else
        case sm_pushKeyCh s of
          [] \<Rightarrow> None
        | (addr, pk) # rest \<Rightarrow>
            let s = s\<lparr>sm_pushKeyCh := rest\<rparr>;
                found = list_ex (\<lambda>i. Identity_Address i = Identity_Address pk \<or> pt_equal S (id_Key i) (id_Key pk)) (sm_inKeys s)
            in if found then Some (Inr s)
               else
                 let s = s\<lparr>sm_inKeys := sm_inKeys s @ [pk]\<rparr>
                 in if int (length (sm_inKeys s)) = sm_expected s
                    then if sm_doneCh s then None
                         else Some (map_sum id (\<lambda>s. s\<lparr>sm_returned := True\<rparr>)
                                     (createAndSend impl S now (sm_inKeys s) (s\<lparr>sm_doneCh := True\<rparr>)))
                    else Some (Inr s))"

text \<open>An iteration on the signal, and the call that sends it; no value means that they wait.\<close>

definition run_done :: "'p setupManager \<Rightarrow> 'p setupManager option" where
  "run_done s =
     (if \<not> sm_returned s \<and> sm_doneCh s then Some (s\<lparr>sm_doneCh := False, sm_returned := True\<rparr>) else None)"

definition StopPreemptively :: "'p setupManager \<Rightarrow> 'p setupManager option" where
  "StopPreemptively s = (if sm_doneCh s then None else Some (s\<lparr>sm_doneCh := True\<rparr>))"

section \<open>The receiver of a participant\<close>

record 'p setupReceiver =
  sr_ch :: "('p Group \<times> uint32) list"
  sr_leader :: "string \<times> bool"
  sr_leaderID :: "'p Identity"
  sr_secret :: bytes
  sr_done :: bool

definition fetchLeaderKey ::
  "('p, 's) suite \<Rightarrow> (string \<times> bool \<Rightarrow> ProtoIdentity option result) \<Rightarrow> string \<times> bool \<Rightarrow> 'p Identity result" where
  "fetchLeaderKey S get_identity leader =
     (case get_identity leader of Inl e \<Rightarrow> Inl e | Inr protoID \<Rightarrow> IdentityFromProto S protoID)"

definition newSetupReceiver ::
  "('p, 's) suite \<Rightarrow> (string \<times> bool \<Rightarrow> ProtoIdentity option result) \<Rightarrow> SetupInfoPacket \<Rightarrow> 'p setupReceiver result" where
  "newSetupReceiver S get_identity pkt =
     (let leader = (si_LeaderAddress pkt, si_LeaderTls pkt)
      in case fetchLeaderKey S get_identity leader of
           Inl e \<Rightarrow> Inl e
         | Inr i \<Rightarrow> Inr \<lparr>sr_ch = [], sr_leader = leader, sr_leaderID = i, sr_secret = hashSecret (si_Secret pkt),
                        sr_done = False\<rparr>)"

text \<open>A group is passed on over a channel that \<open>stop\<close> closes.\<close>

definition PushDKGInfo ::
  "('p, 's) suite \<Rightarrow> DKGInfoPacket \<Rightarrow> 'p setupReceiver \<Rightarrow> (error option \<times> 'p setupReceiver) result" where
  "PushDKGInfo S pg r =
     (if \<not> correctSecret (sr_secret r) (di_SecretProof pg) then Inr (Some (Err ''invalid secret''), r)
      else
        (case GroupFromProto S (di_NewGroup pg) of
           Inl err \<Rightarrow> Inr (Some (Wrap ''group from leader invalid: %s'' err), r)
         | Inr g \<Rightarrow>
             let (h, g) = Group_Hash S g
             in case dkg_verify S (id_Key (sr_leaderID r)) h (di_Signature pg) of
                  Some err \<Rightarrow> Inr (Some (Wrap ''invalid group sig: %s'' err), r)
                | None \<Rightarrow>
                    if sr_done r then Inl (Panic ''send on closed channel'')
                    else Inr (None, r\<lparr>sr_ch := sr_ch r @ [(g, di_DkgTimeout pg)]\<rparr>)))"

text \<open>What \<open>WaitDKGInfo\<close> waits for: the channel, the clock or its context.\<close>

datatype wait_event = OnChannel | OnTimeout | OnCancel error

definition WaitDKGInfo :: "wait_event \<Rightarrow> 'p setupReceiver \<Rightarrow> (('p Group \<times> uint32) result \<times> 'p setupReceiver) option" where
  "WaitDKGInfo ev r =
     (case ev of
        OnChannel \<Rightarrow>
          (case sr_ch r of
             g # rest \<Rightarrow> Some (Inr g, r\<lparr>sr_ch := rest\<rparr>)
           | [] \<Rightarrow> if sr_done r then Some (Inl (Err ''unable to fetch group''), r) else None)
      | OnTimeout \<Rightarrow> Some (Inl (Err ''wait_group timeouts from coordinator''), r)
      | OnCancel e \<Rightarrow> Some (Inl e, r))"

definition setupReceiver_stop :: "'p setupReceiver \<Rightarrow> 'p setupReceiver" where
  "setupReceiver_stop r = (if sr_done r then r else r\<lparr>sr_done := True\<rparr>)"

section \<open>Runs of the manager\<close>

text \<open>
  What happens to a manager: a participant signals its key, the loop takes a key at a time
  of the clock or the signal, and somebody asks it to stop. A call or an iteration that waits
  changes nothing.
\<close>

datatype setup_event = Signal string SignalDKGPacket | RunKey int | RunDone | Stop

fun setup_step ::
  "(float64 \<Rightarrow> uint64) \<Rightarrow> ('p, 's) suite \<Rightarrow> setup_event \<Rightarrow> 'p setupManager \<Rightarrow> 'p setupManager result" where
  "setup_step impl S (Signal addr p) s = Inr (snd (ReceivedKey S addr p s))"
| "setup_step impl S (RunKey now) s = (case run_key impl S now s of None \<Rightarrow> Inr s | Some r \<Rightarrow> r)"
| "setup_step impl S RunDone s = Inr (case run_done s of None \<Rightarrow> s | Some s' \<Rightarrow> s')"
| "setup_step impl S Stop s = Inr (case StopPreemptively s of None \<Rightarrow> s | Some s' \<Rightarrow> s')"

fun setup_run ::
  "(float64 \<Rightarrow> uint64) \<Rightarrow> ('p, 's) suite \<Rightarrow> setup_event list \<Rightarrow> 'p setupManager \<Rightarrow> 'p setupManager result" where
  "setup_run impl S [] s = Inr s"
| "setup_run impl S (ev # evs) s = (case setup_step impl S ev s of Inl e \<Rightarrow> Inl e | Inr s \<Rightarrow> setup_run impl S evs s)"

text \<open>The parameters of a manager, which no operation changes.\<close>

definition setup_params :: "'p setupManager \<Rightarrow> int \<times> int \<times> int \<times> int \<times> int \<times> int \<times> 'p Identity \<times> bool" where
  "setup_params s = (sm_expected s, sm_thr s, sm_beaconOffset s, sm_catchupPeriod s, sm_beaconPeriod s, sm_dkgTimeout s,
     sm_leaderKey s, sm_isResharing s)"

definition keys_ok :: "('p, 's) suite \<Rightarrow> 'p setupManager \<Rightarrow> bool" where
  "keys_ok S s \<longleftrightarrow>
     (\<exists>rest. sm_inKeys s = sm_leaderKey s # rest \<and> (\<forall>i \<in> set rest. Identity_ValidSignature S i = None))
   \<and> (\<forall>(a, i) \<in> set (sm_pushKeyCh s). Identity_ValidSignature S i = None)
   \<and> distinct (map id_Addr (sm_inKeys s)) \<and> distinct (map id_Key (sm_inKeys s))"

text \<open>Either no group was made, or the loop has ended with the group of its keys.\<close>

definition group_made :: "(float64 \<Rightarrow> uint64) \<Rightarrow> ('p, 's) suite \<Rightarrow> int set \<Rightarrow> 'p setupManager \<Rightarrow> bool" where
  "group_made impl S clk s \<longleftrightarrow>
     sm_startDKG s = None
   \<or> sm_returned s \<and> sm_doneCh s \<and> 2 \<le> length (sm_inKeys s) \<and> int (length (sm_inKeys s)) = sm_expected s
     \<and> (\<exists>now \<in> clk. \<exists>s0 s1. setup_params s0 = setup_params s
           \<and> createAndSend impl S now (sm_inKeys s) s0 = Inr s1 \<and> sm_startDKG s1 = sm_startDKG s)"

lemma createAndSend_keeps:
  assumes "createAndSend impl S now ks s = Inr s'"
  shows "setup_params s' = setup_params s" "sm_inKeys s' = sm_inKeys s" "sm_pushKeyCh s' = sm_pushKeyCh s"
    "sm_doneCh s' = sm_doneCh s" "sm_leaderKey s' = sm_leaderKey s"
  using assms by (auto simp: createAndSend_def setup_params_def Let_def split: if_splits option.splits prod.splits)

lemma keys_ok_add:
  assumes "keys_ok S s" "codec_laws S" "sm_pushKeyCh s = (addr, pk) # rest"
    and "\<not> list_ex (\<lambda>i. Identity_Address i = Identity_Address pk \<or> pt_equal S (id_Key i) (id_Key pk)) (sm_inKeys s)"
  shows "keys_ok S (s\<lparr>sm_pushKeyCh := rest, sm_inKeys := sm_inKeys s @ [pk]\<rparr>)"
  using assms by (auto simp: keys_ok_def list_ex_iff Identity_Address_def)

lemma map_sum_id_eq_Inr: "map_sum id f r = Inr y \<longleftrightarrow> (\<exists>x. r = Inr x \<and> y = f x)"
  by (cases r) auto

lemma run_key_cases:
  assumes "run_key impl S now s = Some (Inr s')"
  obtains (dup) addr pk rest where "sm_pushKeyCh s = (addr, pk) # rest" "s' = s\<lparr>sm_pushKeyCh := rest\<rparr>" "\<not> sm_returned s"
  | (added) addr pk rest where "sm_pushKeyCh s = (addr, pk) # rest" "\<not> sm_returned s"
      "\<not> list_ex (\<lambda>i. Identity_Address i = Identity_Address pk \<or> pt_equal S (id_Key i) (id_Key pk)) (sm_inKeys s)"
      "s' = s\<lparr>sm_pushKeyCh := rest, sm_inKeys := sm_inKeys s @ [pk]\<rparr>"
  | (made) addr pk rest s1 where "sm_pushKeyCh s = (addr, pk) # rest" "\<not> sm_returned s"
      "\<not> list_ex (\<lambda>i. Identity_Address i = Identity_Address pk \<or> pt_equal S (id_Key i) (id_Key pk)) (sm_inKeys s)"
      "int (length (sm_inKeys s) + 1) = sm_expected s"
      "createAndSend impl S now (sm_inKeys s @ [pk])
         (s\<lparr>sm_pushKeyCh := rest, sm_inKeys := sm_inKeys s @ [pk], sm_doneCh := True\<rparr>) = Inr s1"
      "s' = s1\<lparr>sm_returned := True\<rparr>"
proof -
  obtain addr pk rest where q: "\<not> sm_returned s" "sm_pushKeyCh s = (addr, pk) # rest"
    using assms by (auto simp: run_key_def split: if_splits list.splits)
  let ?found = "list_ex (\<lambda>i. Identity_Address i = Identity_Address pk \<or> pt_equal S (id_Key i) (id_Key pk)) (sm_inKeys s)"
  consider "?found" | "\<not> ?found" "int (length (sm_inKeys s) + 1) \<noteq> sm_expected s"
    | "\<not> ?found" "int (length (sm_inKeys s) + 1) = sm_expected s" by blast
  then show ?thesis
  proof cases
    case 1
    then show ?thesis using dup assms q by (simp add: run_key_def Let_def)
  next
    case 2
    then show ?thesis using added assms q by (simp add: run_key_def Let_def)
  next
    case 3
    then show ?thesis using made assms q by (auto simp: run_key_def Let_def map_sum_id_eq_Inr split: if_splits)
  qed
qed

lemma setup_step_keys_ok:
  assumes "keys_ok S s" "codec_laws S" "setup_step impl S ev s = Inr s'"
  shows "keys_ok S s'" "setup_params s' = setup_params s"
proof -
  have "keys_ok S s' \<and> setup_params s' = setup_params s"
  proof (cases ev)
    case (Signal addr p)
    then show ?thesis
      using assms by (auto simp: ReceivedKey_def keys_ok_def setup_params_def split: if_splits sum.splits option.splits)
  next
    case (RunKey now)
    show ?thesis
    proof (cases "run_key impl S now s")
      case None
      then show ?thesis using assms RunKey by simp
    next
      case (Some r)
      then have "run_key impl S now s = Some (Inr s')" using assms(3) RunKey by simp
      then show ?thesis
      proof (cases rule: run_key_cases)
        case dup
        then show ?thesis using assms(1) by (auto simp: keys_ok_def setup_params_def)
      next
        case added
        then show ?thesis using keys_ok_add [OF assms(1,2)] by (simp add: setup_params_def)
      next
        case (made addr pk rest s1)
        then have "keys_ok S (s\<lparr>sm_pushKeyCh := rest, sm_inKeys := sm_inKeys s @ [pk]\<rparr>)"
          by (intro keys_ok_add [OF assms(1,2)])
        then show ?thesis
          using createAndSend_keeps [OF made(5)] made(6) by (auto simp: keys_ok_def setup_params_def)
      qed
    qed
  qed (use assms in \<open>auto simp: run_done_def StopPreemptively_def keys_ok_def setup_params_def split: if_splits\<close>)
  then show "keys_ok S s'" "setup_params s' = setup_params s" by simp_all
qed

lemma group_made_cong:
  assumes "group_made impl S clk s" "sm_startDKG s' = sm_startDKG s" "sm_startDKG s \<noteq> None \<Longrightarrow> sm_inKeys s' = sm_inKeys s"
    and "setup_params s' = setup_params s" "sm_returned s \<Longrightarrow> sm_returned s' \<and> sm_doneCh s' = sm_doneCh s"
  shows "group_made impl S clk s'"
proof -
  have "sm_expected s' = sm_expected s" using assms(4) by (simp add: setup_params_def)
  then show ?thesis using assms unfolding group_made_def by (cases "sm_startDKG s") (simp, metis)
qed

lemma group_made_returned: "group_made impl S clk s \<Longrightarrow> \<not> sm_returned s \<Longrightarrow> sm_startDKG s = None"
  by (auto simp: group_made_def)

lemma setup_step_group_made:
  assumes "group_made impl S clk s" "keys_ok S s" "setup_step impl S ev s = Inr s'" "\<And>now. ev = RunKey now \<Longrightarrow> now \<in> clk"
  shows "group_made impl S clk s'"
proof (cases ev)
  case (RunKey now)
  show ?thesis
  proof (cases "run_key impl S now s")
    case None
    then show ?thesis using assms RunKey by simp
  next
    case (Some r)
    then have "run_key impl S now s = Some (Inr s')" using assms(3) RunKey by simp
    then show ?thesis
    proof (cases rule: run_key_cases)
      case (made addr pk rest s1)
      note k = createAndSend_keeps [OF made(5)]
      have l: "1 \<le> length (sm_inKeys s)" using assms(2) by (auto simp: keys_ok_def)
      have "sm_expected s1 = sm_expected s" using k(1) by (simp add: setup_params_def)
      moreover have "setup_params (s1\<lparr>sm_returned := True\<rparr>) =
          setup_params (s\<lparr>sm_pushKeyCh := rest, sm_inKeys := sm_inKeys s @ [pk], sm_doneCh := True\<rparr>)"
        using k(1) by (simp add: setup_params_def)
      moreover have "now \<in> clk" using assms(4) RunKey by blast
      moreover have "sm_inKeys s1 = sm_inKeys s @ [pk]" "sm_doneCh s1" using k by simp_all
      ultimately have "sm_returned s' \<and> sm_doneCh s' \<and> 2 \<le> length (sm_inKeys s') \<and> int (length (sm_inKeys s')) = sm_expected s'
          \<and> (\<exists>now \<in> clk. \<exists>s0 s1. setup_params s0 = setup_params s'
           \<and> createAndSend impl S now (sm_inKeys s') s0 = Inr s1 \<and> sm_startDKG s1 = sm_startDKG s')"
        using made(4-6) l by (intro conjI bexI [of _ now] exI [of _ s1] exI) auto
      then show ?thesis unfolding group_made_def by blast
    qed (rule group_made_cong [OF assms(1)];
         use group_made_returned [OF assms(1)] in \<open>simp add: setup_params_def\<close>)+
  qed
next
  case (Signal addr p)
  show ?thesis
    by (rule group_made_cong [OF assms(1)];
        use assms(3) Signal in \<open>auto simp: ReceivedKey_def setup_params_def split: if_splits sum.splits option.splits\<close>)
next
  case RunDone
  show ?thesis
    by (rule group_made_cong [OF assms(1)]; use assms(3) RunDone in \<open>auto simp: run_done_def setup_params_def split: if_splits\<close>)
next
  case Stop
  show ?thesis
  proof (cases "sm_startDKG s")
    case None
    then show ?thesis using assms(3) Stop by (auto simp: StopPreemptively_def group_made_def split: if_splits)
  next
    case (Some g)
    then have "sm_doneCh s" using assms(1) by (auto simp: group_made_def)
    then show ?thesis using assms(1,3) Stop by (simp add: StopPreemptively_def)
  qed
qed

definition clock_of :: "setup_event list \<Rightarrow> int set" where
  "clock_of evs = {now. RunKey now \<in> set evs}"

lemma setup_run_invariants:
  assumes "keys_ok S s" "group_made impl S clk s" "codec_laws S" "setup_run impl S evs s = Inr s'" "clock_of evs \<subseteq> clk"
  shows "keys_ok S s' \<and> group_made impl S clk s' \<and> setup_params s' = setup_params s"
  using assms
proof (induction evs arbitrary: s)
  case (Cons ev evs)
  obtain s1 where s1: "setup_step impl S ev s = Inr s1" "setup_run impl S evs s1 = Inr s'"
    using Cons.prems(4) by (auto split: sum.splits)
  have "keys_ok S s1" "setup_params s1 = setup_params s" "group_made impl S clk s1"
    using setup_step_keys_ok [OF Cons.prems(1,3) s1(1)] Cons.prems(5)
      setup_step_group_made [OF Cons.prems(2,1) s1(1)] by (auto simp: clock_of_def)
  then show ?case using Cons.IH [of s1] Cons.prems(3,5) s1(2) by (auto simp: clock_of_def)
qed simp

section \<open>Properties\<close>

lemma newDKGSetup_inv:
  assumes "newDKGSetup leaderKey bp cp pkt = Inr s"
  shows "keys_ok S s" "group_made impl S clk s" "sm_leaderKey s = leaderKey" "\<not> sm_isResharing s" "sm_expected s = uint (si_Nodes pkt)"
    "sm_thr s = uint (si_Threshold pkt)" "MinimumT (sm_expected s) \<le> sm_thr s" "sm_thr s \<le> sm_expected s"
  using assms by (auto simp: newDKGSetup_def validInitPacket_def keys_ok_def group_made_def Let_def split: if_splits)

lemma is_int64_secs: "0 \<le> u \<Longrightarrow> u < 2 ^ 32 \<Longrightarrow> is_int64 (u * Second)"
  unfolding is_int64_def Second_def by simp

lemma is_int64_total: "0 \<le> u \<Longrightarrow> u < 2 ^ 24 \<Longrightarrow> 0 \<le> off \<Longrightarrow> off < 2 ^ 24 * Second \<Longrightarrow> is_int64 (u * Second * 3 + off)"
  unfolding is_int64_def Second_def by simp

lemma wrap64_secs: "wrap64 (uint (x :: uint32) * Second) = uint x * Second"
  using uint_lt2p [of x] by (intro wrap64_id is_int64_secs) simp_all

text \<open>The time of the genesis is the next multiple of the period.\<close>

lemma next_multiple:
  assumes "0 < ps" "0 \<le> later"
  shows "later + (ps - rem64 later ps) = (later div ps + 1) * ps"
    and "later < later + (ps - rem64 later ps)" "later + (ps - rem64 later ps) \<le> later + ps"
proof -
  have r: "rem64 later ps = later mod ps"
    using assms by (cases "later = 0") (simp_all add: rem64_def quot64_def minus_mult_div_eq_mod)
  show "later + (ps - rem64 later ps) = (later div ps + 1) * ps"
    unfolding r distrib_right using div_mult_mod_eq [of later ps] by linarith
  show "later < later + (ps - rem64 later ps)" "later + (ps - rem64 later ps) \<le> later + ps"
    unfolding r using assms by simp_all
qed

text \<open>The manager of a first key generation, with a timeout and an offset of any practical size.\<close>

lemma createAndSend_fresh:
  assumes "newDKGSetup leaderKey bp cp pkt = Inr s0" "setup_params s = setup_params s0" "createAndSend impl S now ks s = Inr s1"
    and "0 \<le> now" "now < 2 ^ 62" "si_Timeout pkt < 2 ^ 24" "si_BeaconOffset pkt < 2 ^ 24"
    and "later = (now + 3 * uint (si_Timeout pkt) * Second + sm_beaconOffset s0) div Second"
  shows "\<exists>g. sm_startDKG s1 = Some g \<and> g_Nodes g = copyAndSort S ks \<and> g_Threshold g = sm_thr s0 \<and> g_Period g = uint bp * Second
       \<and> uint bp dvd g_GenesisTime g \<and> later < g_GenesisTime g \<and> g_GenesisTime g \<le> later + uint bp"
proof -
  have T: "uint (si_Timeout pkt) < 2 ^ 24" "uint (si_BeaconOffset pkt) < 2 ^ 24"
    using assms(6,7) by (simp_all add: word_less_def)
  have B: "uint bp < 2 ^ 32" using uint_lt2p [of bp] by simp
  have o: "0 \<le> sm_beaconOffset s0" "sm_beaconOffset s0 < 2 ^ 24 * Second" and dt: "sm_dkgTimeout s0 = uint (si_Timeout pkt) * Second"
    and per: "sm_beaconPeriod s0 = uint bp * Second"
    using assms(1) T by (auto simp: newDKGSetup_def validInitPacket_def Let_def DefaultGenesisOffset_def wrap64_secs
        split: if_splits) (simp_all add: Second_def)
  have e: "sm_beaconOffset s = sm_beaconOffset s0" "sm_dkgTimeout s = sm_dkgTimeout s0" "sm_beaconPeriod s = sm_beaconPeriod s0"
    "sm_thr s = sm_thr s0" "\<not> sm_isResharing s"
    using assms(2) newDKGSetup_inv(4) [OF assms(1)] by (auto simp: setup_params_def)
  have tot: "wrap64 (wrap64 (sm_dkgTimeout s * 3) + sm_beaconOffset s) = 3 * uint (si_Timeout pkt) * Second + sm_beaconOffset s0"
  proof -
    have "is_int64 (uint (si_Timeout pkt) * Second * 3)" using is_int64_total [of "uint (si_Timeout pkt)" 0] T by (simp add: Second_def)
    moreover have "is_int64 (uint (si_Timeout pkt) * Second * 3 + sm_beaconOffset s0)"
      using is_int64_total [of "uint (si_Timeout pkt)" "sm_beaconOffset s0"] o T by simp
    ultimately show ?thesis by (simp add: e dt)
  qed
  have ps: "trunc_seconds (sm_beaconPeriod s) = uint bp" using B by (simp add: e per trunc_seconds_whole)
  have l: "0 \<le> later" "later < 2 ^ 60"
    using assms(4,5) o T unfolding assms(8) by (simp_all add: Second_def pos_imp_zdiv_nonneg_iff)
  have ca: "createAndSend impl S now ks s =
      (if uint bp = 0 then Inl (Panic ''integer divide by zero'')
       else Inr (s\<lparr>sm_startDKG := Some (NewGroup S ks (sm_thr s) (wrap64 (later + (uint bp - rem64 later (uint bp)))) (sm_beaconPeriod s)
                   (sm_catchupPeriod s))\<rparr>))"
    unfolding createAndSend_def Let_def tot ps assms(8) using e(5) by (simp add: add.assoc)
  have b: "uint bp \<noteq> 0" using assms(3) by (auto simp: ca)
  then have "0 < uint bp" by (simp add: order_less_le)
  note nm = next_multiple [OF this l(1)]
  have "is_int64 (later + (uint bp - rem64 later (uint bp)))"
    using nm(2,3) l B by (simp add: is_int64_def)
  then have g: "sm_startDKG s1 = Some (NewGroup S ks (sm_thr s0) (later + (uint bp - rem64 later (uint bp))) (uint bp * Second) (sm_catchupPeriod s))"
    using assms(3) b by (auto simp: ca e per)
  show ?thesis
    unfolding g using nm(2,3) by (simp add: NewGroup_def) (simp add: nm(1))
qed


text \<open>A run of two participants.\<close>

definition setup_pkt :: SetupInfoPacket where
  "setup_pkt = \<lparr>si_Leader = True, si_LeaderAddress = [], si_LeaderTls = False, si_Nodes = 2, si_Threshold = 2, si_Timeout = 10,
     si_BeaconOffset = 5, si_Secret = [1, 2], si_Force = False\<rparr>"

definition leader_id :: "bytes Identity" where
  "leader_id = \<lparr>id_Key = [1], id_Addr = ''a:1'', id_TLS = False, id_Signature = []\<rparr>"

definition member_pkt :: SignalDKGPacket where
  "member_pkt = \<lparr>sg_Node = Some \<lparr>pi_Address = ''b:1'', pi_Key = [2], pi_Tls = False, pi_Signature = [2, 7, 2]\<rparr>,
     sg_SecretProof = [1, 2], sg_PreviousGroupHash = []\<rparr>"

lemma member_pkt_accepted:
  assumes "sm_hashedSecret s = hashSecret [1, 2]" "\<not> sm_isResharing s"
  shows "ReceivedKey plain_suite addr member_pkt s =
    (None, s\<lparr>sm_pushKeyCh := sm_pushKeyCh s @ [(addr, \<lparr>id_Key = [2], id_Addr = ''b:1'', id_TLS = False, id_Signature = [2, 7, 2]\<rparr>)]\<rparr>)"
proof -
  have "is_ok (SplitHostPort ''b:1'')" by code_simp
  then show ?thesis
    using assms by (auto simp: ReceivedKey_def member_pkt_def correctSecret_def Let_def IdentityFromProto_def pi_GetAddress_def
        pi_GetKey_def pi_GetSignature_def Identity_ValidSignature_def Identity_Hash_def plain_suite_def split: sum.splits)
qed

lemma example_setup:
  obtains s0 s where "newDKGSetup leader_id 30 15 setup_pkt = Inr s0"
    "setup_run (\<lambda>_. 0) plain_suite [Signal ''b:1'' member_pkt, RunKey 1600000000000000000] s0 = Inr s" "sm_startDKG s \<noteq> None"
proof -
  obtain s0 where s0: "newDKGSetup leader_id 30 15 setup_pkt = Inr s0"
    by (simp add: newDKGSetup_def validInitPacket_def setup_pkt_def MinimumT_def Let_def)
  have f: "sm_hashedSecret s0 = hashSecret [1, 2]" "\<not> sm_isResharing s0" "sm_pushKeyCh s0 = []" "sm_inKeys s0 = [leader_id]"
    "sm_expected s0 = 2" "\<not> sm_doneCh s0" "\<not> sm_returned s0" "sm_beaconPeriod s0 = 30 * Second"
    using s0 by (auto simp: newDKGSetup_def validInitPacket_def setup_pkt_def MinimumT_def Let_def Second_def is_int64_def)
  have ps: "trunc_seconds (30 * Second) = 30" by (rule trunc_seconds_whole) simp_all
  let ?m = "\<lparr>id_Key = [2], id_Addr = ''b:1'', id_TLS = False, id_Signature = [2, 7, 2]\<rparr> :: bytes Identity"
  have new: "\<not> (Identity_Address leader_id = Identity_Address ?m \<or> pt_equal plain_suite (id_Key leader_id) (id_Key ?m))"
    by (simp add: leader_id_def Identity_Address_def plain_suite_def)
  let ?s1 = "s0\<lparr>sm_pushKeyCh := [], sm_inKeys := [leader_id, ?m], sm_doneCh := True\<rparr>"
  obtain s1 where s1: "createAndSend (\<lambda>_. 0) plain_suite 1600000000000000000 [leader_id, ?m] ?s1 = Inr s1" "sm_startDKG s1 \<noteq> None"
    by (simp add: createAndSend_def Let_def f ps)
  have "run_key (\<lambda>_. 0) plain_suite 1600000000000000000 (s0\<lparr>sm_pushKeyCh := [(''b:1'', ?m)]\<rparr>)
      = Some (map_sum id (\<lambda>s. s\<lparr>sm_returned := True\<rparr>) (createAndSend (\<lambda>_. 0) plain_suite 1600000000000000000 [leader_id, ?m] ?s1))"
    using new by (simp add: run_key_def f Let_def)
  then show ?thesis using that [OF s0] s1 by (simp add: member_pkt_accepted f)
qed


text \<open>
  Asking a manager that has made its group to stop waits for ever: the loop has put its own
  signal into the channel of capacity one and returned, so nothing takes a signal out any more.
\<close>

lemma StopPreemptively_blocks_after_group:
  assumes "codec_laws S" "newDKGSetup leaderKey bp cp pkt = Inr s0" "setup_run impl S evs s0 = Inr s" "sm_startDKG s \<noteq> None"
    and "setup_run impl S evs' s = Inr s'"
  shows "StopPreemptively s' = None \<and> run_done s' = None"
proof -
  note n = newDKGSetup_inv [OF assms(2)]
  have 1: "keys_ok S s" "group_made impl S UNIV s" using setup_run_invariants [OF n(1) n(2) assms(1,3), where clk = UNIV] by auto
  have keep: "sm_startDKG t' \<noteq> None"
    if "keys_ok S t" "group_made impl S UNIV t" "sm_startDKG t \<noteq> None" "setup_run impl S es t = Inr t'" for es t t'
    using that
  proof (induction es arbitrary: t)
    case (Cons ev es)
    obtain t1 where t1: "setup_step impl S ev t = Inr t1" "setup_run impl S es t1 = Inr t'"
      using Cons.prems(4) by (auto split: sum.splits)
    have "sm_returned t" "sm_doneCh t" using Cons.prems(2,3) by (auto simp: group_made_def)
    then have "sm_startDKG t1 = sm_startDKG t"
      using t1(1) by (cases ev) (auto simp: run_key_def run_done_def StopPreemptively_def ReceivedKey_def split: if_splits sum.splits option.splits)
    then show ?case
      using Cons.IH [OF setup_step_keys_ok(1) [OF Cons.prems(1) assms(1) t1(1)]
          setup_step_group_made [OF Cons.prems(2,1) t1(1)] _ t1(2)] Cons.prems(3) by simp
  qed simp
  have "sm_startDKG s' \<noteq> None" using keep [OF 1 assms(4,5)] .
  then have "sm_returned s'" "sm_doneCh s'"
    using setup_run_invariants [OF 1 assms(1,5)] by (auto simp: group_made_def)
  then show ?thesis by (simp add: StopPreemptively_def run_done_def)
qed

lemma StopPreemptively_blocks_after_group_example:
  "\<exists>s0 s. newDKGSetup leader_id 30 15 setup_pkt = Inr s0
     \<and> setup_run (\<lambda>_. 0) plain_suite [Signal ''b:1'' member_pkt, RunKey 1600000000000000000] s0 = Inr s
     \<and> StopPreemptively s = None"
proof -
  obtain s0 s where s: "newDKGSetup leader_id 30 15 setup_pkt = Inr s0"
    "setup_run (\<lambda>_. 0) plain_suite [Signal ''b:1'' member_pkt, RunKey 1600000000000000000] s0 = Inr s" "sm_startDKG s \<noteq> None"
    by (rule example_setup)
  then show ?thesis using StopPreemptively_blocks_after_group [OF plain_suite_laws(1) s, of "[]" s] by simp
qed

text \<open>
  A group of one node passes the checks of the request, and its manager never makes a group,
  whatever arrives: the number of keys is only compared after a key was added to the leader's.
\<close>

lemma single_node_setup_never_completes:
  assumes "codec_laws S" "newDKGSetup leaderKey bp cp pkt = Inr s0" "si_Nodes pkt = 1" "setup_run impl S evs s0 = Inr s"
  shows "sm_startDKG s = None"
proof -
  note n = newDKGSetup_inv [OF assms(2)]
  have "group_made impl S UNIV s" "setup_params s = setup_params s0"
    using setup_run_invariants [OF n(1) n(2) assms(1,4), where clk = UNIV] by auto
  moreover have "sm_expected s = 1" using n(5) assms(3) calculation(2) by (simp add: setup_params_def)
  ultimately show ?thesis by (auto simp: group_made_def)
qed

lemma single_node_setup_never_completes_example:
  "\<exists>s0 s. newDKGSetup leader_id 30 15 (setup_pkt\<lparr>si_Nodes := 1, si_Threshold := 1\<rparr>) = Inr s0
     \<and> setup_run (\<lambda>_. 0) plain_suite [Signal ''b:1'' member_pkt] s0 = Inr s \<and> sm_startDKG s = None"
proof -
  obtain s0 where s0: "newDKGSetup leader_id 30 15 (setup_pkt\<lparr>si_Nodes := 1, si_Threshold := 1\<rparr>) = Inr s0"
    by (simp add: newDKGSetup_def validInitPacket_def setup_pkt_def MinimumT_def Let_def)
  then show ?thesis
    using single_node_setup_never_completes [OF plain_suite_laws(1) s0, of "\<lambda>_. 0" "[Signal ''b:1'' member_pkt]"] by simp
qed

end
