(* ===== verification/Key_Store.thy ===== *)
theory Key_Store
  imports Key_Group "HOL-Library.Sublist" "HOL-Library.AList"
begin

text \<open>
  \<open>src/key/store.go\<close> and \<open>src/fs/fs.go\<close>: the files in which a node keeps its key pair, its
  share and its group. The file system is a list of entries with contents and permissions; the
  faults of the machine (a full disk, missing rights) are a parameter, and so is the TOML codec.
\<close>

section \<open>Paths\<close>

definition slash :: char where "slash = CHR ''/''"

fun split_slash :: "string \<Rightarrow> string list" where
  "split_slash [] = [[]]"
| "split_slash (c # cs) =
     (if c = slash then [] # split_slash cs else (c # hd (split_slash cs)) # tl (split_slash cs))"

fun join_slash :: "string list \<Rightarrow> string" where
  "join_slash [] = []"
| "join_slash [x] = x"
| "join_slash (x # y # ys) = x @ [slash] @ join_slash (y # ys)"

text \<open>\<open>path.Clean\<close> on the elements of a path, the last one first.\<close>

definition clean_elem :: "bool \<Rightarrow> string \<Rightarrow> string list \<Rightarrow> string list" where
  "clean_elem rooted e st =
     (if e = [] \<or> e = ''.'' then st
      else if e = ''..'' then
        (case st of [] \<Rightarrow> if rooted then [] else [''..'']
         | x # xs \<Rightarrow> if x = ''..'' then ''..'' # st else xs)
      else e # st)"

definition path_Clean :: "string \<Rightarrow> string" where
  "path_Clean p =
     (let rooted = (p \<noteq> [] \<and> hd p = slash);
          es = rev (fold (clean_elem rooted) (split_slash p) []);
          out = (if rooted then [slash] else []) @ join_slash es
      in if out = [] then ''.'' else out)"

definition path_Join :: "string \<Rightarrow> string \<Rightarrow> string" where
  "path_Join a b =
     (let es = filter (\<lambda>e. e \<noteq> []) [a, b] in if es = [] then [] else path_Clean (join_slash es))"

section \<open>The file system\<close>

datatype fentry = File bytes nat | Dir nat

text \<open>\<open>fs_fault op p\<close> is the error of the machine for an operation on a path, if any.\<close>

record fsys =
  fs_ents :: "(string \<times> fentry) list"
  fs_newperm :: nat
  fs_fault :: "string \<Rightarrow> string \<Rightarrow> error option"

definition ErrNotExist :: error where
  "ErrNotExist = Err ''file does not exist''"

definition os_Stat :: "string \<Rightarrow> fsys \<Rightarrow> fentry result" where
  "os_Stat p f =
     (case fs_fault f ''stat'' p of
        Some e \<Rightarrow> Inl e
      | None \<Rightarrow> (case map_of (fs_ents f) p of None \<Rightarrow> Inl ErrNotExist | Some e \<Rightarrow> Inr e))"

definition os_Create :: "string \<Rightarrow> fsys \<Rightarrow> error option \<times> fsys" where
  "os_Create p f =
     (case fs_fault f ''create'' p of
        Some e \<Rightarrow> (Some e, f)
      | None \<Rightarrow>
          (case map_of (fs_ents f) p of
             Some (Dir _) \<Rightarrow> (Some (Err ''is a directory''), f)
           | Some (File _ perm) \<Rightarrow> (None, f\<lparr>fs_ents := AList.update p (File [] perm) (fs_ents f)\<rparr>)
           | None \<Rightarrow> (None, f\<lparr>fs_ents := AList.update p (File [] (fs_newperm f)) (fs_ents f)\<rparr>)))"

definition os_Chmod :: "string \<Rightarrow> nat \<Rightarrow> fsys \<Rightarrow> error option \<times> fsys" where
  "os_Chmod p m f =
     (case fs_fault f ''chmod'' p of
        Some e \<Rightarrow> (Some e, f)
      | None \<Rightarrow>
          (case map_of (fs_ents f) p of
             None \<Rightarrow> (Some ErrNotExist, f)
           | Some (File c _) \<Rightarrow> (None, f\<lparr>fs_ents := AList.update p (File c m) (fs_ents f)\<rparr>)
           | Some (Dir _) \<Rightarrow> (None, f\<lparr>fs_ents := AList.update p (Dir m) (fs_ents f)\<rparr>)))"

definition os_OpenFile :: "string \<Rightarrow> fsys \<Rightarrow> error option" where
  "os_OpenFile p f =
     (case fs_fault f ''open'' p of
        Some e \<Rightarrow> Some e
      | None \<Rightarrow> (case map_of (fs_ents f) p of None \<Rightarrow> Some ErrNotExist | Some _ \<Rightarrow> None))"

text \<open>Writing the whole content through a file handle, and reading it.\<close>

definition fd_Write :: "string \<Rightarrow> bytes \<Rightarrow> fsys \<Rightarrow> error option \<times> fsys" where
  "fd_Write p buf f =
     (case fs_fault f ''write'' p of
        Some e \<Rightarrow> (Some e, f)
      | None \<Rightarrow>
          (case map_of (fs_ents f) p of
             Some (File c m) \<Rightarrow> (None, f\<lparr>fs_ents := AList.update p (File (buf @ drop (length buf) c) m) (fs_ents f)\<rparr>)
           | _ \<Rightarrow> (Some (Err ''invalid argument''), f)))"

definition os_ReadFile :: "string \<Rightarrow> fsys \<Rightarrow> bytes result" where
  "os_ReadFile p f =
     (case fs_fault f ''read'' p of
        Some e \<Rightarrow> Inl e
      | None \<Rightarrow>
          (case map_of (fs_ents f) p of
             None \<Rightarrow> Inl ErrNotExist
           | Some (File c _) \<Rightarrow> Inr c
           | Some (Dir _) \<Rightarrow> Inl (Err ''is a directory'')))"

definition below :: "string \<Rightarrow> string \<Rightarrow> bool" where
  "below p q \<longleftrightarrow> q = p \<or> prefix (p @ [slash]) q"

definition os_RemoveAll :: "string \<Rightarrow> fsys \<Rightarrow> error option \<times> fsys" where
  "os_RemoveAll p f =
     (case fs_fault f ''remove'' p of
        Some e \<Rightarrow> (Some e, f)
      | None \<Rightarrow> (None, f\<lparr>fs_ents := filter (\<lambda>(q, _). \<not> below p q) (fs_ents f)\<rparr>))"

text \<open>The folder and the missing ones above it.\<close>

definition os_MkdirAll :: "string \<Rightarrow> nat \<Rightarrow> fsys \<Rightarrow> error option \<times> fsys" where
  "os_MkdirAll p m f =
     (case fs_fault f ''mkdir'' p of
        Some e \<Rightarrow> (Some e, f)
      | None \<Rightarrow>
          let up = filter (\<lambda>q. q \<noteq> [] \<and> below q p) (prefixes p)
          in if list_ex (\<lambda>q. case map_of (fs_ents f) q of Some (File _ _) \<Rightarrow> True | _ \<Rightarrow> False) up
             then (Some (Err ''not a directory''), f)
             else (None, f\<lparr>fs_ents := fs_ents f @ map (\<lambda>q. (q, Dir m)) (filter (\<lambda>q. map_of (fs_ents f) q = None) up)\<rparr>))"

section \<open>\<open>src/fs/fs.go\<close>\<close>

definition defaultDirectoryPermission :: nat where
  "defaultDirectoryPermission = 480"

definition rwFilePermission :: nat where
  "rwFilePermission = 384"

definition fs_Exists :: "string \<Rightarrow> fsys \<Rightarrow> bool \<times> error option" where
  "fs_Exists p f =
     (case os_Stat p f of
        Inr _ \<Rightarrow> (True, None)
      | Inl e \<Rightarrow> if e = ErrNotExist then (False, None) else (True, Some e))"

text \<open>The name of the folder or the empty string; a folder that cannot be made is a panic.\<close>

definition CreateSecureFolder :: "string \<Rightarrow> fsys \<Rightarrow> string result \<times> fsys" where
  "CreateSecureFolder folder f =
     (if \<not> fst (fs_Exists folder f) then
        (case os_MkdirAll folder defaultDirectoryPermission f of
           (Some e, f) \<Rightarrow> (Inl (Panic ''mkdir''), f)
         | (None, f) \<Rightarrow> (Inr folder, f))
      else
        (case os_Stat folder f of
           Inl _ \<Rightarrow> (Inr [], f)
         | Inr info \<Rightarrow>
             let perm = (case info of File _ m \<Rightarrow> m | Dir m \<Rightarrow> m)
             in if perm \<noteq> defaultDirectoryPermission then (Inr folder, f) else (Inr folder, f)))"

text \<open>The handle of the file, which is nil when the permissions cannot be changed.\<close>

definition CreateSecureFile :: "string \<Rightarrow> fsys \<Rightarrow> bool result \<times> fsys" where
  "CreateSecureFile p f =
     (case os_Create p f of
        (Some e, f) \<Rightarrow> (Inl e, f)
      | (None, f) \<Rightarrow>
          (case os_Chmod p rwFilePermission f of
             (Some _, f) \<Rightarrow> (Inr False, f)
           | (None, f) \<Rightarrow> (case os_OpenFile p f of Some e \<Rightarrow> (Inl e, f) | None \<Rightarrow> (Inr True, f))))"

text \<open>The entries of a folder, as \<open>ioutil.ReadDir\<close> lists them: sorted by name.\<close>

definition dir_entries :: "string \<Rightarrow> fsys \<Rightarrow> (string \<times> fentry) list" where
  "dir_entries p f =
     sort_key (\<lambda>e. map (\<lambda>c. of_char c :: nat) (fst e))
       (map (\<lambda>(q, e). (drop (length p + 1) q, e))
         (filter (\<lambda>(q, _). prefix (p @ [slash]) q \<and> slash \<notin> set (drop (length p + 1) q)) (fs_ents f)))"

definition fs_Files :: "string \<Rightarrow> fsys \<Rightarrow> string list result" where
  "fs_Files folderPath f =
     (case os_Stat folderPath f of
        Inl e \<Rightarrow> Inl e
      | Inr (File _ _) \<Rightarrow> Inl (Err ''not a directory'')
      | Inr (Dir _) \<Rightarrow>
          Inr (map (\<lambda>(n, _). path_Join folderPath n)
                (filter (\<lambda>(_, e). case e of File _ _ \<Rightarrow> True | Dir _ \<Rightarrow> False) (dir_entries folderPath f))))"

definition fs_FileExists :: "string \<Rightarrow> string \<Rightarrow> fsys \<Rightarrow> bool" where
  "fs_FileExists p name f = (case fs_Files p f of Inl _ \<Rightarrow> False | Inr l \<Rightarrow> list_ex (\<lambda>x. x = name) l)"

section \<open>Saving and loading\<close>

text \<open>
  The TOML codec; \<open>tm_decode\<close> takes the kind of struct to decode into. It is documented to
  decode what it encodes, for values whose strings it can represent.
\<close>

datatype toml_kind = PairK | PublicK | ShareK | GroupK

fun has_kind :: "toml_value \<Rightarrow> toml_kind \<Rightarrow> bool" where
  "has_kind (PairT _) k = (k = PairK)"
| "has_kind (PublicT _) k = (k = PublicK)"
| "has_kind (ShareT _) k = (k = ShareK)"
| "has_kind (GroupT _) k = (k = GroupK)"
| "has_kind _ k = False"

record toml_codec =
  tm_encode :: "toml_value \<Rightarrow> bytes"
  tm_decode :: "toml_kind \<Rightarrow> bytes \<Rightarrow> toml_value result"

definition toml_laws :: "toml_codec \<Rightarrow> toml_value set \<Rightarrow> bool" where
  "toml_laws C V \<longleftrightarrow> (\<forall>v \<in> V. \<forall>k. has_kind v k \<longrightarrow> tm_decode C k (tm_encode C v) = Inr v)"

definition store_Save :: "toml_codec \<Rightarrow> string \<Rightarrow> toml_value \<Rightarrow> bool \<Rightarrow> fsys \<Rightarrow> error option \<times> fsys" where
  "store_Save C p v secure f =
     (let (r, f) = (if secure then CreateSecureFile p f
                    else (case os_Create p f of (Some e, f) \<Rightarrow> (Inl e, f) | (None, f) \<Rightarrow> (Inr True, f)))
      in case r of
           Inl e \<Rightarrow> (Some (Wrap ''config: can't save %s to %s: %s'' e), f)
         | Inr False \<Rightarrow> (Some (Err ''invalid argument''), f)
         | Inr True \<Rightarrow> fd_Write p (tm_encode C v) f)"

definition store_Load :: "toml_codec \<Rightarrow> string \<Rightarrow> toml_kind \<Rightarrow> (toml_value \<Rightarrow> 'a result) \<Rightarrow> fsys \<Rightarrow> 'a result" where
  "store_Load C p k fromTOML f =
     (case os_ReadFile p f of
        Inl e \<Rightarrow> Inl e
      | Inr buf \<Rightarrow> (case tm_decode C k buf of Inl e \<Rightarrow> Inl e | Inr v \<Rightarrow> fromTOML v))"

definition store_Delete :: "string \<Rightarrow> fsys \<Rightarrow> error option \<times> fsys" where
  "store_Delete p f = os_RemoveAll p f"

section \<open>The file store\<close>

record fileStore =
  fl_baseFolder :: string
  fl_privateKeyFile :: string
  fl_publicKeyFile :: string
  fl_shareFile :: string
  fl_distKeyFile :: string
  fl_groupFile :: string

definition KeyFolderName :: string where "KeyFolderName = ''key''"
definition GroupFolderName :: string where "GroupFolderName = ''groups''"
definition keyFileName :: string where "keyFileName = ''drand_id''"
definition privateExtension :: string where "privateExtension = ''.private''"
definition publicExtension :: string where "publicExtension = ''.public''"
definition groupFileName :: string where "groupFileName = ''drand_group.toml''"
definition shareFileName :: string where "shareFileName = ''dist_key.private''"
definition distKeyFileName :: string where "distKeyFileName = ''dist_key.public''"

text \<open>An error stands for the end of the program.\<close>

definition NewFileStore :: "string \<Rightarrow> fsys \<Rightarrow> fileStore result \<times> fsys" where
  "NewFileStore baseFolder f =
     (case CreateSecureFolder baseFolder f of
        (Inl e, f) \<Rightarrow> (Inl e, f)
      | (Inr b, f) \<Rightarrow>
          if b = [] then (Inl (Panic ''exit''), f)
          else
            (case CreateSecureFolder (path_Join baseFolder KeyFolderName) f of
               (Inl e, f) \<Rightarrow> (Inl e, f)
             | (Inr keyFolder, f) \<Rightarrow>
                 (case CreateSecureFolder (path_Join baseFolder GroupFolderName) f of
                    (Inl e, f) \<Rightarrow> (Inl e, f)
                  | (Inr groupFolder, f) \<Rightarrow>
                      (Inr \<lparr>fl_baseFolder = baseFolder,
                            fl_privateKeyFile = path_Join keyFolder keyFileName @ privateExtension,
                            fl_publicKeyFile = path_Join keyFolder keyFileName @ publicExtension,
                            fl_shareFile = path_Join groupFolder shareFileName,
                            fl_distKeyFile = path_Join groupFolder distKeyFileName,
                            fl_groupFile = path_Join groupFolder groupFileName\<rparr>, f))))"

definition SaveKeyPair ::
  "toml_codec \<Rightarrow> ('p, 's) suite \<Rightarrow> fileStore \<Rightarrow> ('p, 's) Pair \<Rightarrow> fsys \<Rightarrow> error option \<times> fsys" where
  "SaveKeyPair C S s p f =
     (case store_Save C (fl_privateKeyFile s) (PairT (Pair_TOML S p)) True f of
        (Some e, f) \<Rightarrow> (Some e, f)
      | (None, f) \<Rightarrow> store_Save C (fl_publicKeyFile s) (PublicT (Identity_TOML S (pair_Public p))) False f)"

definition LoadKeyPair :: "toml_codec \<Rightarrow> ('p, 's) suite \<Rightarrow> fileStore \<Rightarrow> fsys \<Rightarrow> ('p, 's) Pair result" where
  "LoadKeyPair C S s f =
     (case store_Load C (fl_privateKeyFile s) PairK (Pair_FromTOML S) f of
        Inl e \<Rightarrow> Inl e
      | Inr k \<Rightarrow>
          (case store_Load C (fl_publicKeyFile s) PublicK (Identity_FromTOML S) f of
             Inl e \<Rightarrow> Inl e
           | Inr i \<Rightarrow> Inr \<lparr>pair_Key = k, pair_Public = i\<rparr>))"

definition zero_group :: "'p Group" where
  "zero_group = \<lparr>g_Threshold = 0, g_Period = 0, g_CatchupPeriod = 0, g_Nodes = [], g_GenesisTime = 0, g_GenesisSeed = None,
     g_TransitionTime = 0, g_PublicKey = None\<rparr>"

definition Store_LoadGroup :: "toml_codec \<Rightarrow> ('p, 's) suite \<Rightarrow> fileStore \<Rightarrow> fsys \<Rightarrow> 'p Group result" where
  "Store_LoadGroup C S s f = store_Load C (fl_groupFile s) GroupK (Group_FromTOML S zero_group) f"

text \<open>\<open>SaveGroup\<close> also leaves the genesis seed in the group it saves.\<close>

definition SaveGroup ::
  "toml_codec \<Rightarrow> ('p, 's) suite \<Rightarrow> fileStore \<Rightarrow> 'p Group \<Rightarrow> fsys \<Rightarrow> error option \<times> 'p Group \<times> fsys" where
  "SaveGroup C S s g f =
     (let (t, g') = Group_TOML S g; (e, f') = store_Save C (fl_groupFile s) (GroupT t) False f in (e, g', f'))"

definition SaveShare ::
  "toml_codec \<Rightarrow> ('p, 's) suite \<Rightarrow> fileStore \<Rightarrow> ('p, 's) Share \<Rightarrow> fsys \<Rightarrow> error option \<times> fsys" where
  "SaveShare C S s share f = store_Save C (fl_shareFile s) (ShareT (Share_TOML S share)) True f"

definition LoadShare :: "toml_codec \<Rightarrow> ('p, 's) suite \<Rightarrow> fileStore \<Rightarrow> fsys \<Rightarrow> ('p, 's) Share result" where
  "LoadShare C S s f = store_Load C (fl_shareFile s) ShareK (Share_FromTOML S) f"

definition Store_Reset :: "fileStore \<Rightarrow> fsys \<Rightarrow> error option \<times> fsys" where
  "Store_Reset s f =
     (case store_Delete (fl_distKeyFile s) f of
        (Some e, f) \<Rightarrow> (Some (Wrap ''drand: err deleting dist. key file: %v'' e), f)
      | (None, f) \<Rightarrow>
          (case store_Delete (fl_shareFile s) f of
             (Some e, f) \<Rightarrow> (Some (Wrap ''drand: errd eleting share file: %v'' e), f)
           | (None, f) \<Rightarrow>
               (case store_Delete (fl_groupFile s) f of
                  (Some e, f) \<Rightarrow> (Some (Wrap ''drand: err deleting group file: %v'' e), f)
                | (None, f) \<Rightarrow> (None, f))))"

section \<open>Clean paths\<close>

definition plain_name :: "string \<Rightarrow> bool" where
  "plain_name n \<longleftrightarrow> n \<noteq> [] \<and> n \<noteq> ''.'' \<and> n \<noteq> ''..'' \<and> slash \<notin> set n"

definition clean_path :: "string \<Rightarrow> bool" where
  "clean_path a \<longleftrightarrow> (\<exists>bs. bs \<noteq> [] \<and> list_all plain_name bs \<and> a = slash # join_slash bs)"

lemma join_slash_snoc: "bs \<noteq> [] \<Longrightarrow> join_slash (bs @ [n]) = join_slash bs @ [slash] @ n"
  by (induction bs rule: join_slash.induct) simp_all

lemma split_slash_ne [simp]: "split_slash p \<noteq> []"
  by (induction p) auto

lemma split_slash_name: "slash \<notin> set n \<Longrightarrow> split_slash n = [n]"
  by (induction n) auto

lemma split_slash_append: "slash \<notin> set n \<Longrightarrow> split_slash (n @ slash # p) = n # split_slash p"
  by (induction n) auto

lemma split_join: "bs \<noteq> [] \<Longrightarrow> list_all plain_name bs \<Longrightarrow> split_slash (join_slash bs) = bs"
  by (induction bs rule: join_slash.induct) (simp_all add: plain_name_def split_slash_name split_slash_append)

lemma fold_clean_plain: "list_all plain_name bs \<Longrightarrow> fold (clean_elem r) bs st = rev bs @ st"
  by (induction bs arbitrary: st) (auto simp: clean_elem_def plain_name_def)

lemma path_Join_clean:
  assumes "clean_path a" "plain_name n"
  shows "path_Join a n = a @ [slash] @ n" "clean_path (a @ [slash] @ n)"
proof -
  obtain bs where bs: "bs \<noteq> []" "list_all plain_name bs" "a = slash # join_slash bs" using assms(1) by (auto simp: clean_path_def)
  have j: "a @ [slash] @ n = slash # join_slash (bs @ [n])" using bs by (simp add: join_slash_snoc)
  have pl: "list_all plain_name (bs @ [n])" using bs assms(2) by simp
  have "split_slash (slash # join_slash (bs @ [n])) = [] # (bs @ [n])" using split_join [OF _ pl] by simp
  moreover have "fold (clean_elem True) ([] # (bs @ [n])) [] = rev (bs @ [n])"
    using fold_clean_plain [OF pl, of True "[]"] by (simp add: clean_elem_def)
  ultimately have "path_Clean (slash # join_slash (bs @ [n])) = slash # join_slash (bs @ [n])"
    by (simp only: path_Clean_def Let_def) simp
  then show "path_Join a n = a @ [slash] @ n"
    using assms(2) j bs(3) by (simp add: path_Join_def plain_name_def Let_def)
  show "clean_path (a @ [slash] @ n)" unfolding j clean_path_def using bs assms(2) by (intro exI [of _ "bs @ [n]"]) simp
qed

section \<open>Files\<close>

lemma os_Create_ok:
  assumes "os_Create p f = (None, f')"
  shows "\<exists>m. map_of (fs_ents f') = (map_of (fs_ents f))(p \<mapsto> File [] m) \<and> fs_fault f' = fs_fault f"
  using assms by (auto simp: os_Create_def update_conv' split: option.splits fentry.splits)

lemma fd_Write_ok:
  assumes "fd_Write p buf f = (None, f')" "map_of (fs_ents f) p = Some (File [] m)"
  shows "map_of (fs_ents f') = (map_of (fs_ents f))(p \<mapsto> File buf m) \<and> fs_fault f' = fs_fault f"
  using assms by (auto simp: fd_Write_def update_conv' split: option.splits)

text \<open>A file that was saved holds the value, and only that file changes.\<close>

lemma store_Save_ok:
  assumes "store_Save C p v secure f = (None, f')"
  shows "\<exists>m. map_of (fs_ents f') = (map_of (fs_ents f))(p \<mapsto> File (tm_encode C v) m) \<and> fs_fault f' = fs_fault f
       \<and> (secure \<longrightarrow> m = rwFilePermission)"
proof (cases "os_Create p f")
  case (Pair e f1)
  show ?thesis
  proof (cases e)
    case (Some x)
    then show ?thesis using assms Pair by (simp add: store_Save_def CreateSecureFile_def split: if_splits)
  next
    case None
    then obtain m where m: "map_of (fs_ents f1) = (map_of (fs_ents f))(p \<mapsto> File [] m)" "fs_fault f1 = fs_fault f"
      using os_Create_ok Pair by blast
    show ?thesis
    proof (cases secure)
      case False
      then have w: "fd_Write p (tm_encode C v) f1 = (None, f')" using assms Pair None by (simp add: store_Save_def)
      show ?thesis using fd_Write_ok [OF w, of m] m False by (intro exI [of _ m]) simp
    next
      case True
      then obtain f2 where f2: "os_Chmod p rwFilePermission f1 = (None, f2)" "fd_Write p (tm_encode C v) f2 = (None, f')"
        using assms Pair None by (auto simp: store_Save_def CreateSecureFile_def split: prod.splits option.splits bool.splits)
      then have "map_of (fs_ents f2) = (map_of (fs_ents f1))(p \<mapsto> File [] rwFilePermission)" "fs_fault f2 = fs_fault f1"
        using m by (auto simp: os_Chmod_def update_conv' split: option.splits)
      then show ?thesis using fd_Write_ok [OF f2(2), of rwFilePermission] m True by simp
    qed
  qed
qed

lemma store_Load_file:
  assumes "toml_laws C V" "v \<in> V" "has_kind v k" "map_of (fs_ents f) p = Some (File (tm_encode C v) m)" "fs_fault f ''read'' p = None"
  shows "store_Load C p k fromTOML f = fromTOML v"
  using assms by (simp add: store_Load_def os_ReadFile_def toml_laws_def)

lemma map_of_remove: "map_of (filter (\<lambda>(q, _). \<not> below p q) es) q = (if below p q then None else map_of es q)"
  by (induction es) auto

lemma store_Delete_ok:
  "store_Delete p f = (None, f') \<Longrightarrow>
     map_of (fs_ents f') q = (if below p q then None else map_of (fs_ents f) q) \<and> fs_fault f' = fs_fault f"
  by (auto simp: store_Delete_def os_RemoveAll_def map_of_remove split: option.splits)

lemma CreateSecureFolder_ok:
  assumes "CreateSecureFolder p f = (Inr q, f')" "\<forall>p. fs_fault f ''stat'' p = None"
  shows "q = p \<and> fs_fault f' = fs_fault f"
  using assms by (auto simp: CreateSecureFolder_def fs_Exists_def os_Stat_def os_MkdirAll_def Let_def
      split: if_splits option.splits prod.splits)

section \<open>The files of a node\<close>

lemma NewFileStore_paths:
  assumes "NewFileStore base f = (Inr s, f')" "clean_path base" "\<forall>p. fs_fault f ''stat'' p = None"
  shows "fl_privateKeyFile s = base @ ''/key/drand_id.private'' \<and> fl_publicKeyFile s = base @ ''/key/drand_id.public''
       \<and> fl_shareFile s = base @ ''/groups/dist_key.private'' \<and> fl_distKeyFile s = base @ ''/groups/dist_key.public''
       \<and> fl_groupFile s = base @ ''/groups/drand_group.toml'' \<and> fs_fault f' = fs_fault f"
proof -
  obtain b f1 where 1: "CreateSecureFolder base f = (Inr b, f1)"
    using assms(1) by (auto simp: NewFileStore_def split: prod.splits sum.splits)
  obtain kf f2 where 2: "CreateSecureFolder (path_Join base KeyFolderName) f1 = (Inr kf, f2)"
    using assms(1) 1 by (auto simp: NewFileStore_def split: prod.splits sum.splits if_splits)
  obtain gf where 3: "CreateSecureFolder (path_Join base GroupFolderName) f2 = (Inr gf, f')"
    and s: "s = \<lparr>fl_baseFolder = base, fl_privateKeyFile = path_Join kf keyFileName @ privateExtension,
              fl_publicKeyFile = path_Join kf keyFileName @ publicExtension, fl_shareFile = path_Join gf shareFileName,
              fl_distKeyFile = path_Join gf distKeyFileName, fl_groupFile = path_Join gf groupFileName\<rparr>"
    using assms(1) 1 2 by (auto simp: NewFileStore_def split: prod.splits sum.splits if_splits)
  note 4 = CreateSecureFolder_ok [OF 1 assms(3)]
  have 5: "kf = path_Join base KeyFolderName \<and> fs_fault f2 = fs_fault f" using CreateSecureFolder_ok [OF 2] 4 assms(3) by simp
  have 6: "gf = path_Join base GroupFolderName \<and> fs_fault f' = fs_fault f" using CreateSecureFolder_ok [OF 3] 5 assms(3) by simp
  have n: "plain_name KeyFolderName" "plain_name GroupFolderName" "plain_name keyFileName" "plain_name shareFileName"
    "plain_name distKeyFileName" "plain_name groupFileName"
    by (simp_all add: plain_name_def KeyFolderName_def GroupFolderName_def keyFileName_def shareFileName_def distKeyFileName_def
        groupFileName_def slash_def)
  note k = path_Join_clean [OF assms(2) n(1)] and g = path_Join_clean [OF assms(2) n(2)]
  show ?thesis
    using 5 6 k g path_Join_clean(1) [OF k(2) n(3)] path_Join_clean(1) [OF g(2) n(4)] path_Join_clean(1) [OF g(2) n(5)]
      path_Join_clean(1) [OF g(2) n(6)]
    by (simp add: s KeyFolderName_def GroupFolderName_def keyFileName_def shareFileName_def distKeyFileName_def groupFileName_def
        privateExtension_def publicExtension_def slash_def)
qed

text \<open>The values a node saves.\<close>

definition node_values :: "('p, 's) suite \<Rightarrow> ('p, 's) Pair \<Rightarrow> ('p, 's) Share \<Rightarrow> 'p Group \<Rightarrow> toml_value set" where
  "node_values S kp sh g =
     {PairT (Pair_TOML S kp), PublicT (Identity_TOML S (pair_Public kp)), ShareT (Share_TOML S sh), GroupT (fst (Group_TOML S g))}"

text \<open>
  C28. The files of a node: after the key pair, the share and the group were saved, all three
  load again as they were, the group with its genesis seed; the two private files can be read
  by their owner only; and a reset removes the share and the group but leaves the key pair.
\<close>

theorem key_files_roundtrip:
  fixes S :: "('p, 's) suite"
  assumes "codec_laws S" "toml_laws C (node_values S kp sh g)" "NewFileStore base f = (Inr s, f1)" "clean_path base"
    and "\<forall>p. fs_fault f ''stat'' p = None" "\<forall>p. fs_fault f ''read'' p = None"
    and "SaveKeyPair C S s kp f1 = (None, f2)" "SaveShare C S s sh f2 = (None, f3)" "SaveGroup C S s g f3 = (None, g', f4)"
    and "group_wf g" "dkg_MinimumT S (Group_Len g) \<le> g_Threshold g" "fst (Group_GetGenesisSeed S g) \<noteq> []"
    and "Store_Reset s f4 = (None, f5)"
  shows "LoadKeyPair C S s f4 = Inr kp \<and> LoadShare C S s f4 = Inr sh \<and> Store_LoadGroup C S s f4 = Inr (with_seed S g)
       \<and> (\<forall>p \<in> {fl_privateKeyFile s, fl_shareFile s}. \<exists>c. os_Stat p f4 = Inr (File c rwFilePermission))
       \<and> LoadKeyPair C S s f5 = Inr kp \<and> LoadShare C S s f5 = Inl ErrNotExist \<and> Store_LoadGroup C S s f5 = (Inl ErrNotExist :: 'p Group result)"
proof -
  note pth = NewFileStore_paths [OF assms(3-5)]
  let ?prv = "fl_privateKeyFile s" and ?pub = "fl_publicKeyFile s" and ?sh = "fl_shareFile s" and ?gr = "fl_groupFile s"
  have d: "distinct [?prv, ?pub, ?sh, ?gr]" using pth by simp
  have nb: "\<not> below x y" if "x \<in> {fl_distKeyFile s, ?sh, ?gr}" "y \<in> {?prv, ?pub}" for x y
    using that pth by (auto simp: below_def slash_def)
  have bl: "below ?sh ?sh" "below ?gr ?gr" by (simp_all add: below_def)
  obtain f1' where a: "store_Save C ?prv (PairT (Pair_TOML S kp)) True f1 = (None, f1')"
    "store_Save C ?pub (PublicT (Identity_TOML S (pair_Public kp))) False f1' = (None, f2)"
    using assms(7) by (auto simp: SaveKeyPair_def split: prod.splits option.splits)
  have b: "store_Save C ?sh (ShareT (Share_TOML S sh)) True f2 = (None, f3)" using assms(8) by (simp add: SaveShare_def)
  have c: "store_Save C ?gr (GroupT (fst (Group_TOML S g))) False f3 = (None, f4)"
    using assms(9) by (auto simp: SaveGroup_def Let_def split: prod.splits)
  obtain m1 m2 where
    e4: "map_of (fs_ents f4) ?prv = Some (File (tm_encode C (PairT (Pair_TOML S kp))) rwFilePermission)"
      "map_of (fs_ents f4) ?pub = Some (File (tm_encode C (PublicT (Identity_TOML S (pair_Public kp)))) m1)"
      "map_of (fs_ents f4) ?sh = Some (File (tm_encode C (ShareT (Share_TOML S sh))) rwFilePermission)"
      "map_of (fs_ents f4) ?gr = Some (File (tm_encode C (GroupT (fst (Group_TOML S g)))) m2)"
    and fl: "fs_fault f4 = fs_fault f"
    using store_Save_ok [OF a(1)] store_Save_ok [OF a(2)] store_Save_ok [OF b] store_Save_ok [OF c] d pth by auto
  have rd: "fs_fault f4 ''read'' p = None" "fs_fault f4 ''stat'' p = None" for p using fl assms(5,6) by simp_all
  obtain f4' f4'' where r: "store_Delete (fl_distKeyFile s) f4 = (None, f4')" "store_Delete ?sh f4' = (None, f4'')"
    "store_Delete ?gr f4'' = (None, f5)"
    using assms(13) by (auto simp: Store_Reset_def split: prod.splits option.splits)
  note del = store_Delete_ok [OF r(1)] store_Delete_ok [OF r(2)] store_Delete_ok [OF r(3)]
  have e5: "map_of (fs_ents f5) ?prv = map_of (fs_ents f4) ?prv" "map_of (fs_ents f5) ?pub = map_of (fs_ents f4) ?pub"
    "map_of (fs_ents f5) ?sh = None" "map_of (fs_ents f5) ?gr = None" "fs_fault f5 = fs_fault f4"
    using del nb bl by auto
  note ld = store_Load_file [OF assms(2)]
  have "LoadKeyPair C S s h = Inr kp" if "map_of (fs_ents h) ?prv = map_of (fs_ents f4) ?prv"
      "map_of (fs_ents h) ?pub = map_of (fs_ents f4) ?pub" "fs_fault h = fs_fault f4" for h
    using that e4(1,2) rd assms(1) ld [of "PairT (Pair_TOML S kp)" PairK h ?prv rwFilePermission "Pair_FromTOML S"]
      ld [of "PublicT (Identity_TOML S (pair_Public kp))" PublicK h ?pub m1 "Identity_FromTOML S"]
    by (simp add: LoadKeyPair_def wire node_values_def)
  moreover have "LoadShare C S s f4 = Inr sh" "Store_LoadGroup C S s f4 = Inr (with_seed S g)"
    using e4(3,4) rd assms(1,10-12) ld [of "ShareT (Share_TOML S sh)" ShareK f4 ?sh rwFilePermission "Share_FromTOML S"] ld [of "GroupT (fst (Group_TOML S g))" GroupK f4 ?gr m2 "Group_FromTOML S zero_group"]
    by (simp_all add: LoadShare_def Store_LoadGroup_def wire zero_group_def node_values_def)
  ultimately show ?thesis
    using e4 e5 rd by (auto simp: os_Stat_def LoadShare_def Store_LoadGroup_def store_Load_def os_ReadFile_def)
qed

text \<open>A codec that numbers a few values, and an empty file system without faults.\<close>

definition example_toml :: "toml_value list \<Rightarrow> toml_codec" where
  "example_toml vs =
     \<lparr>tm_encode = (\<lambda>v. case index_of v vs of None \<Rightarrow> [] | Some i \<Rightarrow> be_bytes 1 i),
      tm_decode = (\<lambda>k b. if be_val b < length vs then Inr (vs ! be_val b) else Inl (ExtErr ''toml''))\<rparr>"

lemma example_toml_laws: "length vs \<le> 256 \<Longrightarrow> toml_laws (example_toml vs) (set vs)"
proof -
  assume l: "length vs \<le> 256"
  have "tm_decode (example_toml vs) k (tm_encode (example_toml vs) v) = Inr v" if v: "v \<in> set vs" for v k
  proof -
    obtain i where i: "index_of v vs = Some i" using v index_of_None [of v vs] by fastforce
    then have "i < length vs" "vs ! i = v" using index_of_nth by fastforce+
    moreover have "be_val (be_bytes 1 i) = i" using be_val_be_bytes [of 1 i] calculation(1) l by simp
    ultimately show ?thesis using i by (simp add: example_toml_def del: be_bytes.simps One_nat_def)
  qed
  then show ?thesis by (simp add: toml_laws_def)
qed

definition empty_fsys :: fsys where
  "empty_fsys = \<lparr>fs_ents = [], fs_newperm = 420, fs_fault = (\<lambda>_ _. None)\<rparr>"

text \<open>On a machine without faults, saving and resetting succeed.\<close>

definition no_dirs :: "fileStore \<Rightarrow> fsys \<Rightarrow> bool" where
  "no_dirs s f \<longleftrightarrow> fs_fault f = (\<lambda>_ _. None)
     \<and> (\<forall>p \<in> {fl_privateKeyFile s, fl_publicKeyFile s, fl_shareFile s, fl_groupFile s}. \<forall>m. map_of (fs_ents f) p \<noteq> Some (Dir m))"

lemma store_Save_succeeds:
  assumes "no_dirs s f" "p \<in> {fl_privateKeyFile s, fl_publicKeyFile s, fl_shareFile s, fl_groupFile s}"
  obtains f' where "store_Save C p v secure f = (None, f')" "no_dirs s f'"
proof -
  have n: "fs_fault f = (\<lambda>_ _. None)" "\<forall>m. map_of (fs_ents f) p \<noteq> Some (Dir m)" using assms by (auto simp: no_dirs_def)
  obtain m where c: "os_Create p f = (None, f\<lparr>fs_ents := AList.update p (File [] m) (fs_ents f)\<rparr>)"
    using n by (cases "map_of (fs_ents f) p"; cases "the (map_of (fs_ents f) p)") (auto simp: os_Create_def)
  obtain f' where f': "store_Save C p v secure f = (None, f')"
    using n(1) by (cases secure) (simp_all add: store_Save_def CreateSecureFile_def c os_Chmod_def os_OpenFile_def fd_Write_def update_conv')
  obtain m where "map_of (fs_ents f') = (map_of (fs_ents f))(p \<mapsto> File (tm_encode C v) m)" "fs_fault f' = fs_fault f"
    using store_Save_ok [OF f'] by blast
  then have "no_dirs s f'" using assms(1) unfolding no_dirs_def by simp
  then show ?thesis using that f' by blast
qed

lemma saves_succeed:
  assumes "no_dirs s f1"
  obtains f2 f3 g' f4 f5 where "SaveKeyPair C S s kp f1 = (None, f2)" "SaveShare C S s sh f2 = (None, f3)"
    "SaveGroup C S s g f3 = (None, g', f4)" "Store_Reset s f4 = (None, f5)"
proof -
  obtain fa where fa: "store_Save C (fl_privateKeyFile s) (PairT (Pair_TOML S kp)) True f1 = (None, fa)" "no_dirs s fa"
    by (rule store_Save_succeeds [OF assms, of "fl_privateKeyFile s" C "PairT (Pair_TOML S kp)" True]) auto
  obtain f2 where f2: "store_Save C (fl_publicKeyFile s) (PublicT (Identity_TOML S (pair_Public kp))) False fa = (None, f2)" "no_dirs s f2"
    by (rule store_Save_succeeds [OF fa(2), of "fl_publicKeyFile s" C "PublicT (Identity_TOML S (pair_Public kp))" False]) auto
  obtain f3 where f3: "store_Save C (fl_shareFile s) (ShareT (Share_TOML S sh)) True f2 = (None, f3)" "no_dirs s f3"
    by (rule store_Save_succeeds [OF f2(2), of "fl_shareFile s" C "ShareT (Share_TOML S sh)" True]) auto
  obtain f4 where f4: "store_Save C (fl_groupFile s) (GroupT (fst (Group_TOML S g))) False f3 = (None, f4)" "no_dirs s f4"
    by (rule store_Save_succeeds [OF f3(2), of "fl_groupFile s" C "GroupT (fst (Group_TOML S g))" False]) auto
  obtain f5 where "Store_Reset s f4 = (None, f5)"
    using f4(2) by (auto simp: no_dirs_def Store_Reset_def store_Delete_def os_RemoveAll_def)
  then show ?thesis
    using that [of f2 f3 "snd (Group_TOML S g)" f4 f5] fa(1) f2(1) f3(1) f4(1)
    by (simp add: SaveKeyPair_def SaveShare_def SaveGroup_def split_beta Let_def)
qed

lemma map_of_append_const:
  "map_of (es @ map (\<lambda>q. (q, d)) ys) q = Some e \<Longrightarrow> map_of es q = Some e \<or> q \<in> set ys \<and> e = d"
  by (auto simp: map_add_Some_iff dest!: map_of_SomeD)

lemma CreateSecureFolder_new:
  assumes "fs_fault f = (\<lambda>_ _. None)" "map_of (fs_ents f) p = None"
    and "\<forall>q c m. map_of (fs_ents f) q \<noteq> Some (File c m)"
  shows "\<exists>f'. CreateSecureFolder p f = (Inr p, f') \<and> fs_fault f' = fs_fault f
       \<and> (\<forall>q c m. map_of (fs_ents f') q \<noteq> Some (File c m))
       \<and> (\<forall>q. map_of (fs_ents f') q \<noteq> None \<longrightarrow> map_of (fs_ents f) q \<noteq> None \<or> q \<noteq> [] \<and> below q p)"
proof -
  define up where "up = filter (\<lambda>q. q \<noteq> [] \<and> below q p) (prefixes p)"
  let ?new = "filter (\<lambda>q. map_of (fs_ents f) q = None) up"
  let ?f = "f\<lparr>fs_ents := fs_ents f @ map (\<lambda>q. (q, Dir defaultDirectoryPermission)) ?new\<rparr>"
  have sup: "q \<noteq> [] \<and> below q p" if "q \<in> set up" for q using that unfolding up_def set_filter by blast
  have "\<not> (case map_of (fs_ents f) q of Some (File _ _) \<Rightarrow> True | _ \<Rightarrow> False)" for q
    using spec [OF assms(3), of q] by (simp split: option.split fentry.split)
  then have "\<not> list_ex (\<lambda>q. case map_of (fs_ents f) q of Some (File _ _) \<Rightarrow> True | _ \<Rightarrow> False) up"
    unfolding list_ex_iff by blast
  then have mk: "os_MkdirAll p defaultDirectoryPermission f = (None, ?f)"
    unfolding os_MkdirAll_def up_def [symmetric] Let_def using assms(1) by simp
  have ex: "\<not> fst (fs_Exists p f)" using assms(1,2) by (simp add: fs_Exists_def os_Stat_def ErrNotExist_def)
  have cr: "CreateSecureFolder p f = (Inr p, ?f)" unfolding CreateSecureFolder_def mk using ex by simp
  have new: "map_of (fs_ents f) q = Some e \<or> q \<noteq> [] \<and> below q p \<and> e = Dir defaultDirectoryPermission"
    if "map_of (fs_ents ?f) q = Some e" for q e
  proof -
    have "map_of (fs_ents f @ map (\<lambda>q. (q, Dir defaultDirectoryPermission)) ?new) q = Some e" using that by simp
    from map_of_append_const [OF this] show ?thesis using sup by auto
  qed
  have nf: "map_of (fs_ents ?f) q \<noteq> Some (File c m)" for q c m using new [of q "File c m"] assms(3) by blast
  have dm: "map_of (fs_ents f) q \<noteq> None \<or> q \<noteq> [] \<and> below q p" if "map_of (fs_ents ?f) q \<noteq> None" for q
    using new [of q] that by blast
  show ?thesis using cr nf dm by (intro exI [of _ ?f] conjI allI impI) (assumption | rule nf | simp | blast)+
qed

lemma below_prefixes: "below q p \<Longrightarrow> q \<in> set (prefixes p)"
  by (auto simp: below_def dest: append_prefixD)

lemma example_prefixes:
  "filter (\<lambda>q. q \<noteq> [] \<and> below q ''/d'') (prefixes ''/d'') = [''/d'']"
  "filter (\<lambda>q. q \<noteq> [] \<and> below q ''/d/key'') (prefixes ''/d/key'') = [''/d'', ''/d/key'']"
  "filter (\<lambda>q. q \<noteq> [] \<and> below q ''/d/groups'') (prefixes ''/d/groups'') = [''/d'', ''/d/groups'']"
  by code_simp+

lemma example_below:
  "q \<noteq> [] \<Longrightarrow> below q ''/d'' \<Longrightarrow> q = ''/d''"
  "q \<noteq> [] \<Longrightarrow> below q ''/d/key'' \<Longrightarrow> q \<in> {''/d'', ''/d/key''}"
  "q \<noteq> [] \<Longrightarrow> below q ''/d/groups'' \<Longrightarrow> q \<in> {''/d'', ''/d/groups''}"
proof -
  have up: "q \<in> set (filter (\<lambda>q. q \<noteq> [] \<and> below q p) (prefixes p))" if "q \<noteq> []" "below q p" for p
    using that below_prefixes [of q p] by simp
  show "q \<noteq> [] \<Longrightarrow> below q ''/d'' \<Longrightarrow> q = ''/d''"
    "q \<noteq> [] \<Longrightarrow> below q ''/d/key'' \<Longrightarrow> q \<in> {''/d'', ''/d/key''}"
    "q \<noteq> [] \<Longrightarrow> below q ''/d/groups'' \<Longrightarrow> q \<in> {''/d'', ''/d/groups''}"
    using up [of "''/d''", unfolded example_prefixes] up [of "''/d/key''", unfolded example_prefixes]
      up [of "''/d/groups''", unfolded example_prefixes] by simp_all
qed

lemma example_file_store:
  obtains s f1 where "NewFileStore ''/d'' empty_fsys = (Inr s, f1)" "fs_fault f1 = (\<lambda>_ _. None)"
    "\<forall>q. map_of (fs_ents f1) q \<noteq> None \<longrightarrow> q \<in> {''/d'', ''/d/key'', ''/d/groups''}"
proof -
  have cp: "clean_path ''/d''" by (auto simp: clean_path_def plain_name_def slash_def intro!: exI [of _ "[''d'']"])
  have j: "path_Join ''/d'' KeyFolderName = ''/d/key''" "path_Join ''/d'' GroupFolderName = ''/d/groups''"
    using path_Join_clean(1) [OF cp] by (simp_all add: plain_name_def KeyFolderName_def GroupFolderName_def slash_def)
  have e: "fs_fault empty_fsys = (\<lambda>_ _. None)" "fs_ents empty_fsys = []" by (simp_all add: empty_fsys_def)
  obtain fa where fa: "CreateSecureFolder ''/d'' empty_fsys = (Inr ''/d'', fa)" "fs_fault fa = (\<lambda>_ _. None)"
    "\<forall>q c m. map_of (fs_ents fa) q \<noteq> Some (File c m)" "\<forall>q. map_of (fs_ents fa) q \<noteq> None \<longrightarrow> q = ''/d''"
    using CreateSecureFolder_new [of empty_fsys "''/d''"] e example_below(1) by fastforce
  have "map_of (fs_ents fa) ''/d/key'' = None" using fa(4) by auto
  from CreateSecureFolder_new [OF fa(2) this fa(3)] obtain fb where fb: "CreateSecureFolder ''/d/key'' fa = (Inr ''/d/key'', fb)"
    "fs_fault fb = fs_fault fa" "\<forall>q c m. map_of (fs_ents fb) q \<noteq> Some (File c m)"
    "\<forall>q. map_of (fs_ents fb) q \<noteq> None \<longrightarrow> map_of (fs_ents fa) q \<noteq> None \<or> q \<noteq> [] \<and> below q ''/d/key''" by blast
  have db: "\<forall>q. map_of (fs_ents fb) q \<noteq> None \<longrightarrow> q \<in> {''/d'', ''/d/key''}" using fb(4) fa(4) example_below(2) by blast
  have fbn: "fs_fault fb = (\<lambda>_ _. None)" using fb(2) fa(2) by simp
  have "map_of (fs_ents fb) ''/d/groups'' = None" using db by auto
  from CreateSecureFolder_new [OF fbn this fb(3)] obtain fc where fc: "CreateSecureFolder ''/d/groups'' fb = (Inr ''/d/groups'', fc)"
    "fs_fault fc = fs_fault fb"
    "\<forall>q. map_of (fs_ents fc) q \<noteq> None \<longrightarrow> map_of (fs_ents fb) q \<noteq> None \<or> q \<noteq> [] \<and> below q ''/d/groups''" by blast
  have dc: "\<forall>q. map_of (fs_ents fc) q \<noteq> None \<longrightarrow> q \<in> {''/d'', ''/d/key'', ''/d/groups''}"
    using fc(3) db example_below(3) by blast
  have "fs_fault fc = (\<lambda>_ _. None)" using fc(2) fbn by simp
  then show ?thesis using that [OF _ _ dc] fa(1) fb(1) fc(1) by (simp add: NewFileStore_def j)
qed

theorem key_files_roundtrip_witness:
  "\<exists>C s f1 f2 f3 f4 f5 g'. NewFileStore ''/d'' empty_fsys = (Inr s, f1)
     \<and> SaveKeyPair C plain_suite s (NewKeyPair plain_suite [1] ''a:1'') f1 = (None, f2)
     \<and> SaveShare C plain_suite s \<lparr>Commits = [[3], [4]], share_Share = \<lparr>sh_I = 0, sh_V = [5]\<rparr>\<rparr> f2 = (None, f3)
     \<and> SaveGroup C plain_suite s example_group f3 = (None, g', f4)
     \<and> Store_Reset s f4 = (None, f5) \<and> LoadKeyPair C plain_suite s f5 = Inr (NewKeyPair plain_suite [1] ''a:1'')"
proof -
  let ?S = plain_suite and ?kp = "NewKeyPair plain_suite [1] ''a:1''"
  let ?sh = "\<lparr>Commits = [[3], [4]], share_Share = \<lparr>sh_I = 0, sh_V = [5]\<rparr>\<rparr> :: (bytes, bytes) Share" and ?g = example_group
  let ?vs = "[PairT (Pair_TOML ?S ?kp), PublicT (Identity_TOML ?S (pair_Public ?kp)), ShareT (Share_TOML ?S ?sh), GroupT (fst (Group_TOML ?S ?g))]"
  let ?C = "example_toml ?vs"
  have laws: "toml_laws ?C (node_values ?S ?kp ?sh ?g)" using example_toml_laws [of ?vs] by (simp add: node_values_def)
  obtain s f1 where s: "NewFileStore ''/d'' empty_fsys = (Inr s, f1)" "fs_fault f1 = (\<lambda>_ _. None)"
    "\<forall>q. map_of (fs_ents f1) q \<noteq> None \<longrightarrow> q \<in> {''/d'', ''/d/key'', ''/d/groups''}" by (rule example_file_store)
  have cp: "clean_path ''/d''" by (auto simp: clean_path_def plain_name_def slash_def intro!: exI [of _ "[''d'']"])
  have nf: "\<forall>p. fs_fault empty_fsys ''stat'' p = None" "\<forall>p. fs_fault empty_fsys ''read'' p = None" by (simp_all add: empty_fsys_def)
  note pth = NewFileStore_paths [OF s(1) cp nf(1)]
  have "map_of (fs_ents f1) p = None" if "p \<in> {fl_privateKeyFile s, fl_publicKeyFile s, fl_shareFile s, fl_groupFile s}" for p
    using that s(3) pth by auto
  then have "no_dirs s f1" using s(2) unfolding no_dirs_def by auto
  then obtain f2 f3 g' f4 f5 where sv: "SaveKeyPair ?C ?S s ?kp f1 = (None, f2)" "SaveShare ?C ?S s ?sh f2 = (None, f3)"
    "SaveGroup ?C ?S s ?g f3 = (None, g', f4)" and f5: "Store_Reset s f4 = (None, f5)" by (rule saves_succeed)
  have g: "dkg_MinimumT ?S (Group_Len ?g) \<le> g_Threshold ?g" "fst (Group_GetGenesisSeed ?S ?g) \<noteq> []"
    by (simp_all add: plain_suite_def example_group_def LoadGroup_def Group_Len_def Group_GetGenesisSeed_def Group_Hash_def Let_def)
  show ?thesis
    using key_files_roundtrip [OF plain_suite_laws(1) laws s(1) cp nf sv example_group_wf g f5] s(1) sv f5 by blast
qed

end
