(* ===== verification/Drand_Node.thy ===== *)
theory Drand_Node
  imports Beacon_Node Dkg_Broadcast Group_Setup Key_Store
begin

text \<open>
  \<open>src/core/drand.go\<close> and \<open>config.go\<close>: the daemon, which owns the key pair, the group, the
  share, the beacon handler and whatever setup or key generation is in progress.

  Setup managers, receivers and key generations are objects that several calls share: the
  daemon has a list of each, in order of creation, and a pointer is a position in its list.
  A call that waits is split where it waits, since other calls run in between. In results of
  the form \<open>('a result \<times> _) result\<close> the outer error is a panic and the inner one is returned.
\<close>

section \<open>Configuration\<close>

record core_Config =
  cc_configFolder :: string
  cc_dbFolder :: string
  cc_version :: string
  cc_privateListenAddr :: string
  cc_publicListenAddr :: string
  cc_controlPort :: string
  cc_dkgTimeout :: int
  cc_beaconCbs :: "nat list"
  cc_dkgCallback :: "nat option"
  cc_insecure :: bool
  cc_certPath :: string
  cc_keyPath :: string
  cc_enablePrivate :: bool

definition DefaultConfigFolderName :: string where "DefaultConfigFolderName = ''.drand''"
definition DefaultDBFolder :: string where "DefaultDBFolder = ''db''"
definition DefaultControlPort :: string where "DefaultControlPort = ''8888''"

definition DefaultDKGTimeout :: int where
  "DefaultDKGTimeout = 10 * Second"

definition DefaultConfigFolder :: "string \<Rightarrow> string" where
  "DefaultConfigFolder home = path_Join home DefaultConfigFolderName"

text \<open>The options that concern what is modelled; a callback is known by a number.\<close>

datatype ConfigOption =
  WithDkgTimeout int | WithDBFolder string | WithConfigFolder string | WithBeaconCallback nat | WithDKGCallback nat | WithInsecure | WithTLS string string
| WithPublicListenAddress string | WithPrivateListenAddress string | WithControlPort string | WithPrivateRandomness
| WithVersion string

fun apply_option :: "ConfigOption \<Rightarrow> core_Config \<Rightarrow> core_Config" where
  "apply_option (WithDkgTimeout t) d = d\<lparr>cc_dkgTimeout := t\<rparr>"
| "apply_option (WithDBFolder folder) d = d\<lparr>cc_dbFolder := folder\<rparr>"
| "apply_option (WithConfigFolder folder) d = d\<lparr>cc_configFolder := folder, cc_dbFolder := path_Join folder DefaultDBFolder\<rparr>"
| "apply_option (WithBeaconCallback fn) d = d\<lparr>cc_beaconCbs := cc_beaconCbs d @ [fn]\<rparr>"
| "apply_option (WithDKGCallback fn) d = d\<lparr>cc_dkgCallback := Some fn\<rparr>"
| "apply_option WithInsecure d = d\<lparr>cc_insecure := True\<rparr>"
| "apply_option (WithTLS certPath keyPath) d = d\<lparr>cc_certPath := certPath, cc_keyPath := keyPath\<rparr>"
| "apply_option (WithPublicListenAddress addr) d = d\<lparr>cc_publicListenAddr := addr\<rparr>"
| "apply_option (WithPrivateListenAddress addr) d = d\<lparr>cc_privateListenAddr := addr\<rparr>"
| "apply_option (WithControlPort port) d = d\<lparr>cc_controlPort := port\<rparr>"
| "apply_option WithPrivateRandomness d = d\<lparr>cc_enablePrivate := True\<rparr>"
| "apply_option (WithVersion v) d = d\<lparr>cc_version := v\<rparr>"

definition NewConfig :: "string \<Rightarrow> ConfigOption list \<Rightarrow> core_Config" where
  "NewConfig home opts =
     fold apply_option opts
       \<lparr>cc_configFolder = DefaultConfigFolder home, cc_dbFolder = path_Join (DefaultConfigFolder home) DefaultDBFolder,
        cc_version = [], cc_privateListenAddr = [], cc_publicListenAddr = [], cc_controlPort = DefaultControlPort,
        cc_dkgTimeout = DefaultDKGTimeout, cc_beaconCbs = [], cc_dkgCallback = None, cc_insecure = False, cc_certPath = [], cc_keyPath = [], cc_enablePrivate = False\<rparr>"

definition PrivateListenAddress :: "string \<Rightarrow> core_Config \<Rightarrow> string" where
  "PrivateListenAddress defaultAddr d = (if cc_privateListenAddr d \<noteq> [] then cc_privateListenAddr d else defaultAddr)"

definition PublicListenAddress :: "string \<Rightarrow> core_Config \<Rightarrow> string" where
  "PublicListenAddress defaultAddr d = (if cc_publicListenAddr d \<noteq> [] then cc_publicListenAddr d else defaultAddr)"

section \<open>The daemon\<close>

text \<open>The libraries the daemon is built on.\<close>

record ('db, 'p, 's) libs =
  lib_suite :: "('p, 's) suite"
  lib_toml :: toml_codec
  lib_bolt :: "'db bolt"
  lib_json :: beacon_json

text \<open>The configuration of the key generation library.\<close>

record ('p, 's) dkg_Config =
  kc_NewNodes :: "'p DkgNode list"
  kc_OldNodes :: "'p DkgNode list"
  kc_Longterm :: 's
  kc_Threshold :: int
  kc_OldThreshold :: int
  kc_FastSync :: bool
  kc_Nonce :: bytes
  kc_Share :: "('p, 's) Share option"
  kc_PublicCoeffs :: "'p list"

text \<open>\<open>ki_phaser\<close> is the time the phaser sleeps between two phases.\<close>

record ('p, 's) dkgInfo =
  ki_target :: "'p Group"
  ki_board :: "('p, 's) echoBroadcast"
  ki_phaser :: int
  ki_conf :: "('p, 's) dkg_Config"
  ki_started :: bool

text \<open>The goroutines the daemon has started.\<close>

datatype 'p routine = PhaserStart nat | GoStartBeacon bool | GoTransition "'p Group" bool bool

record ('db, 'p, 's) Drand =
  d_opts :: core_Config
  d_priv :: "('p, 's) Pair"
  d_group :: "'p Group option"
  d_index :: int
  d_store :: fileStore
  d_beacon :: "('db, 'p, 's) Handler option"
  d_share :: "('p, 's) Share option"
  d_dkgDone :: bool
  d_managers :: "'p setupManager list"
  d_manager :: "nat option"
  d_receivers :: "'p setupReceiver list"
  d_receiver :: "nat option"
  d_infos :: "('p, 's) dkgInfo list"
  d_dkgInfo :: "nat option"
  d_syncerCancel :: bool
  d_exitCh :: bool
  d_go :: "'p routine list"
  d_fs :: fsys

text \<open>The log line for nodes without a valid self-signature cuts the first ten characters of each key.\<close>

definition checkGroup :: "('p, 's) suite \<Rightarrow> 'p Group \<Rightarrow> (string \<times> string) list result" where
  "checkGroup S g =
     mapE (\<lambda>n. let k = PointToString S (id_Key (node_Identity n))
               in if length k < 10 then Inl (Panic ''slice bounds out of range'')
                  else Inr (Identity_Address (node_Identity n), take 10 k)) (Group_UnsignedIdentities S g)"

text \<open>\<open>net_err\<close> is the error of the gateways that \<open>setupDrand\<close> opens.\<close>

definition initDrand ::
  "('db, 'p, 's) libs \<Rightarrow> error option \<Rightarrow> fileStore \<Rightarrow> core_Config \<Rightarrow> fsys \<Rightarrow> ('db, 'p, 's) Drand result" where
  "initDrand L net_err s c f =
     (if \<not> cc_insecure c \<and> (cc_certPath c = [] \<or> cc_keyPath c = [])
      then Inl (Err ''config: need to set WithInsecure if no certificate and private key path given'')
      else
        (case LoadKeyPair (lib_toml L) (lib_suite L) s f of
           Inl e \<Rightarrow> Inl e
         | Inr priv \<Rightarrow>
             (case net_err of
                Some e \<Rightarrow> Inl e
              | None \<Rightarrow>
                  Inr \<lparr>d_opts = c, d_priv = priv, d_group = None, d_index = 0, d_store = s, d_beacon = None, d_share = None,
                       d_dkgDone = False, d_managers = [], d_manager = None, d_receivers = [], d_receiver = None, d_infos = [],
                       d_dkgInfo = None, d_syncerCancel = False, d_exitCh = False, d_go = [], d_fs = f\<rparr>)))"

definition NewDrand ::
  "('db, 'p, 's) libs \<Rightarrow> error option \<Rightarrow> fileStore \<Rightarrow> core_Config \<Rightarrow> fsys \<Rightarrow> ('db, 'p, 's) Drand result" where
  "NewDrand L net_err s c f = initDrand L net_err s c f"

definition LoadDrand ::
  "('db, 'p, 's) libs \<Rightarrow> error option \<Rightarrow> fileStore \<Rightarrow> core_Config \<Rightarrow> fsys \<Rightarrow> ('db, 'p, 's) Drand result" where
  "LoadDrand L net_err s c f =
     (case initDrand L net_err s c f of
        Inl e \<Rightarrow> Inl e
      | Inr d \<Rightarrow>
          (case Store_LoadGroup (lib_toml L) (lib_suite L) s f of
             Inl e \<Rightarrow> Inl e
           | Inr g \<Rightarrow>
               (case checkGroup (lib_suite L) g of
                  Inl e \<Rightarrow> Inl e
                | Inr _ \<Rightarrow>
                    (case LoadShare (lib_toml L) (lib_suite L) s f of
                       Inl e \<Rightarrow> Inl e
                     | Inr sh \<Rightarrow> Inr (d\<lparr>d_group := Some g, d_share := Some sh, d_dkgDone := True\<rparr>)))))"

section \<open>The end of a key generation\<close>

text \<open>
  \<open>WaitDKG\<close> first looks up the key generation it waits for; the rest runs when the protocol
  has ended, with the indices of the qualified nodes and the share, or an error.
\<close>

definition WaitDKG_begin :: "('db, 'p, 's) Drand \<Rightarrow> nat result" where
  "WaitDKG_begin d = (case d_dkgInfo d of None \<Rightarrow> Inl (Err ''no dkg info set'') | Some k \<Rightarrow> Inr k)"

definition qualNodes :: "'p Node list \<Rightarrow> uint32 list \<Rightarrow> 'p Node list" where
  "qualNodes nodes qual = concat (map (\<lambda>node. map (\<lambda>_. node) (filter (\<lambda>q. q = node_Index node) qual)) nodes)"

definition WaitDKG_end ::
  "('db, 'p, 's) libs \<Rightarrow> (uint32 list \<times> ('p, 's) Share) result \<Rightarrow> ('db, 'p, 's) Drand
    \<Rightarrow> ('p Group result \<times> ('db, 'p, 's) Drand) result" where
  "WaitDKG_end L res d =
     (case res of
        Inl e \<Rightarrow> Inr (Inl (Wrap ''drand: error from dkg: %v'' e), d)
      | Inr (qual, s) \<Rightarrow>
          (case d_dkgInfo d of
             None \<Rightarrow> Inl (Panic ''nil pointer dereference'')
           | Some k \<Rightarrow>
               let info = d_infos d ! k;
                   qn = qualNodes (g_Nodes (ki_target info)) qual;
                   (e, f) = SaveShare (lib_toml L) (lib_suite L) (d_store d) s (d_fs d);
                   d = d\<lparr>d_share := Some s, d_fs := f\<rparr>
               in if e \<noteq> None then Inr (Inl (the e), d)
                  else
                    let target = (ki_target info)\<lparr>g_Nodes := qn, g_PublicKey := Some (Share_Public s)\<rparr>;
                        (e, target, f) = SaveGroup (lib_toml L) (lib_suite L) (d_store d) target (d_fs d);
                        d = d\<lparr>d_group := Some target, d_infos := (d_infos d)[k := info\<lparr>ki_target := target\<rparr>], d_fs := f\<rparr>
                    in if e \<noteq> None then Inr (Inl (the e), d)
                       else
                         (case echoBroadcast_Stop (ki_board info) of
                            Inl e \<Rightarrow> Inl e
                          | Inr b \<Rightarrow>
                              Inr (Inr target,
                                   d\<lparr>d_infos := (d_infos d)[k := info\<lparr>ki_target := target, ki_board := b\<rparr>], d_dkgInfo := None\<rparr>))))"

section \<open>The beacon\<close>

text \<open>\<open>opened\<close> is what the database library returns when it opens the file.\<close>

definition createBoltStore ::
  "('db, 'p, 's) libs \<Rightarrow> 'db result \<Rightarrow> ('db, 'p, 's) Drand \<Rightarrow> ('db boltStore result \<times> ('db, 'p, 's) Drand) result" where
  "createBoltStore L opened d =
     (case CreateSecureFolder (cc_dbFolder (d_opts d)) (d_fs d) of
        (Inl e, f) \<Rightarrow> Inl e
      | (Inr _, f) \<Rightarrow>
          (case NewBoltStore (lib_bolt L) (lib_json L) opened of
             (_, Some e) \<Rightarrow> Inr (Inl e, d\<lparr>d_fs := f\<rparr>)
           | (Some s, None) \<Rightarrow> Inr (Inr s, d\<lparr>d_fs := f\<rparr>)
           | (None, None) \<Rightarrow> Inl (Panic ''nil pointer dereference'')))"

text \<open>The new handler becomes the beacon of the daemon.\<close>

definition newBeacon ::
  "('db, 'p, 's) libs \<Rightarrow> int \<Rightarrow> 'db result \<Rightarrow> ('db, 'p, 's) Drand \<Rightarrow> (('db, 'p, 's) Handler result \<times> ('db, 'p, 's) Drand) result" where
  "newBeacon L now opened d =
     (case createBoltStore L opened d of
        Inl e \<Rightarrow> Inl e
      | Inr (Inl e, d) \<Rightarrow> Inr (Inl e, d)
      | Inr (Inr store, d) \<Rightarrow>
          (case d_group d of
             None \<Rightarrow> Inl (Panic ''nil pointer dereference'')
           | Some g \<Rightarrow>
               (case Group_Find (lib_suite L) g (pair_Public (d_priv d)) of
                  None \<Rightarrow> Inr (Inl (Err ''public key %s not found in group''), d)
                | Some node \<Rightarrow>
                    (case NewHandler (lib_suite L) now store \<lparr>cf_Public = node, cf_Share = d_share d, cf_Group = Some g\<rparr> of
                       Inl (Panic m) \<Rightarrow> Inl (Panic m)
                     | Inl e \<Rightarrow> Inr (Inl e, d)
                     | Inr b \<Rightarrow>
                         let b = Handler_AddCallback ''opts'' OptsCb b
                         in Inr (Inr b, d\<lparr>d_beacon := Some b, d_group := cf_Group (h_conf b), d_syncerCancel := False\<rparr>)))))"

text \<open>\<open>Catchup\<close> runs in a goroutine of its own, at a time of its own.\<close>

definition StartBeacon ::
  "('db, 'p, 's) libs \<Rightarrow> (float64 \<Rightarrow> uint64) \<Rightarrow> int \<Rightarrow> int \<Rightarrow> 'db result \<Rightarrow> bool \<Rightarrow> ('db, 'p, 's) Drand \<Rightarrow> ('db, 'p, 's) Drand result" where
  "StartBeacon L impl now later opened catchup d =
     (case newBeacon L now opened d of
        Inl e \<Rightarrow> Inl e
      | Inr (Inl _, d) \<Rightarrow> Inr d
      | Inr (Inr b, d) \<Rightarrow>
          if catchup then Inr (d\<lparr>d_beacon := Some (Handler_Catchup impl later b)\<rparr>)
          else Inr (d\<lparr>d_beacon := Some (snd (Handler_Start impl later b))\<rparr>))"

definition transition ::
  "('db, 'p, 's) libs \<Rightarrow> (float64 \<Rightarrow> uint64) \<Rightarrow> (int \<Rightarrow> ('db, 'p, 's) Handler \<Rightarrow> ('db, 'p, 's) Handler) \<Rightarrow> int \<Rightarrow> 'db result
    \<Rightarrow> 'p Group \<Rightarrow> bool \<Rightarrow> bool \<Rightarrow> ('db, 'p, 's) Drand \<Rightarrow> ('db, 'p, 's) Drand result" where
  "transition L impl sleep now opened oldGroup oldPresent newPresent d =
     (case d_group d of
        None \<Rightarrow> Inl (Panic ''nil pointer dereference'')
      | Some newGroup \<Rightarrow>
          let timeToStop = wrap64 (g_TransitionTime newGroup - 1)
          in if \<not> newPresent then
               (case d_beacon d of
                  None \<Rightarrow> Inl (Panic ''nil pointer dereference'')
                | Some b \<Rightarrow> map_sum id (\<lambda>b. d\<lparr>d_beacon := Some b\<rparr>) (snd (Handler_StopAt sleep now timeToStop b)))
             else if oldPresent then
               (case (d_beacon d, d_share d) of
                  (Some b, Some newShare) \<Rightarrow>
                    map_sum id (\<lambda>b. d\<lparr>d_beacon := Some b\<rparr>) (TransitionNewGroup impl newShare newGroup b)
                | _ \<Rightarrow> Inl (Panic ''nil pointer dereference''))
             else
               (case newBeacon L now opened d of
                  Inl e \<Rightarrow> Inl e
                | Inr (Inl e, d) \<Rightarrow> Inl (Panic ''transition'')
                | Inr (Inr b, d) \<Rightarrow>
                    map_sum id (\<lambda>b. d\<lparr>d_beacon := Some b\<rparr>) (Handler_Transition impl oldGroup b)))"

definition StopBeacon :: "('db, 'p, 's) Drand \<Rightarrow> ('db, 'p, 's) Drand result" where
  "StopBeacon d =
     (case d_beacon d of
        None \<Rightarrow> Inr d
      | Some b \<Rightarrow> map_sum id (\<lambda>_. d\<lparr>d_beacon := None\<rparr>) (Handler_Stop b))"

text \<open>The exit channel has room for one signal; no value means that the call waits.\<close>

definition Drand_Stop :: "('db, 'p, 's) Drand \<Rightarrow> ('db, 'p, 's) Drand result option" where
  "Drand_Stop d =
     (case StopBeacon d of
        Inl e \<Rightarrow> Some (Inl e)
      | Inr d \<Rightarrow> if d_exitCh d then None else Some (Inr (d\<lparr>d_exitCh := True\<rparr>)))"

section \<open>Restarting\<close>

lemma qualNodes_filter:
  assumes "distinct qual"
  shows "qualNodes nodes qual = filter (\<lambda>n. node_Index n \<in> set qual) nodes"
proof -
  have "filter (\<lambda>q. q = i) qual = (if i \<in> set qual then [i] else [])" for i
    using assms by (induction qual) auto
  then show ?thesis by (induction nodes) (auto simp: qualNodes_def)
qed

lemma MinimumT_mono: "a \<le> b \<Longrightarrow> MinimumT a \<le> MinimumT b"
  by (simp add: MinimumT_def drop_bit_eq_div zdiv_mono1)

text \<open>The group after a key generation: the qualified nodes of its target, with the key.\<close>

definition final_group :: "'p Group \<Rightarrow> uint32 list \<Rightarrow> ('p, 's) Share \<Rightarrow> 'p Group" where
  "final_group t qual sh =
     t\<lparr>g_Nodes := filter (\<lambda>n. node_Index n \<in> set qual) (g_Nodes t), g_PublicKey := Some \<lparr>Coefficients = Commits sh\<rparr>\<rparr>"

lemma final_group_wf:
  assumes "group_wf t" "g_Threshold t \<le> Group_Len (final_group t qual sh)" "int (length (Commits sh)) = g_Threshold t"
  shows "group_wf (final_group t qual sh)"
proof -
  have "Group_Len (final_group t qual sh) \<le> Group_Len t" by (simp add: final_group_def Group_Len_def)
  note MinimumT_mono [OF this]
  moreover have "list_all (\<lambda>n. is_ok (SplitHostPort (id_Addr (node_Identity n)))) (g_Nodes (final_group t qual sh))"
    using assms(1) by (auto simp: group_wf_def final_group_def list_all_iff)
  moreover have "g_Threshold (final_group t qual sh) = g_Threshold t" "g_Period (final_group t qual sh) = g_Period t"
    "g_CatchupPeriod (final_group t qual sh) = g_CatchupPeriod t" "g_GenesisTime (final_group t qual sh) = g_GenesisTime t"
    "g_TransitionTime (final_group t qual sh) = g_TransitionTime t"
    "g_PublicKey (final_group t qual sh) = Some \<lparr>Coefficients = Commits sh\<rparr>" by (simp_all add: final_group_def)
  ultimately show ?thesis using assms unfolding group_wf_def by simp
qed

lemma with_seed_known: "g_GenesisSeed g = Some x \<Longrightarrow> with_seed S g = g" "g_GenesisSeed g = Some x \<Longrightarrow> snd (Group_TOML S g) = g"
  "g_GenesisSeed g = Some x \<Longrightarrow> fst (Group_GetGenesisSeed S g) = x"
  by (cases g, simp_all add: with_seed_def Group_TOML_def Group_GetGenesisSeed_def Let_def)

lemma LoadKeyPair_cong:
  assumes "os_ReadFile (fl_privateKeyFile s) f' = os_ReadFile (fl_privateKeyFile s) f"
    "os_ReadFile (fl_publicKeyFile s) f' = os_ReadFile (fl_publicKeyFile s) f"
  shows "LoadKeyPair C S s f' = LoadKeyPair C S s f"
  unfolding LoadKeyPair_def store_Load_def assms ..

lemma WaitDKG_end_ok:
  assumes "WaitDKG_end L (Inr (qual, sh)) d = Inr (Inr g, d')" "d_dkgInfo d = Some k" "ki_target (d_infos d ! k) = t"
    and "distinct qual" "g_GenesisSeed t = Some seed"
  obtains f where "SaveShare (lib_toml L) (lib_suite L) (d_store d) sh (d_fs d) = (None, f)"
    "SaveGroup (lib_toml L) (lib_suite L) (d_store d) (final_group t qual sh) f = (None, final_group t qual sh, d_fs d')"
    "g = final_group t qual sh" "d_group d' = Some g" "d_share d' = Some sh" "d_dkgInfo d' = None"
proof -
  have fg: "t\<lparr>g_Nodes := qualNodes (g_Nodes t) qual, g_PublicKey := Some (Share_Public sh)\<rparr> = final_group t qual sh"
    by (simp add: final_group_def qualNodes_filter [OF assms(4)] Share_Public_def)
  have sd: "g_GenesisSeed (final_group t qual sh) = Some seed" using assms(5) by (simp add: final_group_def)
  obtain e f where f: "SaveShare (lib_toml L) (lib_suite L) (d_store d) sh (d_fs d) = (e, f)" by fastforce
  obtain e' f' where f': "SaveGroup (lib_toml L) (lib_suite L) (d_store d) (final_group t qual sh) f = (e', final_group t qual sh, f')"
    using with_seed_known(2) [OF sd, of "lib_suite L"] by (auto simp: SaveGroup_def split_beta Let_def)
  have "e = None" "e' = None" "g = final_group t qual sh" "d_group d' = Some g" "d_share d' = Some sh" "d_dkgInfo d' = None" "d_fs d' = f'"
    using assms(1-3) f f' by (auto simp: WaitDKG_end_def fg Let_def split: if_splits sum.splits)
  then show ?thesis using that f f' by blast
qed

text \<open>
  C12. A node survives a restart after the key generation: when \<open>WaitDKG\<close> returns, the group of
  the daemon is the target with exactly its qualified nodes and the key of the share, no key
  generation is pending any more, and a daemon started later on the files it left has the same
  key pair, group and share and counts the key generation as done.
\<close>

theorem node_restarts_after_dkg:
  fixes L :: "('db, 'p, 's) libs"
  assumes "codec_laws (lib_suite L)"
    and "toml_laws (lib_toml L) {ShareT (Share_TOML (lib_suite L) sh), GroupT (fst (Group_TOML (lib_suite L) (final_group t qual sh)))}"
    and "NewFileStore base f0 = (Inr (d_store d), f1)" "clean_path base" "\<forall>p. fs_fault f0 ''stat'' p = None"
    and "\<forall>p. fs_fault f0 ''read'' p = None" "fs_fault (d_fs d) = fs_fault f0"
    and "LoadKeyPair (lib_toml L) (lib_suite L) (d_store d) (d_fs d) = Inr (d_priv d)"
    and "d_dkgInfo d = Some k" "ki_target (d_infos d ! k) = t" "group_wf t" "g_GenesisSeed t = Some seed" "seed \<noteq> []"
    and "\<forall>n \<in> set (g_Nodes t). Identity_ValidSignature (lib_suite L) (node_Identity n) = None"
    and "distinct qual" "g_Threshold t \<le> Group_Len (final_group t qual sh)" "int (length (Commits sh)) = g_Threshold t"
    and "dkg_MinimumT (lib_suite L) (Group_Len (final_group t qual sh)) \<le> g_Threshold t"
    and "cc_insecure c \<or> cc_certPath c \<noteq> [] \<and> cc_keyPath c \<noteq> []"
    and "WaitDKG_end L (Inr (qual, sh)) d = Inr (Inr g, d')"
  shows "g = final_group t qual sh \<and> d_group d' = Some g \<and> d_share d' = Some sh \<and> d_dkgInfo d' = None
       \<and> (\<exists>d2. LoadDrand L None (d_store d) c (d_fs d') = Inr d2 \<and> d_priv d2 = d_priv d \<and> d_group d2 = Some g
             \<and> d_share d2 = Some sh \<and> d_dkgDone d2)"
proof -
  let ?S = "lib_suite L" and ?C = "lib_toml L" and ?s = "d_store d" and ?g = "final_group t qual sh"
  note pth = NewFileStore_paths [OF assms(3-5)]
  have ds: "distinct [fl_privateKeyFile ?s, fl_publicKeyFile ?s, fl_shareFile ?s, fl_groupFile ?s]" using pth by simp
  obtain f where f: "SaveShare ?C ?S ?s sh (d_fs d) = (None, f)" "SaveGroup ?C ?S ?s ?g f = (None, ?g, d_fs d')"
    and g: "g = ?g" "d_group d' = Some g" "d_share d' = Some sh" "d_dkgInfo d' = None"
    by (rule WaitDKG_end_ok [OF assms(20,9,10,15,12)])
  have a: "store_Save ?C (fl_shareFile ?s) (ShareT (Share_TOML ?S sh)) True (d_fs d) = (None, f)" using f(1) by (simp add: SaveShare_def)
  have b: "store_Save ?C (fl_groupFile ?s) (GroupT (fst (Group_TOML ?S ?g))) False f = (None, d_fs d')"
    using f(2) by (auto simp: SaveGroup_def Let_def split: prod.splits)
  obtain m1 m2 where e: "map_of (fs_ents f) = (map_of (fs_ents (d_fs d)))(fl_shareFile ?s \<mapsto> File (tm_encode ?C (ShareT (Share_TOML ?S sh))) m1)"
      "map_of (fs_ents (d_fs d')) = (map_of (fs_ents f))(fl_groupFile ?s \<mapsto> File (tm_encode ?C (GroupT (fst (Group_TOML ?S ?g)))) m2)"
    and fl: "fs_fault (d_fs d') = fs_fault f0"
    using store_Save_ok [OF a] store_Save_ok [OF b] assms(7) by auto
  have rd: "fs_fault (d_fs d') ''read'' p = None" for p using fl assms(6) by simp
  have "os_ReadFile p (d_fs d') = os_ReadFile p (d_fs d)" if "p = fl_privateKeyFile ?s \<or> p = fl_publicKeyFile ?s" for p
    using that assms(6,7) ds e rd by (auto simp: os_ReadFile_def)
  then have kp: "LoadKeyPair ?C ?S ?s (d_fs d') = Inr (d_priv d)" using assms(8) LoadKeyPair_cong by metis
  have sh: "LoadShare ?C ?S ?s (d_fs d') = Inr sh"
    using store_Load_file [OF assms(2), of "ShareT (Share_TOML ?S sh)" ShareK "d_fs d'" "fl_shareFile ?s" m1 "Share_FromTOML ?S"] e ds rd assms(1)
    by (simp add: LoadShare_def wire)
  have sd: "g_GenesisSeed ?g = Some seed" using assms(12) by (simp add: final_group_def)
  have th: "g_Threshold ?g = g_Threshold t" by (simp add: final_group_def)
  have gr: "Store_LoadGroup ?C ?S ?s (d_fs d') = Inr ?g"
    using store_Load_file [OF assms(2), of "GroupT (fst (Group_TOML ?S ?g))" GroupK "d_fs d'" "fl_groupFile ?s" m2 "Group_FromTOML ?S zero_group"]
      e rd Group_FromTOML_TOML [OF assms(1) final_group_wf [OF assms(11,16,17)]] assms(13,18)
    by (simp add: Store_LoadGroup_def with_seed_known [OF sd] zero_group_def th)
  have "Group_UnsignedIdentities ?S ?g = []"
    using assms(14) by (simp add: Group_UnsignedIdentities_def final_group_def filter_empty_conv)
  then have "checkGroup ?S ?g = Inr []" by (simp add: checkGroup_def)
  then show ?thesis using g kp sh gr assms(19) by (simp add: LoadDrand_def initDrand_def)
qed

text \<open>Two self-signed nodes, and a daemon of the first whose key generation is about to end.\<close>

definition signed_group :: "bytes Group" where
  "signed_group = example_group\<lparr>g_Nodes :=
     [\<lparr>node_Identity = pair_Public (NewKeyPair plain_suite [1] ''a:1''), node_Index = 0\<rparr>,
      \<lparr>node_Identity = pair_Public (NewKeyPair plain_suite [2] ''b:1''), node_Index = 1\<rparr>],
     g_GenesisSeed := Some [1], g_PublicKey := None\<rparr>"

definition example_share :: "(bytes, bytes) Share" where
  "example_share = \<lparr>Commits = [[3], [4]], share_Share = \<lparr>sh_I = 0, sh_V = [5]\<rparr>\<rparr>"

definition example_libs :: "((bytes \<times> bytes) list, bytes, bytes) libs" where
  "example_libs =
     \<lparr>lib_suite = plain_suite,
      lib_toml = example_toml [PairT (Pair_TOML plain_suite (NewKeyPair plain_suite [1] ''a:1'')),
        PublicT (Identity_TOML plain_suite (pair_Public (NewKeyPair plain_suite [1] ''a:1''))),
        ShareT (Share_TOML plain_suite example_share), GroupT (fst (Group_TOML plain_suite (final_group signed_group [1, 0] example_share)))],
      lib_bolt = list_bolt, lib_json = plain_json\<rparr>"

definition example_daemon :: "fileStore \<Rightarrow> fsys \<Rightarrow> ((bytes \<times> bytes) list, bytes, bytes) Drand" where
  "example_daemon s f =
     \<lparr>d_opts = NewConfig ''/'' [WithInsecure], d_priv = NewKeyPair plain_suite [1] ''a:1'', d_group = None, d_index = 0, d_store = s,
      d_beacon = None, d_share = None, d_dkgDone = False, d_managers = [], d_manager = None, d_receivers = [], d_receiver = None,
      d_infos = [\<lparr>ki_target = signed_group, ki_board = newEchoBroadcast ''a:1'' (g_Nodes signed_group), ki_phaser = DefaultDKGTimeout,
                  ki_conf = \<lparr>kc_NewNodes = Group_DKGNodes signed_group, kc_OldNodes = [], kc_Longterm = [1], kc_Threshold = 2,
                    kc_OldThreshold = 0, kc_FastSync = True, kc_Nonce = [], kc_Share = None, kc_PublicCoeffs = []\<rparr>,
                  ki_started = True\<rparr>],
      d_dkgInfo = Some 0, d_syncerCancel = False, d_exitCh = False, d_go = [], d_fs = f\<rparr>"

lemma example_daemon_simps [simp]:
  "d_store (example_daemon s f) = s" "d_fs (example_daemon s f) = f" "d_dkgInfo (example_daemon s f) = Some 0"
  "d_priv (example_daemon s f) = NewKeyPair plain_suite [1] ''a:1''" "ki_target (d_infos (example_daemon s f) ! 0) = signed_group"
  "ki_board (d_infos (example_daemon s f) ! 0) = newEchoBroadcast ''a:1'' (g_Nodes signed_group)"
  by (simp_all add: example_daemon_def)

lemma toml_laws_subset: "toml_laws C V \<Longrightarrow> W \<subseteq> V \<Longrightarrow> toml_laws C W"
  by (auto simp: toml_laws_def)

lemma example_libs_toml:
  "toml_laws (lib_toml example_libs) {PairT (Pair_TOML plain_suite (NewKeyPair plain_suite [1] ''a:1'')),
     PublicT (Identity_TOML plain_suite (pair_Public (NewKeyPair plain_suite [1] ''a:1'')))}"
  "toml_laws (lib_toml example_libs) {ShareT (Share_TOML plain_suite example_share),
     GroupT (fst (Group_TOML plain_suite (final_group signed_group [1, 0] example_share)))}"
  unfolding example_libs_def libs.simps by (rule toml_laws_subset [OF example_toml_laws]; simp)+

lemma SaveKeyPair_Load:
  assumes "codec_laws S" "toml_laws C {PairT (Pair_TOML S kp), PublicT (Identity_TOML S (pair_Public kp))}"
    and "SaveKeyPair C S s kp f = (None, f')" "\<forall>p. fs_fault f ''read'' p = None" "fl_privateKeyFile s \<noteq> fl_publicKeyFile s"
  shows "LoadKeyPair C S s f' = Inr kp" "fs_fault f' = fs_fault f"
proof -
  let ?prv = "fl_privateKeyFile s" and ?pub = "fl_publicKeyFile s"
  obtain f1 where a: "store_Save C ?prv (PairT (Pair_TOML S kp)) True f = (None, f1)"
    "store_Save C ?pub (PublicT (Identity_TOML S (pair_Public kp))) False f1 = (None, f')"
    using assms(3) by (auto simp: SaveKeyPair_def split: prod.splits option.splits)
  obtain m1 m2 where e: "map_of (fs_ents f') ?prv = Some (File (tm_encode C (PairT (Pair_TOML S kp))) m1)"
      "map_of (fs_ents f') ?pub = Some (File (tm_encode C (PublicT (Identity_TOML S (pair_Public kp)))) m2)"
    and fl: "fs_fault f' = fs_fault f"
    using store_Save_ok [OF a(1)] store_Save_ok [OF a(2)] assms(5) by auto
  then show "LoadKeyPair C S s f' = Inr kp"
    using store_Load_file [OF assms(2) _ _ e(1), of PairK "Pair_FromTOML S"] store_Load_file [OF assms(2) _ _ e(2), of PublicK "Identity_FromTOML S"]
      assms(1,4) by (simp add: LoadKeyPair_def wire)
  show "fs_fault f' = fs_fault f" by (rule fl)
qed

lemma signed_group_facts:
  "group_wf signed_group" "\<forall>n \<in> set (g_Nodes signed_group). Identity_ValidSignature plain_suite (node_Identity n) = None"
  "Group_Len (final_group signed_group [1, 0] example_share) = 2" "g_Threshold signed_group = 2" "g_GenesisSeed signed_group = Some [1]"
proof -
  have ports: "is_ok (SplitHostPort ''a:1'')" "is_ok (SplitHostPort ''b:1'')" by code_simp+
  have "group_wf example_group" by (rule example_group_wf)
  then show "group_wf signed_group"
    using ports by (simp add: group_wf_def signed_group_def Group_Len_def example_group_def LoadGroup_def NewKeyPair_def Pair_SelfSign_shape)
  show "\<forall>n \<in> set (g_Nodes signed_group). Identity_ValidSignature plain_suite (node_Identity n) = None"
    by (simp add: signed_group_def NewKeyPair_def Let_def Pair_SelfSign_valid [OF plain_suite_laws(2)])
qed (simp_all add: final_group_def Group_Len_def signed_group_def example_group_def LoadGroup_def)

theorem node_restarts_after_dkg_witness:
  "\<exists>s f g d' d2. WaitDKG_end example_libs (Inr ([1, 0], example_share)) (example_daemon s f) = Inr (Inr g, d')
     \<and> LoadDrand example_libs None s (NewConfig ''/'' [WithInsecure]) (d_fs d') = Inr d2
     \<and> d_group d2 = Some g \<and> d_share d2 = Some example_share \<and> length (g_Nodes g) = 2"
proof -
  let ?L = example_libs and ?kp = "NewKeyPair plain_suite [1] ''a:1''" and ?g = "final_group signed_group [1, 0] example_share"
  obtain s f1 where s: "NewFileStore ''/d'' empty_fsys = (Inr s, f1)" "fs_fault f1 = (\<lambda>_ _. None)"
    "\<forall>q. map_of (fs_ents f1) q \<noteq> None \<longrightarrow> q \<in> {''/d'', ''/d/key'', ''/d/groups''}" by (rule example_file_store)
  have cp: "clean_path ''/d''" by (auto simp: clean_path_def plain_name_def slash_def intro!: exI [of _ "[''d'']"])
  have nf: "\<forall>p. fs_fault empty_fsys ''stat'' p = None" "\<forall>p. fs_fault empty_fsys ''read'' p = None" by (simp_all add: empty_fsys_def)
  note pth = NewFileStore_paths [OF s(1) cp nf(1)]
  have "map_of (fs_ents f1) p = None" if "p \<in> {fl_privateKeyFile s, fl_publicKeyFile s, fl_shareFile s, fl_groupFile s}" for p
    using that s(3) pth by auto
  then have nd: "no_dirs s f1" using s(2) unfolding no_dirs_def by auto
  obtain f2 f3 g' f4 where sv: "SaveKeyPair (lib_toml ?L) plain_suite s ?kp f1 = (None, f2)"
    "SaveShare (lib_toml ?L) plain_suite s example_share f2 = (None, f3)" "SaveGroup (lib_toml ?L) plain_suite s ?g f3 = (None, g', f4)"
    by (rule saves_succeed [OF nd])
  have S: "lib_suite ?L = plain_suite" by (simp add: example_libs_def)
  have ld: "LoadKeyPair (lib_toml ?L) plain_suite s f2 = Inr ?kp" "fs_fault f2 = fs_fault f1"
    using SaveKeyPair_Load [OF plain_suite_laws(1) example_libs_toml(1) sv(1)] s(2) pth by simp_all
  let ?d = "example_daemon s f2"
  have tg: "signed_group\<lparr>g_Nodes := qualNodes (g_Nodes signed_group) [1, 0], g_PublicKey := Some (Share_Public example_share)\<rparr> = ?g"
    by (simp add: final_group_def qualNodes_filter Share_Public_def)
  have "echoBroadcast_Stop (newEchoBroadcast ''a:1'' (g_Nodes signed_group)) \<noteq> Inl e" for e
    by (simp add: echoBroadcast_Stop_def newEchoBroadcast_def dispatcher_stop_def newDispatcher_def newSender_def sender_stop_def signed_group_def)
  then obtain b where b: "echoBroadcast_Stop (newEchoBroadcast ''a:1'' (g_Nodes signed_group) :: (bytes, bytes) echoBroadcast) = Inr b"
    by (cases "echoBroadcast_Stop (newEchoBroadcast ''a:1'' (g_Nodes signed_group) :: (bytes, bytes) echoBroadcast)") auto
  obtain g d' where w: "WaitDKG_end ?L (Inr ([1, 0], example_share)) ?d = Inr (Inr g, d')"
    using sv b by (simp add: WaitDKG_end_def S tg Let_def)
  have st: "NewFileStore ''/d'' empty_fsys = (Inr (d_store ?d), f1)" using s(1) by simp
  have "g = ?g \<and> d_group d' = Some g \<and> d_share d' = Some example_share \<and> d_dkgInfo d' = None
      \<and> (\<exists>d2. LoadDrand ?L None (d_store ?d) (NewConfig ''/'' [WithInsecure]) (d_fs d') = Inr d2 \<and> d_priv d2 = d_priv ?d \<and> d_group d2 = Some g
             \<and> d_share d2 = Some example_share \<and> d_dkgDone d2)"
    by (rule node_restarts_after_dkg [OF _ _ st cp nf _ _ _ _ _ _ _ _ _ _ _ _ _ w, where t = signed_group and k = 0 and seed = "[1]"])
      (use example_libs_toml(2) s(1,2) signed_group_facts ld plain_suite_laws(1) in
        \<open>simp_all add: S empty_fsys_def example_share_def NewConfig_def\<close>, simp add: plain_suite_def)
  then obtain d2 where "g = ?g" "LoadDrand ?L None s (NewConfig ''/'' [WithInsecure]) (d_fs d') = Inr d2" "d_group d2 = Some g"
    "d_share d2 = Some example_share" by auto
  then show ?thesis
    using w signed_group_facts(3) by (intro exI [of _ s] exI [of _ f2] exI [of _ g] exI [of _ d'] exI [of _ d2]) (simp add: Group_Len_def)
qed

end
