(* ===== verification/Drand_Control.thy ===== *)
theory Drand_Control
  imports Drand_Node
begin

text \<open>
  \<open>src/core/drand_control.go\<close>: the commands of the operator, which set up a group as its
  leader or as a participant, run the key generation or a resharing, and read the state of the
  daemon. Calls to other nodes are parameters or packets in the result.
\<close>

section \<open>Helpers\<close>

abbreviation node_addr :: "'p Node \<Rightarrow> string" where
  "node_addr n \<equiv> Identity_Address (node_Identity n)"

definition nodesContainAddr :: "'p Node list \<Rightarrow> string \<Rightarrow> bool" where
  "nodesContainAddr nodes addr = list_ex (\<lambda>n. node_addr n = addr) nodes"

definition nodeUnion :: "'p Node list \<Rightarrow> 'p Node list \<Rightarrow> 'p Node list" where
  "nodeUnion a b = a @ filter (\<lambda>n. \<not> nodesContainAddr a (node_addr n)) b"

definition getNonce :: "'p Group \<Rightarrow> bytes" where
  "getNonce g = sha256 (if g_TransitionTime g \<noteq> 0 then be_int64 (g_TransitionTime g) else be_int64 (g_GenesisTime g))"

definition getPhaser :: "uint32 \<Rightarrow> int" where
  "getPhaser timeout = (if timeout = 0 then DefaultDKGTimeout else wrap64 (uint timeout * Second))"

definition errPreempted :: error where
  "errPreempted = Err ''time out: pre-empted''"

section \<open>Running the key generation\<close>

text \<open>
  \<open>newProtocol\<close> is the error of the library when it refuses a configuration. The result is
  the key generation that \<open>WaitDKG\<close> waits for.
\<close>

definition runDKG_begin ::
  "(('p, 's) dkg_Config \<Rightarrow> error option) \<Rightarrow> bool \<Rightarrow> 'p Group \<Rightarrow> uint32 \<Rightarrow> ('db, 'p, 's) Drand \<Rightarrow> nat result \<times> ('db, 'p, 's) Drand" where
  "runDKG_begin newProtocol leader grp timeout d =
     (let config = \<lparr>kc_NewNodes = Group_DKGNodes grp, kc_OldNodes = [], kc_Longterm = pair_Key (d_priv d), kc_Threshold = g_Threshold grp,
                    kc_OldThreshold = 0, kc_FastSync = True, kc_Nonce = getNonce grp, kc_Share = None, kc_PublicCoeffs = []\<rparr>;
          board = newEchoBroadcast (Identity_Address (pair_Public (d_priv d))) (g_Nodes grp)
      in case newProtocol config of
           Some e \<Rightarrow> (Inl e, d)
         | None \<Rightarrow>
             let k = length (d_infos d);
                 info = \<lparr>ki_target = grp, ki_board = board, ki_phaser = getPhaser timeout, ki_conf = config, ki_started = leader\<rparr>;
                 d = d\<lparr>d_infos := d_infos d @ [info], d_dkgInfo := Some k\<rparr>
             in (Inr k, if leader then d\<lparr>d_go := d_go d @ [PhaserStart k]\<rparr> else d))"

definition cleanupDKG :: "('db, 'p, 's) Drand \<Rightarrow> ('db, 'p, 's) Drand result" where
  "cleanupDKG d =
     (case d_dkgInfo d of
        None \<Rightarrow> Inr d
      | Some k \<Rightarrow>
          map_sum id (\<lambda>b. d\<lparr>d_infos := (d_infos d)[k := (d_infos d ! k)\<lparr>ki_board := b\<rparr>], d_dkgInfo := None\<rparr>)
            (echoBroadcast_Stop (ki_board (d_infos d ! k))))"

definition runDKG_end ::
  "('db, 'p, 's) libs \<Rightarrow> nat \<Rightarrow> (uint32 list \<times> ('p, 's) Share) result \<Rightarrow> ('db, 'p, 's) Drand
    \<Rightarrow> ('p Group result \<times> ('db, 'p, 's) Drand) result" where
  "runDKG_end L k res d =
     (case WaitDKG_end L res d of
        Inl e \<Rightarrow> Inl e
      | Inr (Inl e, d) \<Rightarrow>
          map_sum id (\<lambda>d. (Inl (Wrap ''drand: %v'' e), d)) (if d_dkgInfo d = Some k then cleanupDKG d else Inr d)
      | Inr (Inr finalGroup, d) \<Rightarrow>
          map_sum id (\<lambda>d. (Inr finalGroup, d\<lparr>d_dkgDone := True, d_go := d_go d @ [GoStartBeacon False]\<rparr>)) (cleanupDKG d))"

text \<open>A resharing: an old node gives its share, a new one the coefficients of the old key.\<close>

definition runResharing_begin ::
  "('p, 's) suite \<Rightarrow> (('p, 's) dkg_Config \<Rightarrow> error option) \<Rightarrow> bool \<Rightarrow> 'p Group \<Rightarrow> 'p Group \<Rightarrow> uint32 \<Rightarrow> ('db, 'p, 's) Drand
    \<Rightarrow> (nat result \<times> ('db, 'p, 's) Drand) result" where
  "runResharing_begin S newProtocol leader oldGroup newGroup timeout d =
     (let pub = pair_Public (d_priv d);
          oldPresent = (Group_Find S oldGroup pub \<noteq> None);
          config = \<lparr>kc_NewNodes = Group_DKGNodes newGroup, kc_OldNodes = Group_DKGNodes oldGroup, kc_Longterm = pair_Key (d_priv d),
                    kc_Threshold = g_Threshold newGroup, kc_OldThreshold = g_Threshold oldGroup, kc_FastSync = True,
                    kc_Nonce = getNonce newGroup, kc_Share = None, kc_PublicCoeffs = []\<rparr>
      in if leader \<and> \<not> oldPresent then Inr (Inl (Err ''can not be a leader if not present in the old group''), d)
         else if oldPresent \<and> d_dkgInfo d \<noteq> None
         then Inr (Inl (Err ''control: can't reshare from old node when DKG not finished first''), d)
         else if oldPresent \<and> d_share d = None then Inr (Inl (Err ''control: can't reshare without a share''), d)
         else
           (case (if oldPresent then Inr (config\<lparr>kc_Share := d_share d\<rparr>)
                  else case g_PublicKey oldGroup of
                         None \<Rightarrow> Inl (Panic ''nil pointer dereference'')
                       | Some pk \<Rightarrow> Inr (config\<lparr>kc_PublicCoeffs := Coefficients pk\<rparr>)) of
              Inl e \<Rightarrow> Inl e
            | Inr config \<Rightarrow>
                let allNodes = nodeUnion (g_Nodes oldGroup) (g_Nodes newGroup);
                    board = newEchoBroadcast (Identity_Address pub) allNodes
                in case newProtocol config of
                     Some e \<Rightarrow> Inr (Inl e, d)
                   | None \<Rightarrow>
                       if leader \<and> Group_Find S newGroup pub = None then Inl (Panic ''nil pointer dereference'')
                       else
                         let k = length (d_infos d);
                             info = \<lparr>ki_target = newGroup, ki_board = board, ki_phaser = getPhaser timeout, ki_conf = config,
                                     ki_started = leader\<rparr>;
                             d = d\<lparr>d_infos := d_infos d @ [info], d_dkgInfo := Some k\<rparr>
                         in Inr (Inr k, if leader then d\<lparr>d_go := d_go d @ [PhaserStart k]\<rparr> else d)))"

definition runResharing_end ::
  "('db, 'p, 's) libs \<Rightarrow> nat \<Rightarrow> 'p Group \<Rightarrow> 'p Group \<Rightarrow> (uint32 list \<times> ('p, 's) Share) result \<Rightarrow> ('db, 'p, 's) Drand
    \<Rightarrow> ('p Group result \<times> ('db, 'p, 's) Drand) result" where
  "runResharing_end L k oldGroup newGroup res d =
     (let pub = pair_Public (d_priv d);
          oldPresent = (Group_Find (lib_suite L) oldGroup pub \<noteq> None);
          newPresent = (Group_Find (lib_suite L) newGroup pub \<noteq> None)
      in case WaitDKG_end L res d of
           Inl e \<Rightarrow> Inl e
         | Inr (Inl e, d) \<Rightarrow>
             map_sum id (\<lambda>d. (Inl (Wrap ''drand: err during DKG: %v'' e), d)) (if d_dkgInfo d = Some k then cleanupDKG d else Inr d)
         | Inr (Inr finalGroup, d) \<Rightarrow>
             Inr (Inr finalGroup, d\<lparr>d_go := d_go d @ [GoTransition oldGroup oldPresent newPresent]\<rparr>))"

section \<open>The leader\<close>

text \<open>
  \<open>leaderRunSetup\<close> up to the point where it waits. No value means that it waits for ever, with
  the lock, because the running manager does not take the signal to stop.
\<close>

definition leaderRunSetup_begin ::
  "'p setupManager result \<Rightarrow> ('db, 'p, 's) Drand \<Rightarrow> (nat result \<times> ('db, 'p, 's) Drand) option" where
  "leaderRunSetup_begin newSetup d =
     (case (case d_manager d of
              None \<Rightarrow> Some d
            | Some m \<Rightarrow> map_option (\<lambda>s. d\<lparr>d_managers := (d_managers d)[m := s]\<rparr>) (StopPreemptively (d_managers d ! m))) of
        None \<Rightarrow> None
      | Some d \<Rightarrow>
          (case newSetup of
             Inl e \<Rightarrow> Some (Inl (Wrap ''drand: invalid setup configuration: %s'' e), d)
           | Inr s \<Rightarrow>
               let m = length (d_managers d)
               in Some (Inr m, d\<lparr>d_managers := d_managers d @ [s], d_manager := Some m\<rparr>)))"

datatype setup_wait = OnGroup | OnSetupTimeout

definition leaderRunSetup_end ::
  "setup_wait \<Rightarrow> nat \<Rightarrow> ('db, 'p, 's) Drand \<Rightarrow> ('p Group result \<times> ('db, 'p, 's) Drand) option" where
  "leaderRunSetup_end ev m d =
     (let s = d_managers d ! m
      in case ev of
           OnGroup \<Rightarrow>
             (case sm_startDKG s of
                Some g \<Rightarrow> Some (Inr g, d\<lparr>d_manager := None\<rparr>)
              | None \<Rightarrow> if sm_returned s then Some (Inl errPreempted, d) else None)
         | OnSetupTimeout \<Rightarrow>
             map_option (\<lambda>s. (Inl (Err ''time outs: no key received''), d\<lparr>d_managers := (d_managers d)[m := s], d_manager := None\<rparr>))
               (StopPreemptively s))"

text \<open>\<open>pushDKGInfoPacket\<close> sends the packet to everybody but the leader.\<close>

definition pushDKGInfoPacket :: "'p Identity \<Rightarrow> 'p Node list \<Rightarrow> DKGInfoPacket \<Rightarrow> ('p Identity \<times> DKGInfoPacket) list" where
  "pushDKGInfoPacket self nodes packet =
     map (\<lambda>n. (node_Identity n, packet)) (filter (\<lambda>n. node_addr n \<noteq> Identity_Address self) nodes)"

text \<open>The packet of \<open>pushDKGInfo\<close>, with the group that hashing leaves behind.\<close>

definition dkgInfoPacket ::
  "(float64 \<Rightarrow> uint32) \<Rightarrow> ('p, 's) suite \<Rightarrow> 's \<Rightarrow> 'p Group \<Rightarrow> bytes \<Rightarrow> uint32 \<Rightarrow> (DKGInfoPacket \<times> 'p Group) result" where
  "dkgInfoPacket impl S k grp secret timeout =
     (let (h, grp) = Group_Hash S grp
      in case dkg_sign S k h of
           Inl e \<Rightarrow> Inl (Wrap ''drand: error signing group: %w'' e)
         | Inr signature \<Rightarrow>
             let (pg, grp) = Group_ToProto impl S grp
             in Inr (\<lparr>di_NewGroup = Some pg, di_SecretProof = secret, di_DkgTimeout = timeout, di_Signature = signature\<rparr>, grp))"

text \<open>
  The loop that collects the replies: a reply of a node, with its error, or the end of the
  minute that the loop waits for the next one. No value means that it waits.
\<close>

datatype push_event = Pushed string "error option" | MinuteOver

definition push_done :: "int \<Rightarrow> int \<Rightarrow> error option" where
  "push_done prevThr newThr = (if 0 < prevThr \<or> 0 < newThr then Some (Err ''push group failure'') else None)"

fun push_loop :: "'p Node list \<Rightarrow> 'p Node list \<Rightarrow> int \<Rightarrow> int \<Rightarrow> int \<Rightarrow> push_event list \<Rightarrow> error option option" where
  "push_loop outgoing incoming left prevThr newThr [] = (if 0 < left then None else Some (push_done prevThr newThr))"
| "push_loop outgoing incoming left prevThr newThr (MinuteOver # evs) =
     (if 0 < left then Some (if prevThr \<le> 0 \<and> newThr \<le> 0 then None else Some (Err ''push group timeout''))
      else Some (push_done prevThr newThr))"
| "push_loop outgoing incoming left prevThr newThr (Pushed addr err # evs) =
     (if 0 < left then
        if err \<noteq> None then push_loop outgoing incoming (left - 1) prevThr newThr evs
        else push_loop outgoing incoming (left - 1)
               (if nodesContainAddr outgoing addr then prevThr - 1 else prevThr)
               (if nodesContainAddr incoming addr then newThr - 1 else newThr) evs
      else Some (push_done prevThr newThr))"

definition pushDKGInfo ::
  "(float64 \<Rightarrow> uint32) \<Rightarrow> ('p, 's) suite \<Rightarrow> 'p Node list \<Rightarrow> 'p Node list \<Rightarrow> int \<Rightarrow> 'p Group \<Rightarrow> bytes \<Rightarrow> uint32 \<Rightarrow> push_event list
    \<Rightarrow> ('db, 'p, 's) Drand \<Rightarrow> (error option \<times> ('p Identity \<times> DKGInfoPacket) list \<times> 'p Group) option" where
  "pushDKGInfo impl S outgoing incoming prevThr grp secret timeout evs d =
     (case dkgInfoPacket impl S (pair_Key (d_priv d)) grp secret timeout of
        Inl e \<Rightarrow> Some (Some e, [], grp)
      | Inr (packet, grp) \<Rightarrow>
          let self = Identity_Address (pair_Public (d_priv d));
              newThr = (if nodesContainAddr incoming self then g_Threshold grp - 1 else g_Threshold grp);
              prevThr = (if nodesContainAddr outgoing self then prevThr - 1 else prevThr);
              dests = nodeUnion outgoing incoming
          in map_option (\<lambda>e. (e, pushDKGInfoPacket (pair_Public (d_priv d)) dests packet, grp))
               (push_loop outgoing incoming (int (length dests) - 1) prevThr newThr evs))"

record InitDKGPacket =
  ip_Info :: SetupInfoPacket
  ip_BeaconPeriod :: uint32
  ip_CatchupPeriod :: uint32

text \<open>\<open>InitDKG\<close> of a leader, when its setup has ended.\<close>

definition InitDKG_leader ::
  "(float64 \<Rightarrow> uint32) \<Rightarrow> ('p, 's) suite \<Rightarrow> (('p, 's) dkg_Config \<Rightarrow> error option) \<Rightarrow> InitDKGPacket \<Rightarrow> 'p Group result \<Rightarrow> push_event list
    \<Rightarrow> ('db, 'p, 's) Drand \<Rightarrow> (nat result \<times> ('db, 'p, 's) Drand \<times> ('p Identity \<times> DKGInfoPacket) list) option" where
  "InitDKG_leader impl S newProtocol pkt setup evs d =
     (case setup of
        Inl e \<Rightarrow> Some (Inl (Wrap ''drand: invalid setup configuration: %s'' e), d, [])
      | Inr grp \<Rightarrow>
          (case pushDKGInfo impl S [] (g_Nodes grp) 0 grp (si_Secret (ip_Info pkt)) (si_Timeout (ip_Info pkt)) evs d of
             None \<Rightarrow> None
           | Some (Some e, sent, _) \<Rightarrow> Some (Inl e, d, sent)
           | Some (None, sent, grp) \<Rightarrow>
               (case runDKG_begin newProtocol True grp (si_Timeout (ip_Info pkt)) d of
                  (r, d) \<Rightarrow> Some (r, d, sent))))"

section \<open>A participant\<close>

text \<open>What runs when a participant's call returns, whatever happened.\<close>

definition setup_finish :: "nat \<Rightarrow> ('db, 'p, 's) Drand \<Rightarrow> ('db, 'p, 's) Drand" where
  "setup_finish r d =
     (let d = d\<lparr>d_receivers := (d_receivers d)[r := setupReceiver_stop (d_receivers d ! r)]\<rparr>
      in if d_receiver d = Some r then d\<lparr>d_receiver := None\<rparr> else d)"

text \<open>The part up to the signal to the leader: the receiver and the packet that is sent.\<close>

definition setupAutomaticDKG_begin ::
  "('p, 's) suite \<Rightarrow> (string \<times> bool \<Rightarrow> ProtoIdentity option result) \<Rightarrow> InitDKGPacket \<Rightarrow> ('db, 'p, 's) Drand
    \<Rightarrow> (nat \<times> SignalDKGPacket) result \<times> ('db, 'p, 's) Drand" where
  "setupAutomaticDKG_begin S get_identity pkt d =
     (let d = (case d_receiver d of
                 None \<Rightarrow> d
               | Some r \<Rightarrow> d\<lparr>d_receivers := (d_receivers d)[r := setupReceiver_stop (d_receivers d ! r)]\<rparr>)
      in case newSetupReceiver S get_identity (ip_Info pkt) of
           Inl e \<Rightarrow> (Inl e, d)
         | Inr rc \<Rightarrow>
             let r = length (d_receivers d)
             in (Inr (r, \<lparr>sg_Node = Some (Identity_ToProto S (pair_Public (d_priv d))), sg_SecretProof = si_Secret (ip_Info pkt),
                         sg_PreviousGroupHash = []\<rparr>),
                 d\<lparr>d_receivers := d_receivers d @ [rc], d_receiver := Some r\<rparr>))"

text \<open>
  \<open>InitDKG\<close> up to the point where it waits: for a participant its receiver and the packet to
  the leader, for a leader its manager.
\<close>

definition InitDKG ::
  "('p, 's) suite \<Rightarrow> (string \<times> bool \<Rightarrow> ProtoIdentity option result) \<Rightarrow> InitDKGPacket \<Rightarrow> ('db, 'p, 's) Drand
    \<Rightarrow> ((nat \<times> SignalDKGPacket option) result \<times> ('db, 'p, 's) Drand) option" where
  "InitDKG S get_identity pkt d =
     (if d_dkgDone d then Some (Inl (Err ''dkg phase already done - call reshare''), d)
      else if \<not> si_Leader (ip_Info pkt)
      then Some (map_prod (map_sum id (\<lambda>(r, p). (r, Some p))) id (setupAutomaticDKG_begin S get_identity pkt d))
      else
        map_option (map_prod (map_sum (Wrap ''drand: invalid setup configuration: %s'') (\<lambda>m. (m, None))) id)
          (leaderRunSetup_begin
            (newDKGSetup (pair_Public (d_priv d)) (ip_BeaconPeriod pkt) (ip_CatchupPeriod pkt) (ip_Info pkt)) d))"

text \<open>The wait for the group is on the receiver of the daemon at that time.\<close>

definition setup_WaitDKGInfo ::
  "wait_event \<Rightarrow> ('db, 'p, 's) Drand \<Rightarrow> (('p Group \<times> uint32) result \<times> ('db, 'p, 's) Drand) result option" where
  "setup_WaitDKGInfo ev d =
     (case d_receiver d of
        None \<Rightarrow> Some (Inl (Panic ''nil pointer dereference''))
      | Some r \<Rightarrow>
          map_option (\<lambda>(g, rc). Inr (g, d\<lparr>d_receivers := (d_receivers d)[r := rc]\<rparr>)) (WaitDKGInfo ev (d_receivers d ! r)))"

definition setupAutomaticDKG_group ::
  "('p, 's) suite \<Rightarrow> (('p, 's) dkg_Config \<Rightarrow> error option) \<Rightarrow> int \<Rightarrow> 'p Group \<Rightarrow> uint32 \<Rightarrow> ('db, 'p, 's) Drand
    \<Rightarrow> nat result \<times> ('db, 'p, 's) Drand" where
  "setupAutomaticDKG_group S newProtocol now grp dkgTimeout d =
     (if g_GenesisTime grp < now then (Inl (Err ''control: group with genesis time in the past''), d)
      else
        (case Group_Find S grp (pair_Public (d_priv d)) of
           None \<Rightarrow> (Inl (Err ''drand: public key not found in group''), d)
         | Some node \<Rightarrow> runDKG_begin newProtocol False grp dkgTimeout (d\<lparr>d_index := uint (node_Index node)\<rparr>)))"

section \<open>Resharing\<close>

text \<open>The checks of a new group against the old one, with the seeds they leave in both.\<close>

definition validateGroupTransition ::
  "('p, 's) suite \<Rightarrow> int \<Rightarrow> 'p Group \<Rightarrow> 'p Group \<Rightarrow> error option \<times> 'p Group \<times> 'p Group" where
  "validateGroupTransition S now oldGroup newGroup =
     (if g_GenesisTime oldGroup \<noteq> g_GenesisTime newGroup
      then (Some (Err ''control: old and new group have different genesis time''), oldGroup, newGroup)
      else if g_Period oldGroup \<noteq> g_Period newGroup
      then (Some (Err ''control: old and new group have different period - unsupported feature at the moment''), oldGroup, newGroup)
      else
        let (seed, oldGroup) = Group_GetGenesisSeed S oldGroup; (seed', newGroup) = Group_GetGenesisSeed S newGroup
        in if seed \<noteq> seed' then (Some (Err ''control: old and new group have different genesis seed''), oldGroup, newGroup)
           else if g_TransitionTime newGroup < now
           then (Some (Err ''control: new group with transition time in the past''), oldGroup, newGroup)
           else (None, oldGroup, newGroup))"

text \<open>\<open>GroupInfo\<close> may be nil, and may hold a path.\<close>

definition control_extractGroup ::
  "('db, 'p, 's) libs \<Rightarrow> string option option \<Rightarrow> fsys \<Rightarrow> 'p Group result result" where
  "control_extractGroup L i f =
     (case i of
        None \<Rightarrow> Inl (Panic ''nil pointer dereference'')
      | Some None \<Rightarrow> Inr (Inl (Err ''control: can't allow new empty group''))
      | Some (Some path) \<Rightarrow>
          (case store_Load (lib_toml L) path GroupK (Group_FromTOML (lib_suite L) zero_group) f of
             Inl e \<Rightarrow> Inr (Inl e)
           | Inr g \<Rightarrow>
               if g_Threshold g < dkg_MinimumT (lib_suite L) (Group_Len g)
               then Inr (Inl (Err ''control: threshold of new group too low '')) else Inr (Inr g)))"

definition Drand_extractGroup ::
  "('db, 'p, 's) libs \<Rightarrow> string option option \<Rightarrow> ('db, 'p, 's) Drand \<Rightarrow> 'p Group result result" where
  "Drand_extractGroup L old d =
     (case control_extractGroup L old (d_fs d) of
        Inl e \<Rightarrow> Inl e
      | Inr (Inr g) \<Rightarrow> Inr (Inr g)
      | Inr (Inl _) \<Rightarrow>
          (case d_group d of
             None \<Rightarrow> Inr (Inl (Err ''drand: can't init-reshare if no old group provided''))
           | Some g \<Rightarrow> Inr (Inr g)))"

text \<open>\<open>InitReshare\<close> of a leader, when its setup has ended, with its own checks of the group.\<close>

definition reshare_checks :: "('p, 's) suite \<Rightarrow> int \<Rightarrow> 'p Group \<Rightarrow> 'p Group \<Rightarrow> error option \<times> 'p Group \<times> 'p Group" where
  "reshare_checks S now oldGroup newGroup =
     (if g_GenesisTime oldGroup \<noteq> g_GenesisTime newGroup
      then (Some (Err ''control: old and new group have different genesis time''), oldGroup, newGroup)
      else if now < g_GenesisTime oldGroup then (Some (Err ''control: genesis time is in the future''), oldGroup, newGroup)
      else if g_Period oldGroup \<noteq> g_Period newGroup
      then (Some (Err ''control: old and new group have different period - unsupported feature at the moment''), oldGroup, newGroup)
      else if g_TransitionTime newGroup < now
      then (Some (Err ''control: group with transition time in the past''), oldGroup, newGroup)
      else
        let (seed', newGroup) = Group_GetGenesisSeed S newGroup; (seed, oldGroup) = Group_GetGenesisSeed S oldGroup
        in if seed' \<noteq> seed then (Some (Err ''control: old and new group have different genesis seed''), oldGroup, newGroup)
           else (None, oldGroup, newGroup))"

definition InitReshare_leader ::
  "(float64 \<Rightarrow> uint32) \<Rightarrow> ('p, 's) suite \<Rightarrow> (('p, 's) dkg_Config \<Rightarrow> error option) \<Rightarrow> int \<Rightarrow> InitResharePacket \<Rightarrow> 'p Group
    \<Rightarrow> 'p Group result \<Rightarrow> push_event list \<Rightarrow> ('db, 'p, 's) Drand \<Rightarrow> (nat result \<times> ('db, 'p, 's) Drand \<times> ('p Identity \<times> DKGInfoPacket) list) result option" where
  "InitReshare_leader impl S newProtocol now pkt oldGroup setup evs d =
     (case setup of
        Inl e \<Rightarrow> Some (Inr (Inl (Wrap ''drand: invalid setup configuration: %s'' e), d, []))
      | Inr newGroup \<Rightarrow>
          (case reshare_checks S now oldGroup newGroup of
             (Some e, _, _) \<Rightarrow> Some (Inr (Inl e, d, []))
           | (None, oldGroup, newGroup) \<Rightarrow>
               (case pushDKGInfo impl S (g_Nodes oldGroup) (g_Nodes newGroup) (g_Threshold oldGroup) newGroup (si_Secret (ir_Info pkt))
                       (si_Timeout (ir_Info pkt)) evs d of
                  None \<Rightarrow> None
                | Some (Some _, sent, _) \<Rightarrow> Some (Inr (Inl (Err ''fail to push new group''), d, sent))
                | Some (None, sent, newGroup) \<Rightarrow>
                    Some (map_sum id (\<lambda>(r, d). (r, d, sent))
                      (runResharing_begin S newProtocol True oldGroup newGroup (si_Timeout (ir_Info pkt)) d)))))"

text \<open>A participant of a resharing.\<close>

definition setupAutomaticResharing_begin ::
  "('p, 's) suite \<Rightarrow> (string \<times> bool \<Rightarrow> ProtoIdentity option result) \<Rightarrow> 'p Group \<Rightarrow> InitResharePacket \<Rightarrow> ('db, 'p, 's) Drand
    \<Rightarrow> (nat \<times> SignalDKGPacket) result \<times> ('db, 'p, 's) Drand" where
  "setupAutomaticResharing_begin S get_identity oldGroup pkt d =
     (let oldHash = fst (Group_Hash S oldGroup)
      in if d_receiver d \<noteq> None \<and> \<not> si_Force (ir_Info pkt)
         then (Inl (Err ''reshare already in progress; use --force''), d)
         else
           let d = (case d_receiver d of
                      None \<Rightarrow> d
                    | Some r \<Rightarrow> d\<lparr>d_receivers := (d_receivers d)[r := setupReceiver_stop (d_receivers d ! r)], d_receiver := None\<rparr>)
           in case newSetupReceiver S get_identity (ir_Info pkt) of
                Inl e \<Rightarrow> (Inl e, d)
              | Inr rc \<Rightarrow>
                  let r = length (d_receivers d)
                  in (Inr (r, \<lparr>sg_Node = Some (Identity_ToProto S (pair_Public (d_priv d))), sg_SecretProof = si_Secret (ir_Info pkt),
                              sg_PreviousGroupHash = oldHash\<rparr>),
                      d\<lparr>d_receivers := d_receivers d @ [rc], d_receiver := Some r\<rparr>))"

text \<open>\<open>InitReshare\<close> up to the point where it waits, with the old group it found.\<close>

definition InitReshare ::
  "(float64 \<Rightarrow> uint32) \<Rightarrow> ('db, 'p, 's) libs \<Rightarrow> (string \<times> bool \<Rightarrow> ProtoIdentity option result) \<Rightarrow> string option option \<Rightarrow> InitResharePacket
    \<Rightarrow> ('db, 'p, 's) Drand \<Rightarrow> (('p Group \<times> nat \<times> SignalDKGPacket option) result \<times> ('db, 'p, 's) Drand) result option" where
  "InitReshare impl L get_identity old pkt d =
     (case Drand_extractGroup L old d of
        Inl e \<Rightarrow> Some (Inl e)
      | Inr (Inl e) \<Rightarrow> Some (Inr (Inl e, d))
      | Inr (Inr oldGroup) \<Rightarrow>
          if \<not> si_Leader (ir_Info pkt)
          then Some (Inr (map_prod (map_sum id (\<lambda>(r, p). (oldGroup, r, Some p))) id
                 (setupAutomaticResharing_begin (lib_suite L) get_identity oldGroup pkt d)))
          else
            map_option (\<lambda>r. Inr (map_prod (map_sum (Wrap ''drand: invalid setup configuration: %s'') (\<lambda>m. (oldGroup, m, None))) id r))
              (leaderRunSetup_begin (newReshareSetup impl (lib_suite L) (pair_Public (d_priv d)) oldGroup pkt) d))"

definition setupAutomaticResharing_group ::
  "('p, 's) suite \<Rightarrow> (('p, 's) dkg_Config \<Rightarrow> error option) \<Rightarrow> int \<Rightarrow> 'p Group \<Rightarrow> 'p Group \<Rightarrow> uint32 \<Rightarrow> ('db, 'p, 's) Drand
    \<Rightarrow> (nat result \<times> ('db, 'p, 's) Drand) result" where
  "setupAutomaticResharing_group S newProtocol now oldGroup newGroup dkgTimeout d =
     (case validateGroupTransition S now oldGroup newGroup of
        (Some e, _, _) \<Rightarrow> Inr (Inl e, d)
      | (None, oldGroup, newGroup) \<Rightarrow>
          let d = (case Group_Find S newGroup (pair_Public (d_priv d)) of
                     None \<Rightarrow> d | Some node \<Rightarrow> d\<lparr>d_index := uint (node_Index node)\<rparr>)
          in runResharing_begin S newProtocol False oldGroup newGroup dkgTimeout d)"

section \<open>Reading the state\<close>

definition Drand_Share :: "('db, 'p, 's) libs \<Rightarrow> ('db, 'p, 's) Drand \<Rightarrow> (uint32 \<times> bytes) result" where
  "Drand_Share L d =
     (case LoadShare (lib_toml L) (lib_suite L) (d_store d) (d_fs d) of
        Inl e \<Rightarrow> Inl e
      | Inr share \<Rightarrow> Inr (to_uint32 (sh_I (share_Share share)), sc_marshal (lib_suite L) (sh_V (share_Share share))))"

definition Drand_PublicKey :: "('db, 'p, 's) libs \<Rightarrow> ('db, 'p, 's) Drand \<Rightarrow> bytes result" where
  "Drand_PublicKey L d =
     (case LoadKeyPair (lib_toml L) (lib_suite L) (d_store d) (d_fs d) of
        Inl e \<Rightarrow> Inl e | Inr keyPair \<Rightarrow> Inr (pt_marshal (lib_suite L) (id_Key (pair_Public keyPair))))"

definition Drand_PrivateKey :: "('db, 'p, 's) libs \<Rightarrow> ('db, 'p, 's) Drand \<Rightarrow> bytes result" where
  "Drand_PrivateKey L d =
     (case LoadKeyPair (lib_toml L) (lib_suite L) (d_store d) (d_fs d) of
        Inl e \<Rightarrow> Inl e | Inr keyPair \<Rightarrow> Inr (sc_marshal (lib_suite L) (pair_Key keyPair)))"

definition Drand_GroupFile ::
  "(float64 \<Rightarrow> uint32) \<Rightarrow> ('p, 's) suite \<Rightarrow> ('db, 'p, 's) Drand \<Rightarrow> GroupPacket result \<times> ('db, 'p, 's) Drand" where
  "Drand_GroupFile impl S d =
     (case d_group d of
        None \<Rightarrow> (Inl (Err ''drand: no dkg group setup yet''), d)
      | Some g \<Rightarrow> let (pg, g) = Group_ToProto impl S g in (Inr pg, d\<lparr>d_group := Some g\<rparr>))"

text \<open>\<open>open_err\<close> is the error of opening the output file; the bytes are what is written to it.\<close>

definition BackupDatabase :: "error option \<Rightarrow> ('db, 'p, 's) Drand \<Rightarrow> bytes result" where
  "BackupDatabase open_err d =
     (case d_beacon d of
        None \<Rightarrow> Inl (Err ''drand: beacon not setup yet'')
      | Some inst \<Rightarrow>
          (case open_err of
             Some e \<Rightarrow> Inl (Wrap ''could not open file for backup: %w'' e)
           | None \<Rightarrow> boltStore_SaveTo (as_Store (stack_append (cs_stack (h_chain inst))))))"

text \<open>\<open>info\<close> is the variable of the loop; a later peer overwrites what an earlier one gave.\<close>

definition chainInfoFromPeers ::
  "('p, 's) suite \<Rightarrow> ('n \<Rightarrow> ChainInfoPacket result) \<Rightarrow> 'n list \<Rightarrow> 'p Info result" where
  "chainInfoFromPeers S ask peers =
     (let info = fold (\<lambda>peer info. case ask peer of
                          Inl _ \<Rightarrow> info
                        | Inr ci \<Rightarrow> (case InfoFromProto S ci of Inl _ \<Rightarrow> None | Inr i \<Rightarrow> Some i)) peers None
      in case info of None \<Rightarrow> Inl (Err ''unable to get a chain info successfully'') | Some i \<Rightarrow> Inr i)"

record FollowProgress =
  fp_Current :: uint64
  fp_Target :: uint64

text \<open>The callback: the message it sends, and whether it closes the channel \<open>done\<close>.\<close>

definition sendProgressCallback :: "(float64 \<Rightarrow> uint64) \<Rightarrow> uint64 \<Rightarrow> 'p Info \<Rightarrow> int \<Rightarrow> Beacon \<Rightarrow> FollowProgress \<times> bool" where
  "sendProgressCallback impl upTo info now b =
     (\<lparr>fp_Current = b_Round b, fp_Target = CurrentRound impl now (inf_Period info) (inf_GenesisTime info)\<rparr>,
      0 < upTo \<and> b_Round b = upTo)"

section \<open>Pushing the group\<close>

text \<open>Documented behaviour of the signatures of the key generation.\<close>

definition dkg_laws :: "('p, 's) suite \<Rightarrow> bool" where
  "dkg_laws S \<longleftrightarrow> (\<forall>k m. \<exists>sig. dkg_sign S k m = Inr sig \<and> dkg_verify S (pt_mul_base S k) m sig = None)"

lemma plain_dkg_laws: "dkg_laws plain_suite"
  by (simp add: dkg_laws_def plain_suite_def)

lemma nodesContainAddr_iff: "nodesContainAddr ns a \<longleftrightarrow> a \<in> node_addr ` set ns"
  by (auto simp: nodesContainAddr_def list_ex_iff)

lemma nodeUnion_addrs:
  "node_addr ` set (nodeUnion a b) = node_addr ` set a \<union> node_addr ` set b"
  "distinct (map node_addr a) \<Longrightarrow> distinct (map node_addr b) \<Longrightarrow> distinct (map node_addr (nodeUnion a b))"
  by (auto simp: nodeUnion_def nodesContainAddr_iff distinct_map_filter, metis image_eqI)

lemma dkgInfoPacket_ok:
  assumes "dkg_sign S k (fst (Group_Hash S grp)) = Inr sig"
  shows "dkgInfoPacket impl S k grp secret timeout =
      Inr (\<lparr>di_NewGroup = Some (fst (Group_ToProto impl S (snd (Group_Hash S grp)))), di_SecretProof = secret, di_DkgTimeout = timeout,
            di_Signature = sig\<rparr>, snd (Group_ToProto impl S (snd (Group_Hash S grp))))"
    and "g_Threshold (snd (Group_ToProto impl S (snd (Group_Hash S grp)))) = g_Threshold grp"
  using assms by (simp_all add: dkgInfoPacket_def split_beta Let_def Group_ToProto_def snd_GetGenesisSeed with_seed_def)

text \<open>The successful replies that count for a list of nodes.\<close>

definition accepted :: "'p Node list \<Rightarrow> (string \<times> error option) list \<Rightarrow> int" where
  "accepted nodes rs = int (length (filter (\<lambda>(a, e). e = None \<and> nodesContainAddr nodes a) rs))"

lemma push_loop_replies:
  "int (length rs) \<le> left \<Longrightarrow>
     push_loop outgoing incoming left p n (map (\<lambda>(a, e). Pushed a e) rs @ evs)
     = push_loop outgoing incoming (left - int (length rs)) (p - accepted outgoing rs) (n - accepted incoming rs) evs"
proof (induction rs arbitrary: left p n)
  case (Cons r rs)
  obtain a e where r: "r = (a, e)" by fastforce
  have "left - 1 - int (length rs) = left - int (length (r # rs))" by simp
  then show ?case
    using Cons by (cases e) (simp_all add: r accepted_def algebra_simps)
qed (simp add: accepted_def)

lemma push_loop_result:
  assumes "int (length rs) \<le> left" "rest = [] \<and> int (length rs) = left \<or> (\<exists>xs. rest = MinuteOver # xs)"
  shows "\<exists>e. push_loop outgoing incoming left p n (map (\<lambda>(a, e). Pushed a e) rs @ rest) = Some e
           \<and> (e = None \<longleftrightarrow> p \<le> accepted outgoing rs \<and> n \<le> accepted incoming rs)"
  using assms(2) by (auto simp: push_loop_replies [OF assms(1)] push_done_def)

text \<open>The nodes of a list that have the group: the leader and those whose reply was a success.\<close>

definition reached :: "string \<Rightarrow> (string \<times> error option) list \<Rightarrow> 'p Node list \<Rightarrow> int" where
  "reached self rs nodes = int (length (filter (\<lambda>n. node_addr n = self \<or> (node_addr n, None) \<in> set rs) nodes))"

lemma length_filter_card:
  assumes "distinct (map f xs)"
  shows "length (filter (\<lambda>x. P (f x)) xs) = card {y \<in> f ` set xs. P y}"
proof -
  have "{y \<in> f ` set xs. P y} = set (map f (filter (\<lambda>x. P (f x)) xs))" by auto
  moreover have "distinct (map f (filter (\<lambda>x. P (f x)) xs))" using assms by (rule distinct_map_filter)
  ultimately show ?thesis using distinct_card by (metis length_map)
qed

lemma reached_accepted:
  assumes "distinct (map node_addr nodes)" "distinct (map fst rs)" "self \<notin> fst ` set rs"
  shows "reached self rs nodes = accepted nodes rs + (if nodesContainAddr nodes self then 1 else 0)"
proof -
  let ?A = "{a \<in> node_addr ` set nodes. (a, None) \<in> set rs}"
  have "accepted nodes rs = int (card ?A)"
  proof -
    have "filter (\<lambda>(a, e). e = None \<and> nodesContainAddr nodes a) rs
        = filter (\<lambda>r. (\<lambda>a. (a, None) \<in> set rs \<and> nodesContainAddr nodes a) (fst r)) rs"
      using assms(2) by (intro filter_cong refl) (auto dest: eq_key_imp_eq_value)
    moreover have "{y \<in> fst ` set rs. (y, None) \<in> set rs \<and> nodesContainAddr nodes y} = ?A"
      by (force simp: nodesContainAddr_iff)
    ultimately show ?thesis
      using length_filter_card [OF assms(2), of "\<lambda>a. (a, None) \<in> set rs \<and> nodesContainAddr nodes a"] by (simp add: accepted_def)
  qed
  moreover have "reached self rs nodes = int (card {a \<in> node_addr ` set nodes. a = self \<or> (a, None) \<in> set rs})"
    using length_filter_card [OF assms(1), of "\<lambda>a. a = self \<or> (a, None) \<in> set rs"] by (simp add: reached_def)
  moreover have "{a \<in> node_addr ` set nodes. a = self \<or> (a, None) \<in> set rs} = (if nodesContainAddr nodes self then insert self ?A else ?A)"
    by (auto simp: nodesContainAddr_iff)
  moreover have "self \<notin> ?A" using assms(3) by force
  ultimately show ?thesis by simp
qed

text \<open>
  C13. Pushing the group waits for thresholds: the leader sends its packet to every other node of
  the two groups, and the call succeeds exactly when, counting the leader itself, at least a
  threshold of the new nodes and a threshold of the old ones have taken it, whether every node
  has replied or the minute after the last reply has passed; in whatever order the replies come.
\<close>

theorem pushDKGInfo_needs_thresholds:
  fixes d :: "('db, 'p, 's) Drand"
  assumes "dkg_laws S" "distinct (map node_addr outgoing)" "distinct (map node_addr incoming)"
    and "self = Identity_Address (pair_Public (d_priv d))" "nodesContainAddr (nodeUnion outgoing incoming) self"
    and "distinct (map fst rs)" "\<forall>a \<in> fst ` set rs. nodesContainAddr (nodeUnion outgoing incoming) a \<and> a \<noteq> self"
    and "rest = [] \<and> length rs + 1 = length (nodeUnion outgoing incoming) \<or> (\<exists>xs. rest = MinuteOver # xs)"
  shows "\<exists>e sent g. pushDKGInfo impl S outgoing incoming prevThr grp secret timeout (map (\<lambda>(a, e). Pushed a e) rs @ rest) d
              = Some (e, sent, g)
            \<and> (e = None \<longleftrightarrow> prevThr \<le> reached self rs outgoing \<and> g_Threshold grp \<le> reached self rs incoming)
            \<and> map fst sent = filter (\<lambda>i. Identity_Address i \<noteq> self) (map node_Identity (nodeUnion outgoing incoming))"
proof -
  let ?to = "nodeUnion outgoing incoming"
  obtain sig where "dkg_sign S (pair_Key (d_priv d)) (fst (Group_Hash S grp)) = Inr sig" using assms(1) by (auto simp: dkg_laws_def)
  then obtain pkt g where pk: "dkgInfoPacket impl S (pair_Key (d_priv d)) grp secret timeout = Inr (pkt, g)" "g_Threshold g = g_Threshold grp"
    using dkgInfoPacket_ok by fastforce
  have dt: "distinct (map node_addr ?to)" using nodeUnion_addrs(2) [OF assms(2,3)] .
  have "fst ` set rs \<subseteq> node_addr ` set ?to - {self}" using assms(7) by (auto simp: nodesContainAddr_iff)
  moreover have "card (node_addr ` set ?to - {self}) = length ?to - 1"
    using assms(5) dt distinct_card [OF dt] by (simp add: nodesContainAddr_iff)
  moreover have "card (fst ` set rs) = length rs" using distinct_card [OF assms(6)] by simp
  ultimately have "length rs \<le> length ?to - 1" by (metis card_mono finite_Diff finite_imageI finite_set)
  moreover have "?to \<noteq> []" using assms(5) by (auto simp: nodesContainAddr_def)
  ultimately have len: "int (length rs) \<le> int (length ?to) - 1" by (cases ?to) auto
  have full: "rest = [] \<and> int (length rs) = int (length ?to) - 1 \<or> (\<exists>xs. rest = MinuteOver # xs)" using assms(8) by auto
  have self: "self \<notin> fst ` set rs" using assms(7) by blast
  note rc = reached_accepted [OF _ assms(6) self]
  let ?p = "if nodesContainAddr outgoing self then prevThr - 1 else prevThr"
  let ?n = "if nodesContainAddr incoming self then g_Threshold grp - 1 else g_Threshold grp"
  obtain e where e: "push_loop outgoing incoming (int (length ?to) - 1) ?p ?n (map (\<lambda>(a, e). Pushed a e) rs @ rest) = Some e"
    "e = None \<longleftrightarrow> ?p \<le> accepted outgoing rs \<and> ?n \<le> accepted incoming rs"
    using push_loop_result [OF len full, of outgoing incoming ?p ?n] by blast
  have "e = None \<longleftrightarrow> prevThr \<le> reached self rs outgoing \<and> g_Threshold grp \<le> reached self rs incoming"
    unfolding e(2) rc [OF assms(2)] rc [OF assms(3)] by auto
  moreover have "map fst (pushDKGInfoPacket (pair_Public (d_priv d)) ?to pkt)
      = filter (\<lambda>i. Identity_Address i \<noteq> self) (map node_Identity ?to)"
    by (simp add: pushDKGInfoPacket_def assms(4) filter_map o_def)
  moreover have "pushDKGInfo impl S outgoing incoming prevThr grp secret timeout (map (\<lambda>(a, e). Pushed a e) rs @ rest) d
      = Some (e, pushDKGInfoPacket (pair_Public (d_priv d)) ?to pkt, g)"
    unfolding pushDKGInfo_def pk(1) sum.case prod.case Let_def pk(2) assms(4) [symmetric] e(1) by simp
  ultimately show ?thesis by blast
qed

theorem pushDKGInfo_needs_thresholds_witness:
  "\<forall>s f. \<exists>sent g. pushDKGInfo (\<lambda>_. 0) plain_suite [] (g_Nodes signed_group) 0 signed_group [9] 10 [Pushed ''b:1'' None] (example_daemon s f)
       = Some (None, sent, g) \<and> length sent = 1"
proof (intro allI)
  fix s f
  let ?d = "example_daemon s f" and ?rs = "[(''b:1'', None)]"
  have a: "map node_addr (g_Nodes signed_group) = [''a:1'', ''b:1'']" "Identity_Address (pair_Public (d_priv ?d)) = ''a:1''"
    by (simp_all add: signed_group_def Identity_Address_def NewKeyPair_def Pair_SelfSign_shape Let_def)
  have u: "nodeUnion [] (g_Nodes signed_group) = g_Nodes signed_group" by (simp add: nodeUnion_def nodesContainAddr_def)
  have m: "node_addr ` set (g_Nodes signed_group) = {''a:1'', ''b:1''}" using arg_cong [OF a(1), of set] by simp
  have l: "length (g_Nodes signed_group) = 2" by (simp add: signed_group_def)
  have h: "distinct (map node_addr ([] :: bytes Node list))" "distinct (map node_addr (g_Nodes signed_group))"
    "nodesContainAddr (nodeUnion [] (g_Nodes signed_group)) ''a:1''" "distinct (map fst ?rs)"
    "\<forall>x \<in> fst ` set ?rs. nodesContainAddr (nodeUnion [] (g_Nodes signed_group)) x \<and> x \<noteq> ''a:1''"
    "([] :: push_event list) = [] \<and> length ?rs + 1 = length (nodeUnion [] (g_Nodes signed_group)) \<or> (\<exists>xs. [] = MinuteOver # xs)"
    unfolding u nodesContainAddr_iff m a(1) using l by simp_all
  obtain e sent g where r: "pushDKGInfo (\<lambda>_. 0) plain_suite [] (g_Nodes signed_group) 0 signed_group [9] 10
        (map (\<lambda>(a, e). Pushed a e) ?rs @ []) ?d = Some (e, sent, g)"
      "e = None \<longleftrightarrow> 0 \<le> reached ''a:1'' ?rs ([] :: bytes Node list) \<and> g_Threshold signed_group \<le> reached ''a:1'' ?rs (g_Nodes signed_group)"
      "map fst sent = filter (\<lambda>i. Identity_Address i \<noteq> ''a:1'') (map node_Identity (nodeUnion [] (g_Nodes signed_group)))"
    using pushDKGInfo_needs_thresholds [OF plain_dkg_laws h(1,2) a(2) [symmetric] h(3-6), of "\<lambda>_. 0" 0 signed_group "[9]" 10] by blast
  have "filter (\<lambda>n. node_addr n = ''a:1'' \<or> (node_addr n, None) \<in> set ?rs) (g_Nodes signed_group) = g_Nodes signed_group"
    using m by (auto simp: filter_id_conv)
  then have "e = None" using r(2) l signed_group_facts(4) by (simp add: reached_def)
  moreover have "length sent = 1"
    using arg_cong [OF r(3), of length] unfolding u
    by (simp add: signed_group_def Identity_Address_def NewKeyPair_def Pair_SelfSign_shape Let_def)
  ultimately show "\<exists>sent g. pushDKGInfo (\<lambda>_. 0) plain_suite [] (g_Nodes signed_group) 0 signed_group [9] 10 [Pushed ''b:1'' None] ?d
       = Some (None, sent, g) \<and> length sent = 1" using r(1) by auto
qed

section \<open>The group of a resharing\<close>

definition reshare_group :: "(float64 \<Rightarrow> uint64) \<Rightarrow> ('p, 's) suite \<Rightarrow> 'p Group \<Rightarrow> int set \<Rightarrow> 'p setupManager \<Rightarrow> 'p Group \<Rightarrow> bool" where
  "reshare_group impl S old clk s g \<longleftrightarrow>
     g_GenesisTime g = g_GenesisTime old \<and> g_Period g = sm_beaconPeriod s \<and> g_GenesisSeed g = Some (fst (Group_GetGenesisSeed S old))
   \<and> (\<exists>now \<in> clk. g_TransitionTime g =
        snd (NextRound impl ((now + wrap64 (wrap64 (sm_dkgTimeout s * 3) + sm_beaconOffset s)) div Second) (sm_beaconPeriod s) (g_GenesisTime old)))"

definition reshare_inv :: "(float64 \<Rightarrow> uint64) \<Rightarrow> ('p, 's) suite \<Rightarrow> 'p Group \<Rightarrow> int set \<Rightarrow> 'p setupManager \<Rightarrow> bool" where
  "reshare_inv impl S old clk s \<longleftrightarrow>
     sm_isResharing s
   \<and> (\<exists>og. sm_oldGroup s = Some og \<and> g_GenesisTime og = g_GenesisTime old
         \<and> fst (Group_GetGenesisSeed S og) = fst (Group_GetGenesisSeed S old))
   \<and> (\<forall>g. sm_startDKG s = Some g \<longrightarrow> reshare_group impl S old clk s g)"

lemma reshare_inv_create:
  assumes "reshare_inv impl S old clk s" "createAndSend impl S now ks s = Inr s1" "now \<in> clk"
  shows "reshare_inv impl S old clk s1"
proof -
  obtain og where og: "sm_isResharing s" "sm_oldGroup s = Some og" "g_GenesisTime og = g_GenesisTime old"
      "fst (Group_GetGenesisSeed S og) = fst (Group_GetGenesisSeed S old)"
    using assms(1) by (auto simp: reshare_inv_def)
  have t: "g_GenesisTime (snd (Group_GetGenesisSeed S og)) = g_GenesisTime old"
    by (simp add: snd_GetGenesisSeed with_seed_def og(3))
  let ?t = "snd (NextRound impl ((now + wrap64 (wrap64 (sm_dkgTimeout s * 3) + sm_beaconOffset s)) div Second) (sm_beaconPeriod s) (g_GenesisTime old))"
  let ?g = "(NewGroup S ks (sm_thr s) (g_GenesisTime old) (sm_beaconPeriod s) (sm_catchupPeriod s))
     \<lparr>g_TransitionTime := ?t, g_GenesisSeed := Some (fst (Group_GetGenesisSeed S old))\<rparr>"
  have "s1 = s\<lparr>sm_oldGroup := Some (snd (Group_GetGenesisSeed S og)), sm_startDKG := Some ?g\<rparr>"
    using assms(2) by (simp add: createAndSend_def og Let_def split_beta)
  moreover have "reshare_group impl S old clk s ?g"
    unfolding reshare_group_def by (intro conjI bexI [OF _ assms(3)]) (simp_all add: NewGroup_def)
  ultimately show ?thesis using og t by (simp add: reshare_inv_def reshare_group_def)
qed

lemma reshare_inv_cong:
  assumes "reshare_inv impl S old clk s" "setup_params s' = setup_params s" "sm_oldGroup s' = sm_oldGroup s" "sm_startDKG s' = sm_startDKG s"
  shows "reshare_inv impl S old clk s'"
  using assms by (auto simp: reshare_inv_def reshare_group_def setup_params_def)

lemma setup_step_reshare:
  assumes "reshare_inv impl S old clk s" "setup_step impl S ev s = Inr s'" "\<And>now. ev = RunKey now \<Longrightarrow> now \<in> clk"
  shows "reshare_inv impl S old clk s'"
proof (cases ev)
  case (RunKey now)
  show ?thesis
  proof (cases "run_key impl S now s")
    case None
    then show ?thesis using assms RunKey by simp
  next
    case (Some r)
    then have "run_key impl S now s = Some (Inr s')" using assms(2) RunKey by simp
    then show ?thesis
    proof (cases rule: run_key_cases)
      case (made addr pk rest s1)
      have "reshare_inv impl S old clk (s\<lparr>sm_pushKeyCh := rest, sm_inKeys := sm_inKeys s @ [pk], sm_doneCh := True\<rparr>)"
        by (rule reshare_inv_cong [OF assms(1)]) (simp_all add: setup_params_def)
      then have "reshare_inv impl S old clk s1" using made(5) assms(3) RunKey by (blast intro: reshare_inv_create)
      then show ?thesis by (rule reshare_inv_cong) (simp_all add: setup_params_def made(6))
    qed (rule reshare_inv_cong [OF assms(1)]; simp add: setup_params_def)+
  qed
qed (rule reshare_inv_cong [OF assms(1)];
     use assms(2) in \<open>auto simp: ReceivedKey_def run_done_def StopPreemptively_def setup_params_def split: if_splits sum.splits option.splits\<close>)+

lemma setup_run_reshare:
  assumes "reshare_inv impl S old clk s" "setup_run impl S evs s = Inr s'" "clock_of evs \<subseteq> clk"
  shows "reshare_inv impl S old clk s'"
  using assms
proof (induction evs arbitrary: s)
  case (Cons ev evs)
  obtain s1 where s1: "setup_step impl S ev s = Inr s1" "setup_run impl S evs s1 = Inr s'"
    using Cons.prems(2) by (auto split: sum.splits)
  have "reshare_inv impl S old clk s1"
    using setup_step_reshare [OF Cons.prems(1) s1(1)] Cons.prems(3) by (auto simp: clock_of_def)
  then show ?case using Cons.IH [OF _ s1(2)] Cons.prems(3) by (auto simp: clock_of_def)
qed simp

lemma seed_sorted: "fst (Group_GetGenesisSeed S (g\<lparr>g_Nodes := sort_nodes (g_Nodes g)\<rparr>)) = fst (Group_GetGenesisSeed S g)"
  by (simp add: Group_GetGenesisSeed_def Group_Hash_def Let_def split: option.split)

lemma newReshareSetup_inv:
  assumes "newReshareSetup impl32 S leaderKey old pkt = Inr s0" "g_Period old = P * Second" "period_ok P"
    and "si_Timeout (ir_Info pkt) < 2 ^ 24" "si_BeaconOffset (ir_Info pkt) < 2 ^ 24"
  shows "reshare_inv impl S old clk s0" "sm_beaconPeriod s0 = P * Second" "0 \<le> sm_beaconOffset s0" "sm_beaconOffset s0 < 2 ^ 24 * Second"
    "wrap64 (wrap64 (sm_dkgTimeout s0 * 3) + sm_beaconOffset s0) = 3 * uint (si_Timeout (ir_Info pkt)) * Second + sm_beaconOffset s0"
    "keys_ok S s0" "sm_startDKG s0 = None"
proof -
  let ?i = "ir_Info pkt"
  have P: "0 \<le> P" "P < 2 ^ 32" using assms(3) by (simp_all add: period_ok_def)
  have "Seconds (P * Second) = Fin (of_int P)" using P by (intro Seconds_whole) simp_all
  then have bp: "f_to_uint32 impl32 (Seconds (g_Period old)) = to_uint32 P"
    using P by (simp add: f_to_uint32_def assms(2) trunc_rat_def)
  have T: "uint (si_Timeout ?i) < 2 ^ 24" "uint (si_BeaconOffset ?i) < 2 ^ 24"
    using assms(4,5) by (simp_all add: word_less_def)
  obtain sm where sm: "newDKGSetup leaderKey (to_uint32 P)
        (if \<not> ir_CatchupPeriodChanged pkt then f_to_uint32 impl32 (Seconds (g_CatchupPeriod old)) else ir_CatchupPeriod pkt) ?i = Inr sm"
    "s0 = sm\<lparr>sm_oldGroup := Some (old\<lparr>g_Nodes := sort_nodes (g_Nodes old)\<rparr>), sm_oldHash := fst (Group_Hash S old), sm_isResharing := True,
        sm_beaconOffset := (if uint (si_BeaconOffset ?i) * Second = 0 then DefaultResharingOffset else uint (si_BeaconOffset ?i) * Second)\<rparr>"
    using assms(1) by (auto simp: newReshareSetup_def bp split_beta wrap64_secs Let_def split: sum.splits)
  have f: "sm_beaconPeriod sm = uint (to_uint32 P) * Second" "sm_dkgTimeout sm = uint (si_Timeout ?i) * Second" "sm_startDKG sm = None"
    using sm(1) by (auto simp: newDKGSetup_def validInitPacket_def Let_def wrap64_secs split: if_splits)
  show "sm_beaconPeriod s0 = P * Second" using f P by (simp add: sm(2) uint_to_uint32)
  show o: "0 \<le> sm_beaconOffset s0" "sm_beaconOffset s0 < 2 ^ 24 * Second"
    using T by (simp_all add: sm(2) DefaultResharingOffset_def) (simp_all add: Second_def)
  have "is_int64 (uint (si_Timeout ?i) * Second * 3)" using is_int64_total [of "uint (si_Timeout ?i)" 0] T by (simp add: Second_def)
  moreover have "is_int64 (uint (si_Timeout ?i) * Second * 3 + sm_beaconOffset s0)"
    using is_int64_total [of "uint (si_Timeout ?i)" "sm_beaconOffset s0"] o T by simp
  moreover have "sm_dkgTimeout s0 = uint (si_Timeout ?i) * Second" using f by (simp add: sm(2))
  ultimately show "wrap64 (wrap64 (sm_dkgTimeout s0 * 3) + sm_beaconOffset s0) = 3 * uint (si_Timeout ?i) * Second + sm_beaconOffset s0"
    by simp
  show "reshare_inv impl S old clk s0" using f(3) by (simp add: reshare_inv_def sm(2) seed_sorted)
  show "keys_ok S s0" using newDKGSetup_inv(1) [OF sm(1), of S] by (simp add: keys_ok_def sm(2))
  show "sm_startDKG s0 = None" using f(3) by (simp add: sm(2))
qed

lemma TransitionNewGroup_at_round:
  assumes "period_ok P" "genesis_ok g" "g_Period (h_group h) = P * Second" "g_GenesisTime (h_group h) = g"
    and "g_TransitionTime new = g + q * P" "0 \<le> q" "q * P < 2 ^ 53"
  shows "\<exists>h'. TransitionNewGroup impl ns new h = Inr h'"
proof -
  have P1: "1 \<le> P" using assms(1) by (simp add: period_ok_def)
  have "CurrentRound impl (g + q * P) (P * Second) g = to_uint64 ((g + q * P - g) div P + 1)"
    using assms P1 by (intro CurrentRound_whole) simp_all
  then have "CurrentRound impl (g + q * P) (P * Second) g = to_uint64 (q + 1)" using P1 by simp
  moreover have "TimeOfRound (P * Second) g (to_uint64 (q + 1)) = g + q * P"
    using assms by (intro TimeOfRound_small) simp_all
  ultimately show ?thesis using assms(3-5) by (simp add: TransitionNewGroup_def Let_def)
qed

lemma reshare_checks_ok:
  assumes "g_GenesisTime new = g_GenesisTime old" "g_Period new = g_Period old" "g_GenesisSeed new = Some (fst (Group_GetGenesisSeed S old))"
    and "g_GenesisTime old \<le> t" "t \<le> g_TransitionTime new"
  shows "fst (validateGroupTransition S t old new) = None" "fst (reshare_checks S t old new) = None"
  using assms by (auto simp: validateGroupTransition_def reshare_checks_def Group_GetGenesisSeed_def [of S new] Let_def split_beta)

text \<open>
  C7. A resharing that its leader sets up is accepted by everybody: the group that the leader
  creates passes the checks of the leader itself and of a participant at every time up to its
  transition, its transition is the first round after the whole key generation can take, and the
  node that has to make the transition does not stop on it.
\<close>

theorem reshared_group_is_accepted:
  assumes "codec_laws S" "g_Period old = P * Second" "period_ok P" "genesis_ok (g_GenesisTime old)"
    and "newReshareSetup impl32 S leaderKey old pkt = Inr s0" "setup_run impl S evs s0 = Inr s" "sm_startDKG s = Some new"
    and "\<forall>now. RunKey now \<in> set evs \<longrightarrow> g_GenesisTime old * Second \<le> now \<and> now < 2 ^ 62"
    and "si_Timeout (ir_Info pkt) < 2 ^ 24" "si_BeaconOffset (ir_Info pkt) < 2 ^ 24"
  shows "(\<exists>now ready. RunKey now \<in> set evs \<and> ready = (now + 3 * uint (si_Timeout (ir_Info pkt)) * Second + sm_beaconOffset s0) div Second
            \<and> ready < g_TransitionTime new \<and> g_TransitionTime new \<le> ready + P)
       \<and> (\<forall>t. g_GenesisTime old \<le> t \<longrightarrow> t \<le> g_TransitionTime new \<longrightarrow>
            fst (validateGroupTransition S t old new) = None \<and> fst (reshare_checks S t old new) = None)
       \<and> (\<forall>ns h. g_Period (h_group h) = g_Period old \<longrightarrow> g_GenesisTime (h_group h) = g_GenesisTime old \<longrightarrow>
            (\<exists>h'. TransitionNewGroup impl ns new h = Inr (h' :: ('db, 'p, 's) Handler)))"
proof -
  let ?g = "g_GenesisTime old" and ?T = "uint (si_Timeout (ir_Info pkt))"
  note n = newReshareSetup_inv [OF assms(5,2,3,9,10)]
  have pr: "setup_params s = setup_params s0"
    using setup_run_invariants [OF n(6) _ assms(1,6), where clk = UNIV] n(7) by (simp add: group_made_def)
  have "reshare_inv impl S old (clock_of evs) s" using setup_run_reshare [OF n(1) assms(6)] by blast
  then have rg: "reshare_group impl S old (clock_of evs) s new" using assms(7) by (simp add: reshare_inv_def)
  have e: "sm_beaconPeriod s = P * Second"
    "wrap64 (wrap64 (sm_dkgTimeout s * 3) + sm_beaconOffset s) = 3 * ?T * Second + sm_beaconOffset s0"
    using pr n(2,5) by (auto simp: setup_params_def)
  obtain now where now: "RunKey now \<in> set evs"
    "g_TransitionTime new = snd (NextRound impl ((now + (3 * ?T * Second + sm_beaconOffset s0)) div Second) (P * Second) ?g)"
    using rg unfolding reshare_group_def e clock_of_def by blast
  define ready where "ready = (now + 3 * ?T * Second + sm_beaconOffset s0) div Second"
  define q where "q = (ready - ?g) div P"
  have T: "0 \<le> ?T" "?T < 2 ^ 24" using assms(9) by (simp_all add: word_less_def)
  have P: "1 \<le> P" "P < 2 ^ 32" using assms(3) by (simp_all add: period_ok_def)
  have w: "?g * Second \<le> now" "now < 2 ^ 62" using assms(8) now(1) by blast+
  have "?g * Second div Second \<le> ready"
    unfolding ready_def using w(1) T n(3) unfolding Second_def by (intro zdiv_mono1; linarith)
  then have r1: "?g \<le> ready" by (simp add: Second_def)
  have "ready \<le> (2 ^ 62 + 3 * 2 ^ 24 * Second + 2 ^ 24 * Second) div Second"
    unfolding ready_def using w(2) T n(4) unfolding Second_def by (intro zdiv_mono1; linarith)
  then have r2: "ready - ?g < 2 ^ 40" using assms(4) by (simp add: Second_def genesis_ok_def)
  have "0 \<le> (ready - ?g) mod P" "(ready - ?g) mod P < P" using P by simp_all
  then have q: "q * P \<le> ready - ?g" "ready - ?g < (q + 1) * P"
    using div_mult_mod_eq [of "ready - ?g" P] unfolding q_def distrib_right by linarith+
  have q0: "0 \<le> q" using P r1 by (simp add: q_def pos_imp_zdiv_nonneg_iff)
  have tt: "g_TransitionTime new = ?g + (q + 1) * P"
    using now(2) NextRound_whole [OF assms(3,4) r1] r2 by (simp add: ready_def q_def add.assoc)
  have b: "(q + 1) * P < 2 ^ 53" using q(1) r2 P by (simp add: distrib_right)
  have "ready < g_TransitionTime new" "g_TransitionTime new \<le> ready + P" using q by (simp_all add: tt distrib_right)
  moreover have "\<exists>h'. TransitionNewGroup impl ns new h = Inr h'"
    if "g_Period (h_group h) = g_Period old" "g_GenesisTime (h_group h) = ?g" for ns and h :: "('db, 'p, 's) Handler"
    using TransitionNewGroup_at_round [OF assms(3,4) _ that(2) tt _ b] that(1) assms(2) q0 by simp
  moreover have "fst (validateGroupTransition S t old new) = None \<and> fst (reshare_checks S t old new) = None"
    if "?g \<le> t" "t \<le> g_TransitionTime new" for t
    using rg reshare_checks_ok [OF _ _ _ that, of S] assms(2) e(1) by (simp add: reshare_group_def)
  ultimately show ?thesis using now(1) ready_def by blast
qed

definition reshare_pkt :: InitResharePacket where
  "reshare_pkt = \<lparr>ir_Info = setup_pkt, ir_CatchupPeriodChanged = True, ir_CatchupPeriod = 15\<rparr>"

definition member_reshare_pkt :: SignalDKGPacket where
  "member_reshare_pkt = member_pkt\<lparr>sg_PreviousGroupHash := fst (Group_Hash plain_suite signed_group)\<rparr>"

lemma member_reshare_pkt_accepted:
  assumes "sm_hashedSecret s = hashSecret [1, 2]" "sm_oldHash s = fst (Group_Hash plain_suite signed_group)"
  shows "ReceivedKey plain_suite addr member_reshare_pkt s =
    (None, s\<lparr>sm_pushKeyCh := sm_pushKeyCh s @ [(addr, \<lparr>id_Key = [2], id_Addr = ''b:1'', id_TLS = False, id_Signature = [2, 7, 2]\<rparr>)]\<rparr>)"
proof -
  have "is_ok (SplitHostPort ''b:1'')" by code_simp
  then show ?thesis
    using assms by (auto simp: ReceivedKey_def member_pkt_def member_reshare_pkt_def correctSecret_def Let_def IdentityFromProto_def
        pi_GetAddress_def pi_GetKey_def pi_GetSignature_def Identity_ValidSignature_def Identity_Hash_def plain_suite_def split: sum.splits)
qed

lemma signed_group_times: "g_Period signed_group = 30 * Second" "g_GenesisTime signed_group = 1600000000"
  by (simp_all add: signed_group_def example_group_def LoadGroup_def)

lemma example_reshare_setup:
  obtains s0 s new where "newReshareSetup (\<lambda>_. 0) plain_suite leader_id signed_group reshare_pkt = Inr s0"
    "setup_run (\<lambda>_. 0) plain_suite [Signal ''b:1'' member_reshare_pkt, RunKey 1600000100000000000] s0 = Inr s" "sm_startDKG s = Some new"
    "sm_beaconOffset s0 = 5 * Second"
proof -
  let ?now = "1600000100000000000"
  have "Seconds (30 * Second) = Fin (of_int 30)" by (rule Seconds_whole) simp_all
  then have bp: "f_to_uint32 (\<lambda>_. 0) (Seconds (g_Period signed_group)) = 30"
    by (simp add: f_to_uint32_def signed_group_times trunc_rat_def to_uint32_def)
  obtain s0 where s0: "newReshareSetup (\<lambda>_. 0) plain_suite leader_id signed_group reshare_pkt = Inr s0"
    by (simp add: newReshareSetup_def newDKGSetup_def validInitPacket_def reshare_pkt_def setup_pkt_def MinimumT_def Let_def split_beta)
  have f: "sm_hashedSecret s0 = hashSecret [1, 2]" "sm_isResharing s0" "sm_pushKeyCh s0 = []" "sm_inKeys s0 = [leader_id]"
    "sm_expected s0 = 2" "\<not> sm_doneCh s0" "\<not> sm_returned s0" "sm_oldHash s0 = fst (Group_Hash plain_suite signed_group)"
    "sm_beaconOffset s0 = 5 * Second"
    using s0 by (auto simp: newReshareSetup_def newDKGSetup_def validInitPacket_def reshare_pkt_def setup_pkt_def MinimumT_def bp Let_def
        split_beta Second_def is_int64_def)
  obtain og where og: "sm_oldGroup s0 = Some og"
    using s0 by (auto simp: newReshareSetup_def Let_def split_beta split: sum.splits)
  let ?m = "\<lparr>id_Key = [2], id_Addr = ''b:1'', id_TLS = False, id_Signature = [2, 7, 2]\<rparr> :: bytes Identity"
  have new: "\<not> (Identity_Address leader_id = Identity_Address ?m \<or> pt_equal plain_suite (id_Key leader_id) (id_Key ?m))"
    by (simp add: leader_id_def Identity_Address_def plain_suite_def)
  let ?s1 = "s0\<lparr>sm_pushKeyCh := [], sm_inKeys := [leader_id, ?m], sm_doneCh := True\<rparr>"
  obtain s1 g where s1: "createAndSend (\<lambda>_. 0) plain_suite ?now [leader_id, ?m] ?s1 = Inr s1" "sm_startDKG s1 = Some g"
    by (simp add: createAndSend_def Let_def f og split_beta)
  have "run_key (\<lambda>_. 0) plain_suite ?now (s0\<lparr>sm_pushKeyCh := [(''b:1'', ?m)]\<rparr>)
      = Some (map_sum id (\<lambda>s. s\<lparr>sm_returned := True\<rparr>) (createAndSend (\<lambda>_. 0) plain_suite ?now [leader_id, ?m] ?s1))"
    using new by (simp add: run_key_def f Let_def)
  then show ?thesis using that [OF s0 _ _ f(9)] s1 by (simp add: member_reshare_pkt_accepted f)
qed

theorem reshared_group_is_accepted_witness:
  "\<exists>s0 s new. newReshareSetup (\<lambda>_. 0) plain_suite leader_id signed_group reshare_pkt = Inr s0
     \<and> setup_run (\<lambda>_. 0) plain_suite [Signal ''b:1'' member_reshare_pkt, RunKey 1600000100000000000] s0 = Inr s
     \<and> sm_startDKG s = Some new \<and> 1600000135 < g_TransitionTime new \<and> g_TransitionTime new \<le> 1600000165
     \<and> fst (validateGroupTransition plain_suite 1600000100 signed_group new) = None"
proof -
  obtain s0 s new where s: "newReshareSetup (\<lambda>_. 0) plain_suite leader_id signed_group reshare_pkt = Inr s0"
    "setup_run (\<lambda>_. 0) plain_suite [Signal ''b:1'' member_reshare_pkt, RunKey 1600000100000000000] s0 = Inr s" "sm_startDKG s = Some new"
    "sm_beaconOffset s0 = 5 * Second" by (rule example_reshare_setup)
  have h: "period_ok 30" "genesis_ok (g_GenesisTime signed_group)" by (simp_all add: period_ok_def genesis_ok_def signed_group_times)
  have t: "si_Timeout (ir_Info reshare_pkt) = 10" "si_BeaconOffset (ir_Info reshare_pkt) = 5" by (simp_all add: reshare_pkt_def setup_pkt_def)
  have c: "\<forall>now. RunKey now \<in> set [Signal ''b:1'' member_reshare_pkt, RunKey 1600000100000000000] \<longrightarrow>
      g_GenesisTime signed_group * Second \<le> now \<and> now < 2 ^ 62" by (simp add: signed_group_times Second_def)
  have b: "1600000135 < g_TransitionTime new" "g_TransitionTime new \<le> 1600000165"
    "fst (validateGroupTransition plain_suite 1600000100 signed_group new) = None"
    using reshared_group_is_accepted [OF plain_suite_laws(1) signed_group_times(1) h s(1-3) c] t s(4)
    by (auto simp: Second_def signed_group_times)
  then show ?thesis using s by blast
qed

end
