(* ===== verification/Entropy.thy ===== *)
theory Entropy
  imports Prelude
begin

text \<open>
  \<open>src/entropy/entropy.go\<close>: the randomness a node reads for itself, and the script that an
  operator may give as a source of entropy for the key generation.

  A reader gets the buffer and gives it back with the number of bytes read and an error; no
  value means that it does not return.
\<close>

type_synonym reader = "bytes \<Rightarrow> (bytes \<times> nat \<times> error option) option"

text \<open>\<open>crypto\<close> is the reader of the operating system.\<close>

definition GetRandom :: "reader \<Rightarrow> reader option \<Rightarrow> uint32 \<Rightarrow> (bytes \<times> error option) option" where
  "GetRandom crypto source n =
     (case (case source of None \<Rightarrow> crypto | Some r \<Rightarrow> r) (replicate (unat n) 0) of
        None \<Rightarrow> None
      | Some (randomBytes, bytesRead, err) \<Rightarrow>
          if err \<noteq> None \<or> of_nat bytesRead \<noteq> n then map_option (\<lambda>(p, _, err). (p, err)) (crypto randomBytes)
          else Some (randomBytes, None))"

record ScriptReader =
  sc_Path :: string

definition NewScriptReader :: "string \<Rightarrow> ScriptReader" where
  "NewScriptReader path = \<lparr>sc_Path = path\<rparr>"

definition ScriptReader_GetPath :: "ScriptReader \<Rightarrow> string" where
  "ScriptReader_GetPath r = sc_Path r"

text \<open>\<open>copy (p[read:], b)\<close>: the new contents and the number of bytes copied.\<close>

definition go_copy :: "bytes \<Rightarrow> nat \<Rightarrow> bytes \<Rightarrow> bytes \<times> nat" where
  "go_copy p k b = (let n = min (length p - k) (length b) in (take k p @ take n b @ drop (k + n) p, n))"

text \<open>The loop, on the outcomes of the successive runs of the script: its output or an error.\<close>

fun script_loop :: "bytes result list \<Rightarrow> nat \<Rightarrow> bytes \<Rightarrow> bytes \<Rightarrow> (bytes \<times> nat \<times> error option) option" where
  "script_loop [] k b p = (if k < length p then None else Some (p, length p, None))"
| "script_loop (run # runs) k b p =
     (if k < length p then
        (case run of
           Inl e \<Rightarrow> Some (p, k, Some e)
         | Inr out \<Rightarrow> let b = b @ out; (p, n) = go_copy p k b in script_loop runs (k + n) b p)
      else Some (p, length p, None))"

definition ScriptReader_Read :: "bytes result list \<Rightarrow> ScriptReader \<Rightarrow> reader" where
  "ScriptReader_Read runs r p =
     (if sc_Path r = [] then Some (p, 0, Some (Err ''no reader was provided'')) else script_loop runs 0 [] p)"

section \<open>What a script gives\<close>

text \<open>What was read so far is never changed by a later run.\<close>

lemma go_copy_simps:
  assumes "go_copy p k b = (p', n)" "k \<le> length p"
  shows "n = min (length p - k) (length b)" "length p' = length p" "take k p' = take k p" "take (k + n) p' = take k p @ take n b"
    "k + n \<le> length p"
  using assms by (auto simp: go_copy_def Let_def)

lemma script_loop_keeps:
  assumes "script_loop runs k b p = Some (p', n, e)" "k \<le> length p"
  shows "length p' = length p \<and> take k p' = take k p \<and> (e = None \<longrightarrow> n = length p)"
  using assms
proof (induction runs arbitrary: k b p)
  case (Cons run runs)
  show ?case
  proof (cases "k < length p \<and> is_ok run")
    case True
    then obtain out p1 m where o: "run = Inr out" "go_copy p k (b @ out) = (p1, m)" by (cases run; cases "go_copy p k (b @ projr run)") auto
    note c = go_copy_simps [OF o(2) Cons.prems(2)]
    have "length p' = length p1 \<and> take (k + m) p' = take (k + m) p1 \<and> (e = None \<longrightarrow> n = length p1)"
      using Cons.IH [of "k + m" "b @ out" p1] Cons.prems True o c by (auto simp: Let_def)
    moreover from this have "take k (take (k + m) p') = take k (take (k + m) p1)" by (simp only:)
    then have "take k p' = take k p1" by (simp add: min.absorb1)
    ultimately show ?thesis using c(2,3) by simp
  qed (use Cons.prems in \<open>auto split: if_splits sum.splits\<close>)
qed (auto split: if_splits)

text \<open>
  The bytes of a script are used more than once: when the output \<open>x\<close> of its first run does not
  fill the buffer, the buffer starts with \<open>x\<close> twice, whatever the later runs of the script print.
\<close>

lemma script_output_is_repeated:
  assumes "ScriptReader_Read (Inr x # Inr y # runs) r p = Some (p', n, None)" "2 * length x \<le> length p" "x \<noteq> []"
  shows "n = length p \<and> length p' = length p \<and> take (2 * length x) p' = x @ x"
proof -
  let ?k = "length x"
  have l: "script_loop (Inr x # Inr y # runs) 0 [] p = Some (p', n, None)"
    using assms(1) by (auto simp: ScriptReader_Read_def split: if_splits)
  obtain p1 m1 where 1: "go_copy p 0 x = (p1, m1)" by fastforce
  note c1 = go_copy_simps [OF 1 le0]
  have m1: "m1 = ?k" "take ?k p1 = x" using c1 assms(2) by simp_all
  have k: "?k < length p" "p \<noteq> []" using assms(2,3) by (cases x; auto)+
  obtain p2 m2 where 2: "go_copy p1 ?k (x @ y) = (p2, m2)" by fastforce
  have c2: "m2 = min (length p - ?k) (length (x @ y))" "length p2 = length p" "take (?k + m2) p2 = x @ take m2 (x @ y)" "?k + m2 \<le> length p2"
    using go_copy_simps [OF 2] c1 m1 k by simp_all
  have "script_loop runs (?k + m2) (x @ y) p2 = Some (p', n, None)" using l 1 2 m1 k c1(2) by (simp add: Let_def)
  note f = script_loop_keeps [OF this c2(4)]
  have le: "?k \<le> m2" using c2(1) assms(2) by simp
  have "take (2 * ?k) (take (?k + m2) p') = take (2 * ?k) (x @ take m2 (x @ y))"
    unfolding c2(3) [symmetric] using f by (simp only:)
  then have "take (2 * ?k) p' = x @ x" using le by (simp only: take_take mult_2) (simp add: min.absorb1 min.absorb2)
  then show ?thesis using f c2(2) by simp
qed

lemma script_output_is_repeated_example:
  "ScriptReader_Read [Inr [1, 2], Inr [3, 4], Inr [5, 6]] \<lparr>sc_Path = ''/bin/dice''\<rparr> [0, 0, 0, 0, 0] = Some ([1, 2, 1, 2, 3], 5, None)
   \<and> take 4 ([1, 2, 1, 2, 3] :: bytes) = [1, 2] @ [1, 2]"
proof -
  have "ScriptReader_Read [Inr [1, 2], Inr [3, 4], Inr [5, 6]] \<lparr>sc_Path = ''/bin/dice''\<rparr> [0, 0, 0, 0, 0] = Some ([1, 2, 1, 2, 3], 5, None)"
    by (simp add: ScriptReader_Read_def go_copy_def Let_def)
  with script_output_is_repeated [OF this] show ?thesis by simp
qed

text \<open>A script that prints nothing makes the reader run it for ever.\<close>

lemma silent_script_never_returns:
  assumes "sc_Path r \<noteq> []" "p \<noteq> []"
  shows "ScriptReader_Read (replicate m (Inr [])) r p = None"
proof -
  have "script_loop (replicate m (Inr [])) 0 [] p = None"
    using assms(2) by (induction m) (simp_all add: go_copy_def Let_def)
  then show ?thesis using assms(1) by (simp add: ScriptReader_Read_def)
qed

end
