(* ===== verification/Drand_Public.thy ===== *)
theory Drand_Public
  imports Drand_Control Entropy
begin

text \<open>
  \<open>src/core/drand_public.go\<close> and \<open>src/net/peer.go\<close>: what the daemon answers to other nodes and
  to clients, and how the two sides of a group setup meet.
\<close>

section \<open>The address of a caller\<close>

definition reserved :: "string list" where
  "reserved = [''10.'', ''127.'', ''192.168'', ''100.64.'', ''172.16.'', ''169.254.'']"

text \<open>\<open>peer\<close> is the address of the connection and \<open>md\<close> the values of the header \<open>x-real-ip\<close>, if known.\<close>

definition RemoteAddress :: "string option \<Rightarrow> string list option \<Rightarrow> string" where
  "RemoteAddress peer md =
     (let str = (case peer of None \<Rightarrow> [] | Some a \<Rightarrow> a);
          lookAtHeader = (str = [] \<or> list_ex (\<lambda>r. prefix r str) reserved)
      in if \<not> lookAtHeader then str
         else case md of Some (v # _) \<Rightarrow> v | _ \<Rightarrow> str)"

section \<open>Beacons\<close>

record PublicRandResponse =
  pr_Round :: uint64
  pr_Signature :: bytes
  pr_PreviousSignature :: bytes
  pr_Randomness :: bytes

definition core_beaconToProto :: "Beacon \<Rightarrow> PublicRandResponse" where
  "core_beaconToProto b =
     \<lparr>pr_Round = b_Round b, pr_Signature = b_Signature b, pr_PreviousSignature = b_PreviousSig b, pr_Randomness = Beacon_Randomness b\<rparr>"

definition PartialBeacon ::
  "(float64 \<Rightarrow> uint64) \<Rightarrow> ('p, 's) suite \<Rightarrow> int \<Rightarrow> string \<Rightarrow> PartialBeaconPacket \<Rightarrow> ('db, 'p, 's) Drand
    \<Rightarrow> error option \<times> ('db, 'p, 's) Drand" where
  "PartialBeacon impl S now addr p d =
     (case d_beacon d of
        None \<Rightarrow> (Some (Err ''drand: beacon not setup yet''), d)
      | Some inst \<Rightarrow> map_prod id (\<lambda>h. d\<lparr>d_beacon := Some h\<rparr>) (ProcessPartialBeacon impl S now addr p inst))"

abbreviation h_stack :: "('db, 'p, 's) Handler \<Rightarrow> ('db, 'p) sync_store" where
  "h_stack h \<equiv> cs_stack (h_chain h)"

definition Drand_PublicRand :: "uint64 \<Rightarrow> ('db, 'p, 's) Drand \<Rightarrow> PublicRandResponse result" where
  "Drand_PublicRand rnd d =
     (case d_beacon d of
        None \<Rightarrow> Inl (Err ''drand: beacon generation not started yet'')
      | Some h \<Rightarrow>
          (case (if rnd = 0 then st_Last sync_ops (h_stack h) else st_Get sync_ops rnd (h_stack h)) of
             Inl err \<Rightarrow> Inl (Wrap ''can't retrieve beacon: %w %s'' err)
           | Inr r \<Rightarrow> Inr (core_beaconToProto r)))"

text \<open>
  A stream from the store, up to the registration of its callback: the packets sent and the
  error. \<open>send\<close> and the fuel are as in \<open>sendCursor\<close>.
\<close>

fun streamCursor ::
  "(nat \<Rightarrow> error option) \<Rightarrow> nat \<Rightarrow> nat \<Rightarrow> Beacon option \<times> cursor_pos \<Rightarrow> ('db, 'p) sync_store
    \<Rightarrow> PublicRandResponse list \<times> error option" where
  "streamCursor send k (Suc fuel) (Some bb, p) st =
     (case send k of
        Some e \<Rightarrow> ([], Some e)
      | None \<Rightarrow>
          let (sent, e) = streamCursor send (Suc k) fuel (st_Next sync_ops p st) st
          in (core_beaconToProto bb # sent, e))"
| "streamCursor send k _ _ st = ([], None)"

definition PublicRandStream_send ::
  "(nat \<Rightarrow> error option) \<Rightarrow> uint64 \<Rightarrow> ('db, 'p, 's) Drand \<Rightarrow> PublicRandResponse list \<times> error option" where
  "PublicRandStream_send send rnd d =
     (case d_beacon d of
        None \<Rightarrow> ([], Some (Err ''beacon has not started on this node yet''))
      | Some b \<Rightarrow>
          let st = h_stack b
          in case st_Last sync_ops st of
               Inl e \<Rightarrow> ([], Some e)
             | Inr lastb \<Rightarrow>
                 if rnd \<noteq> 0 \<and> rnd \<le> b_Round lastb
                 then streamCursor send 0 (nat (st_Len sync_ops st) + 1) (st_Seek sync_ops rnd st) st
                 else ([], None))"

text \<open>
  The registration, for a stream that the name \<open>stream\<close> stands for, with the beacon handler of
  the daemon at that time; and the callback, which removes itself when the stream fails.
\<close>

definition PublicRandStream_register ::
  "string \<Rightarrow> string \<Rightarrow> ('db, 'p, 's) Drand \<Rightarrow> ('db, 'p, 's) Drand result" where
  "PublicRandStream_register addr stream d =
     (case d_beacon d of
        None \<Rightarrow> Inl (Panic ''nil pointer dereference'')
      | Some b \<Rightarrow> Inr (d\<lparr>d_beacon := Some (Handler_AddCallback addr (StreamCb stream) b)\<rparr>))"

definition PublicRandStream_callback ::
  "string \<Rightarrow> (PublicRandResponse \<Rightarrow> error option) \<Rightarrow> Beacon \<Rightarrow> ('db, 'p, 's) Drand \<Rightarrow> (error option \<times> ('db, 'p, 's) Drand) result" where
  "PublicRandStream_callback addr send b d =
     (case send (core_beaconToProto b) of
        None \<Rightarrow> Inr (None, d)
      | Some e \<Rightarrow>
          (case d_beacon d of
             None \<Rightarrow> Inl (Panic ''nil pointer dereference'')
           | Some h \<Rightarrow> Inr (Some e, d\<lparr>d_beacon := Some (Handler_RemoveCallback addr h)\<rparr>)))"

definition Drand_SyncChain ::
  "(nat \<Rightarrow> error option) \<Rightarrow> uint64 \<Rightarrow> ('db, 'p, 's) Drand \<Rightarrow> BeaconPacket list \<times> error option" where
  "Drand_SyncChain send fromRound d =
     (case d_beacon d of None \<Rightarrow> ([], None) | Some b \<Rightarrow> SyncChain_send send fromRound (h_stack b))"

section \<open>Randomness for one client\<close>

definition PrivateRandLength :: uint32 where "PrivateRandLength = 32"

text \<open>The two functions of the encryption library; the reply may come with an error.\<close>

definition PrivateRand ::
  "('p, 's) suite \<Rightarrow> ('s \<Rightarrow> bytes \<Rightarrow> bytes result) \<Rightarrow> ('p \<Rightarrow> bytes \<Rightarrow> bytes \<times> error option) \<Rightarrow> reader \<Rightarrow> bytes \<Rightarrow> ('db, 'p, 's) Drand
    \<Rightarrow> (bytes \<times> error option) result option" where
  "PrivateRand S ecies_Decrypt ecies_Encrypt crypto request d =
     (if \<not> cc_enablePrivate (d_opts d) then Some (Inl (Err ''private randomness is disabled''))
      else
        (case ecies_Decrypt (pair_Key (d_priv d)) request of
           Inl _ \<Rightarrow> Some (Inl (Err ''invalid ECIES request''))
         | Inr msg \<Rightarrow>
             (case pt_unmarshal S msg of
                Inl _ \<Rightarrow> Some (Inl (Err ''invalid client key''))
              | Inr clientKey \<Rightarrow>
                  map_option (\<lambda>(randomness, err).
                      case err of
                        Some e \<Rightarrow> Inl (Wrap ''error gathering randomness: %s'' e)
                      | None \<Rightarrow>
                          if length randomness \<noteq> unat PrivateRandLength
                          then Inl (Errf ''error gathering randomness: expected 32 bytes, got %d'' [int (length randomness)])
                          else Inr (ecies_Encrypt clientKey randomness))
                    (GetRandom crypto None PrivateRandLength))))"

section \<open>Information\<close>

definition Home :: "('db, 'p, 's) Drand \<Rightarrow> string" where
  "Home d = ''drand up and running on '' @ Identity_Address (pair_Public (d_priv d))"

definition Drand_ChainInfo ::
  "(float64 \<Rightarrow> uint32) \<Rightarrow> ('p, 's) suite \<Rightarrow> ('db, 'p, 's) Drand \<Rightarrow> (ChainInfoPacket result \<times> ('db, 'p, 's) Drand) result" where
  "Drand_ChainInfo impl S d =
     (case d_group d of
        None \<Rightarrow> Inr (Inl (Err ''drand: no dkg group setup yet''), d)
      | Some g \<Rightarrow> map_sum id (\<lambda>(info, g). (Inr (Info_ToProto impl S info), d\<lparr>d_group := Some g\<rparr>)) (NewChainInfo S g))"

definition GetIdentity :: "('p, 's) suite \<Rightarrow> ('db, 'p, 's) Drand \<Rightarrow> ProtoIdentity" where
  "GetIdentity S d = Identity_ToProto S (pair_Public (d_priv d))"

section \<open>Key generation\<close>

definition Drand_BroadcastDKG ::
  "('p, 's) suite \<Rightarrow> (('p, 's) dkg_packet \<Rightarrow> bytes) \<Rightarrow> (('p, 's) dkg_Config \<Rightarrow> ('p, 's) dkg_packet \<Rightarrow> error option) \<Rightarrow> nat list
    \<Rightarrow> pdkg_packet option \<Rightarrow> ('db, 'p, 's) Drand \<Rightarrow> (error option \<times> ('db, 'p, 's) Drand) result" where
  "Drand_BroadcastDKG S pkt_hash verif perm p d =
     (case d_dkgInfo d of
        None \<Rightarrow> Inr (Some (Err ''drand: no dkg running''), d)
      | Some k \<Rightarrow>
          let info = d_infos d ! k;
              d = (if \<not> ki_started info then d\<lparr>d_go := d_go d @ [PhaserStart k]\<rparr> else d);
              info = (if \<not> ki_started info then info\<lparr>ki_target := snd (Group_Hash S (ki_target info)), ki_started := True\<rparr> else info)
          in map_sum id (\<lambda>(e, b). (e, d\<lparr>d_infos := (d_infos d)[k := info\<lparr>ki_board := b\<rparr>]\<rparr>))
               (BroadcastDKG S pkt_hash (verif (ki_conf info)) perm p (ki_board info)))"

definition SignalDKGParticipant ::
  "('p, 's) suite \<Rightarrow> string \<Rightarrow> SignalDKGPacket \<Rightarrow> ('db, 'p, 's) Drand \<Rightarrow> error option \<times> ('db, 'p, 's) Drand" where
  "SignalDKGParticipant S addr p d =
     (case d_manager d of
        None \<Rightarrow> (Some (Err ''no manager''), d)
      | Some m \<Rightarrow> map_prod id (\<lambda>s. d\<lparr>d_managers := (d_managers d)[m := s]\<rparr>) (ReceivedKey S addr p (d_managers d ! m)))"

definition Drand_PushDKGInfo ::
  "('p, 's) suite \<Rightarrow> DKGInfoPacket \<Rightarrow> ('db, 'p, 's) Drand \<Rightarrow> (error option \<times> ('db, 'p, 's) Drand) result" where
  "Drand_PushDKGInfo S pg d =
     (case d_receiver d of
        None \<Rightarrow> Inr (Some (Err ''no receiver setup''), d)
      | Some r \<Rightarrow> map_sum id (map_prod id (\<lambda>rc. d\<lparr>d_receivers := (d_receivers d)[r := rc]\<rparr>)) (PushDKGInfo S pg (d_receivers d ! r)))"

section \<open>The two sides of a setup\<close>

lemma group_wf_sorted [simp]: "group_wf (g\<lparr>g_Nodes := sort_nodes (g_Nodes g)\<rparr>) = group_wf g"
proof -
  have "set (sort_nodes (g_Nodes g)) = set (g_Nodes g)" by (simp add: sort_nodes_def)
  then show ?thesis by (cases "g_PublicKey g") (simp_all add: group_wf_def Group_Len_def list_all_iff)
qed

lemma Group_Find_cong: "set (g_Nodes g) = set (g_Nodes g') \<Longrightarrow> (Group_Find S g i = None) = (Group_Find S g' i = None)"
  by (simp add: Group_Find_def find_None_iff)

text \<open>The group that a leader keeps after sending it, which is also what every receiver decodes.\<close>

definition sent_group :: "('p, 's) suite \<Rightarrow> 'p Group \<Rightarrow> 'p Group" where
  "sent_group S g = with_seed S (g\<lparr>g_Nodes := sort_nodes (g_Nodes g)\<rparr>)"

lemma sent_group_facts [simp]:
  "g_GenesisTime (sent_group S g) = g_GenesisTime g" "set (g_Nodes (sent_group S g)) = set (g_Nodes g)"
  "snd (Group_Hash S (sent_group S g)) = sent_group S g" "fst (Group_Hash S (sent_group S g)) = fst (Group_Hash S g)"
  by (simp_all add: sent_group_def with_seed_def Group_Hash_nodes_cong) (simp add: sort_nodes_def)

lemma dkgInfoPacket_sent:
  assumes "dkgInfoPacket impl S k g secret timeout = Inr (pkt, g')"
  shows "g' = sent_group S g" "dkg_sign S k (fst (Group_Hash S g)) = Inr (di_Signature pkt)"
    "di_SecretProof pkt = secret" "di_DkgTimeout pkt = timeout"
    "di_NewGroup pkt = Some (fst (Group_ToProto impl S (g\<lparr>g_Nodes := sort_nodes (g_Nodes g)\<rparr>)))"
  using assms
  by (auto simp: dkgInfoPacket_def split_beta Let_def Group_ToProto_def snd_GetGenesisSeed with_seed_known sent_group_def
      split: sum.splits if_splits) (auto simp: with_seed_def)

lemma PushDKGInfo_accepts:
  assumes "codec_laws S" "dkg_laws S" "group_wf g" "dkgInfoPacket impl S k g secret timeout = Inr (pkt, g')"
    and "id_Key (sr_leaderID r) = pt_mul_base S k" "sr_secret r = hashSecret secret" "\<not> sr_done r"
  shows "PushDKGInfo S pkt r = Inr (None, r\<lparr>sr_ch := sr_ch r @ [(sent_group S g, timeout)]\<rparr>)"
proof -
  note d = dkgInfoPacket_sent [OF assms(4)]
  have "GroupFromProto S (di_NewGroup pkt) = Inr (sent_group S g)"
    unfolding d(5) sent_group_def using assms(1,3) by (simp add: wire)
  moreover have "dkg_verify S (pt_mul_base S k) (fst (Group_Hash S g)) (di_Signature pkt) = None"
    using assms(2) d(2) unfolding dkg_laws_def by (metis sum.inject(2))
  ultimately show ?thesis
    using assms(5-7) d(3,4) sent_group_facts(3) [of S g] by (simp add: PushDKGInfo_def correctSecret_def split_beta Let_def)
qed

lemma pushDKGInfo_sent:
  assumes "pushDKGInfo impl S outgoing incoming prevThr g secret timeout evs d = Some (None, sent, g')" "(i, pkt) \<in> set sent"
  shows "dkgInfoPacket impl S (pair_Key (d_priv d)) g secret timeout = Inr (pkt, g')"
  using assms by (auto simp: pushDKGInfo_def pushDKGInfoPacket_def Let_def split: sum.splits prod.splits)

text \<open>
  C5. Leader and participants run the same key generation: when a leader that a group was set up
  for goes on to the key generation, every participant that asked this leader for its identity
  and knows the secret accepts the packet it is sent, takes from it exactly the group the leader
  works with, and starts with the same nodes, threshold, nonce and phase length; only the
  private key differs.
\<close>

theorem leader_and_participant_agree:
  assumes "codec_laws S" "dkg_laws S" "group_wf grp"
    and "InitDKG_leader impl S np pkt (Inr grp) evs dl = Some (Inr k, dl', sent)" "(i, p) \<in> set sent"
    and "id_Key (pair_Public (d_priv dl)) = pt_mul_base S (pair_Key (d_priv dl))" "is_ok (SplitHostPort (id_Addr (pair_Public (d_priv dl))))"
    and "setupAutomaticDKG_begin S get_identity ppkt d0 = (Inr (r, sp), dp)" "si_Secret (ip_Info ppkt) = si_Secret (ip_Info pkt)"
    and "get_identity (si_LeaderAddress (ip_Info ppkt), si_LeaderTls (ip_Info ppkt)) = Inr (Some (GetIdentity S dl))"
    and "Group_Find S grp (pair_Public (d_priv dp)) \<noteq> None" "now \<le> g_GenesisTime grp" "np' = (\<lambda>_. None)"
  shows "\<exists>dp1 g t dp2 k' dp3. Drand_PushDKGInfo S p dp = Inr (None, dp1)
       \<and> setup_WaitDKGInfo OnChannel dp1 = Some (Inr (Inr (g, t), dp2))
       \<and> setupAutomaticDKG_group S np' now g t dp2 = (Inr k', dp3)
       \<and> ki_target (d_infos dp3 ! k') = ki_target (d_infos dl' ! k)
       \<and> ki_phaser (d_infos dp3 ! k') = ki_phaser (d_infos dl' ! k)
       \<and> ki_conf (d_infos dp3 ! k') = (ki_conf (d_infos dl' ! k))\<lparr>kc_Longterm := pair_Key (d_priv dp)\<rparr>"
proof -
  let ?secret = "si_Secret (ip_Info pkt)" and ?t = "si_Timeout (ip_Info pkt)" and ?g = "sent_group S grp"
  obtain g' where push: "pushDKGInfo impl S [] (g_Nodes grp) 0 grp ?secret ?t evs dl = Some (None, sent, g')"
    and run: "runDKG_begin np True g' ?t dl = (Inr k, dl')"
    using assms(4) by (auto simp: InitDKG_leader_def split: option.splits prod.splits)
  note pk = pushDKGInfo_sent [OF push assms(5)]
  have g': "g' = ?g" by (rule dkgInfoPacket_sent(1) [OF pk])
  have rc: "newSetupReceiver S get_identity (ip_Info ppkt) = Inr
      \<lparr>sr_ch = [], sr_leader = (si_LeaderAddress (ip_Info ppkt), si_LeaderTls (ip_Info ppkt)), sr_leaderID = pair_Public (d_priv dl),
       sr_secret = hashSecret ?secret, sr_done = False\<rparr>" (is "_ = Inr ?rc")
    using assms(1,7,9,10) by (simp add: newSetupReceiver_def fetchLeaderKey_def GetIdentity_def wire Let_def)
  have dp: "d_receiver dp = Some r" "r < length (d_receivers dp)" "d_receivers dp ! r = ?rc"
    using assms(8) by (auto simp: setupAutomaticDKG_begin_def rc Let_def nth_append split: option.splits)
  let ?dp1 = "dp\<lparr>d_receivers := (d_receivers dp)[r := ?rc\<lparr>sr_ch := [(?g, ?t)]\<rparr>]\<rparr>"
  have 1: "Drand_PushDKGInfo S p dp = Inr (None, ?dp1)"
    using PushDKGInfo_accepts [OF assms(1-3) pk, of ?rc] assms(6) dp by (simp add: Drand_PushDKGInfo_def)
  let ?dp2 = "dp\<lparr>d_receivers := (d_receivers dp)[r := ?rc]\<rparr>"
  have 2: "setup_WaitDKGInfo OnChannel ?dp1 = Some (Inr (Inr (?g, ?t), ?dp2))"
    using dp by (simp add: setup_WaitDKGInfo_def WaitDKGInfo_def)
  obtain node where "Group_Find S ?g (pair_Public (d_priv dp)) = Some node"
    using assms(11) Group_Find_cong [OF sent_group_facts(2) [of S grp], of S "pair_Public (d_priv dp)"] by (metis not_None_eq)
  then have 3: "setupAutomaticDKG_group S np' now ?g ?t ?dp2 = runDKG_begin np' False ?g ?t (?dp2\<lparr>d_index := uint (node_Index node)\<rparr>)"
    using assms(12) by (simp add: setupAutomaticDKG_group_def)
  obtain dp3 where 4: "runDKG_begin np' False ?g ?t (?dp2\<lparr>d_index := uint (node_Index node)\<rparr>) = (Inr (length (d_infos dp)), dp3)"
    "d_infos dp3 = d_infos dp @ [\<lparr>ki_target = ?g, ki_board = newEchoBroadcast (Identity_Address (pair_Public (d_priv dp))) (g_Nodes ?g),
        ki_phaser = getPhaser ?t, ki_conf = \<lparr>kc_NewNodes = Group_DKGNodes ?g, kc_OldNodes = [], kc_Longterm = pair_Key (d_priv dp),
          kc_Threshold = g_Threshold ?g, kc_OldThreshold = 0, kc_FastSync = True, kc_Nonce = getNonce ?g, kc_Share = None,
          kc_PublicCoeffs = []\<rparr>, ki_started = False\<rparr>]"
    using assms(13) by (simp add: runDKG_begin_def Let_def)
  have 5: "ki_target (d_infos dl' ! k) = ?g" "ki_phaser (d_infos dl' ! k) = getPhaser ?t"
    "(ki_conf (d_infos dl' ! k))\<lparr>kc_Longterm := pair_Key (d_priv dp)\<rparr> = ki_conf (d_infos dp3 ! length (d_infos dp))"
    using run 4(2) unfolding g' by (auto simp: runDKG_begin_def Let_def split: option.splits)
  then show ?thesis using 1 2 3 4 by fastforce
qed

text \<open>The two nodes of the example.\<close>

definition member_daemon :: "fileStore \<Rightarrow> fsys \<Rightarrow> ((bytes \<times> bytes) list, bytes, bytes) Drand" where
  "member_daemon s f = (example_daemon s f)\<lparr>d_priv := NewKeyPair plain_suite [2] ''b:1''\<rparr>"

definition init_pkt :: InitDKGPacket where
  "init_pkt = \<lparr>ip_Info = setup_pkt, ip_BeaconPeriod = 30, ip_CatchupPeriod = 15\<rparr>"

lemma signed_group_addrs: "map node_addr (g_Nodes signed_group) = [''a:1'', ''b:1'']"
  by (simp add: signed_group_def Identity_Address_def NewKeyPair_def Pair_SelfSign_shape Let_def)

lemma example_push:
  "\<exists>i p g. pushDKGInfo (\<lambda>_. 0) plain_suite [] (g_Nodes signed_group) 0 signed_group secret t [Pushed ''b:1'' None] (example_daemon s f)
      = Some (None, [(i, p)], g)"
proof -
  have self: "Identity_Address (pair_Public (NewKeyPair plain_suite [1] ''a:1'')) = ''a:1''"
    by (simp add: Identity_Address_def NewKeyPair_def Pair_SelfSign_shape Let_def)
  obtain pkt g where pk: "dkgInfoPacket (\<lambda>_. 0) plain_suite (pair_Key (d_priv (example_daemon s f))) signed_group secret t = Inr (pkt, g)"
      "g_Threshold g = 2"
    using dkgInfoPacket_ok [of plain_suite _ signed_group] plain_dkg_laws signed_group_facts(4) by (fastforce simp: dkg_laws_def)
  obtain n m where n: "g_Nodes signed_group = [n, m]" "node_addr n = ''a:1''" "node_addr m = ''b:1''"
    using signed_group_addrs by (auto simp: map_eq_Cons_conv)
  show ?thesis
    using pk n by (auto simp: pushDKGInfo_def self nodesContainAddr_def nodeUnion_def pushDKGInfoPacket_def push_done_def Let_def)
qed

theorem leader_and_participant_agree_witness:
  "\<forall>s f. \<exists>dl' sent i p r sp dp dp1 g t dp2 k' dp3.
     InitDKG_leader (\<lambda>_. 0) plain_suite (\<lambda>_. None) init_pkt (Inr signed_group) [Pushed ''b:1'' None] (example_daemon s f) = Some (Inr 1, dl', sent)
   \<and> (i, p) \<in> set sent
   \<and> setupAutomaticDKG_begin plain_suite (\<lambda>_. Inr (Some (GetIdentity plain_suite (example_daemon s f)))) init_pkt (member_daemon s f)
       = (Inr (r, sp), dp)
   \<and> Drand_PushDKGInfo plain_suite p dp = Inr (None, dp1) \<and> setup_WaitDKGInfo OnChannel dp1 = Some (Inr (Inr (g, t), dp2))
   \<and> setupAutomaticDKG_group plain_suite (\<lambda>_. None) 1500000000 g t dp2 = (Inr k', dp3)
   \<and> ki_target (d_infos dp3 ! k') = ki_target (d_infos dl' ! 1)"
proof (intro allI)
  fix s f
  let ?dl = "example_daemon s f" and ?gi = "\<lambda>_. Inr (Some (GetIdentity plain_suite (example_daemon s f))) :: ProtoIdentity option result"
  obtain i p g where push: "pushDKGInfo (\<lambda>_. 0) plain_suite [] (g_Nodes signed_group) 0 signed_group (si_Secret setup_pkt) (si_Timeout setup_pkt)
      [Pushed ''b:1'' None] ?dl = Some (None, [(i, p)], g)" using example_push by blast
  obtain dl' where l: "InitDKG_leader (\<lambda>_. 0) plain_suite (\<lambda>_. None) init_pkt (Inr signed_group) [Pushed ''b:1'' None] ?dl
      = Some (Inr 1, dl', [(i, p)])"
    using push by (simp add: InitDKG_leader_def init_pkt_def runDKG_begin_def Let_def example_daemon_def)
  have ok: "is_ok (SplitHostPort ''a:1'')" by code_simp
  have dl: "id_Key (pair_Public (d_priv ?dl)) = pt_mul_base plain_suite (pair_Key (d_priv ?dl))" "id_Addr (pair_Public (d_priv ?dl)) = ''a:1''"
    by (simp_all add: NewKeyPair_def Pair_SelfSign_shape Let_def)
  have "IdentityFromProto plain_suite (Some (GetIdentity plain_suite ?dl)) = Inr (pair_Public (d_priv ?dl))"
    using Identity_proto_roundtrip [OF plain_suite_laws(1), of "pair_Public (d_priv ?dl)"] dl(2) ok by (simp add: GetIdentity_def)
  then obtain r sp dp where b: "setupAutomaticDKG_begin plain_suite ?gi init_pkt (member_daemon s f) = (Inr (r, sp), dp)"
      "d_priv dp = NewKeyPair plain_suite [2] ''b:1''"
    by (simp add: setupAutomaticDKG_begin_def newSetupReceiver_def fetchLeaderKey_def member_daemon_def example_daemon_def Let_def)
  have "Group_Find plain_suite signed_group (pair_Public (d_priv dp)) \<noteq> None"
    unfolding b(2) Group_Find_def find_None_iff Identity_Equal_iff [OF plain_suite_laws(1)] not_not
    by (rule exI [of _ "\<lparr>node_Identity = pair_Public (NewKeyPair plain_suite [2] ''b:1''), node_Index = 1\<rparr>"]) (simp add: signed_group_def)
  then have f: "Group_Find plain_suite signed_group (pair_Public (d_priv dp)) \<noteq> None" "1500000000 \<le> g_GenesisTime signed_group"
    by (simp_all add: signed_group_times)
  show "\<exists>dl' sent i p r sp dp dp1 g t dp2 k' dp3.
     InitDKG_leader (\<lambda>_. 0) plain_suite (\<lambda>_. None) init_pkt (Inr signed_group) [Pushed ''b:1'' None] ?dl = Some (Inr 1, dl', sent)
   \<and> (i, p) \<in> set sent \<and> setupAutomaticDKG_begin plain_suite ?gi init_pkt (member_daemon s f) = (Inr (r, sp), dp)
   \<and> Drand_PushDKGInfo plain_suite p dp = Inr (None, dp1) \<and> setup_WaitDKGInfo OnChannel dp1 = Some (Inr (Inr (g, t), dp2))
   \<and> setupAutomaticDKG_group plain_suite (\<lambda>_. None) 1500000000 g t dp2 = (Inr k', dp3)
   \<and> ki_target (d_infos dp3 ! k') = ki_target (d_infos dl' ! 1)"
    using leader_and_participant_agree [OF plain_suite_laws(1) plain_dkg_laws signed_group_facts(1) l _ dl(1) _ b(1) refl refl f refl]
      l b(1) dl(2) ok by (metis list.set_intros(1))
qed

section \<open>Streams to clients\<close>

text \<open>What is streamed from the store is what \<open>SyncChain\<close> would send.\<close>

lemma streamCursor_rounds:
  "map pr_Round (fst (streamCursor send k fuel cur st)) = map bp_Round (fst (sendCursor send k fuel cur st))
   \<and> snd (streamCursor send k fuel cur st) = snd (sendCursor send k fuel cur st)"
proof (induction send k fuel cur st rule: streamCursor.induct)
  case (1 send k fuel bb p st)
  then show ?case by (cases "send k") (auto simp: split_beta Let_def core_beaconToProto_def beaconToProto_def)
qed auto

lemma PublicRandStream_serves:
  assumes "d_beacon d = Some h" "stack_inv l (h_stack h)" "\<And>k. send k = None" "rnd \<noteq> 0" "rnd \<le> b_Round l"
  shows "map pr_Round (fst (PublicRandStream_send send rnd d)) = sorted_list_of_set {rnd..b_Round l}"
proof -
  have "fst (SyncChain_send send rnd (h_stack h)) = fst (sendCursor send 0 (nat (st_Len sync_ops (h_stack h)) + 1) (st_Seek sync_ops rnd (h_stack h)) (h_stack h))"
    using assms leD [OF assms(5)] by (simp add: SyncChain_send_def stack_inv_Last [OF assms(2)])
  then show ?thesis
    using SyncChain_send_rounds [where send = send, OF assms(2,5,3)] assms(1,4,5)
    by (simp add: PublicRandStream_send_def stack_inv_Last [OF assms(2)] streamCursor_rounds Let_def)
qed

text \<open>Jobs are only queued for registered callbacks.\<close>

lemma Put_jobs:
  assumes "cb \<notin> snd ` set (cb_callbacks c)" "cb \<notin> fst ` set (cb_newJob c)"
  shows "cb \<notin> snd ` set (cb_callbacks (snd (callbackStore_Put ops b c)))" "cb \<notin> fst ` set (cb_newJob (snd (callbackStore_Put ops b c)))"
proof -
  obtain e st where p: "st_Put ops b (cb_Store c) = (e, st)" by fastforce
  show "cb \<notin> snd ` set (cb_callbacks (snd (callbackStore_Put ops b c)))"
    using assms(1) by (cases e) (simp_all add: callbackStore_Put_def p Let_def)
  show "cb \<notin> fst ` set (cb_newJob (snd (callbackStore_Put ops b c)))"
    using assms by (cases e) (auto simp: callbackStore_Put_def p Let_def image_iff)
qed

lemma Puts_jobs:
  assumes "cb \<notin> snd ` set (cb_callbacks c)" "cb \<notin> fst ` set (cb_newJob c)"
  shows "cb \<notin> fst ` set (cb_newJob (fold (\<lambda>b c. snd (callbackStore_Put ops b c)) bs c))"
  using assms by (induction bs arbitrary: c) (simp_all add: Put_jobs)

lemma update_update_callbacks:
  assumes "distinct (map fst xs)" "cb \<notin> snd ` set xs" "cb \<noteq> cb'"
  shows "cb \<notin> snd ` set (AList.update i cb' (AList.update i cb xs))"
  using assms by (induction xs) (auto simp: image_iff)

text \<open>
  C35. One stream per address: when a client opens a second stream and the node sees the same
  address for both, as it does for every client of a reverse proxy that only passes on the
  address without the port, the first stream never gets another beacon, while its call goes on
  waiting; and when a send on the first stream fails after that, the second one is cut off too.
\<close>

theorem second_stream_silences_first:
  assumes "PublicRandStream_register addr s1 d = Inr d1" "PublicRandStream_register addr s2 d1 = Inr d2" "s1 \<noteq> s2"
    and "d_beacon d = Some h" "d_beacon d2 = Some h2" "distinct (map fst (cb_callbacks (h_stack h)))"
    and "StreamCb s1 \<notin> snd ` set (cb_callbacks (h_stack h))" "StreamCb s1 \<notin> fst ` set (cb_newJob (h_stack h))"
  shows "(\<forall>bs b. (StreamCb s1, b) \<notin> set (cb_newJob (fold (\<lambda>b st. snd (callbackStore_Put stack_ops b st)) bs (h_stack h2))))
       \<and> map_of (cb_callbacks (h_stack h2)) addr = Some (StreamCb s2)
       \<and> (\<forall>send b e. send (core_beaconToProto b) = Some e \<longrightarrow>
            (\<exists>d3 h3. PublicRandStream_callback addr send b d2 = Inr (Some e, d3) \<and> d_beacon d3 = Some h3
                   \<and> map_of (cb_callbacks (h_stack h3)) addr = None))"
proof -
  let ?cs = "AList.update addr (StreamCb s2) (AList.update addr (StreamCb s1) (cb_callbacks (h_stack h)))"
  have h2: "cb_callbacks (h_stack h2) = ?cs" "cb_newJob (h_stack h2) = cb_newJob (h_stack h)"
    using assms(1,2,4,5) by (auto simp: PublicRandStream_register_def Handler_AddCallback_def callbackStore_AddCallback_def)
  have "StreamCb s1 \<notin> snd ` set (cb_callbacks (h_stack h2))"
    unfolding h2 using assms(3) by (intro update_update_callbacks assms(6,7)) simp
  then have "StreamCb s1 \<notin> fst ` set (cb_newJob (fold (\<lambda>b st. snd (callbackStore_Put stack_ops b st)) bs (h_stack h2)))" for bs
    using assms(8) by (intro Puts_jobs) (simp_all add: h2)
  then have 1: "(StreamCb s1, b) \<notin> set (cb_newJob (fold (\<lambda>b st. snd (callbackStore_Put stack_ops b st)) bs (h_stack h2)))" for bs b
    by (metis fst_conv image_eqI)
  have 2: "map_of (cb_callbacks (h_stack h2)) addr = Some (StreamCb s2)" unfolding h2 by (simp add: update_conv)
  have "map_of (AList.delete addr xs) addr = None" for xs :: "(string \<times> callback) list" by (simp add: delete_conv)
  then show ?thesis
    using 1 2 assms(5) by (simp add: PublicRandStream_callback_def Handler_RemoveCallback_def callbackStore_RemoveCallback_def)
qed

theorem second_stream_silences_first_witness:
  "\<forall>s f. \<exists>d1 d2 h2. PublicRandStream_register ''1.2.3.4'' ''first'' ((example_daemon s f)\<lparr>d_beacon := Some (example_handler 0 ''a:1'')\<rparr>) = Inr d1
     \<and> PublicRandStream_register ''1.2.3.4'' ''second'' d1 = Inr d2 \<and> d_beacon d2 = Some h2
     \<and> map_of (cb_callbacks (h_stack h2)) ''1.2.3.4'' = Some (StreamCb ''second'')
     \<and> (StreamCb ''first'', first_beacon) \<notin> set (cb_newJob (snd (callbackStore_Put stack_ops first_beacon (h_stack h2))))"
proof (intro allI)
  fix s f
  let ?d = "(example_daemon s f)\<lparr>d_beacon := Some (example_handler 0 ''a:1'')\<rparr>"
  obtain d1 d2 h2 where r: "PublicRandStream_register ''1.2.3.4'' ''first'' ?d = Inr d1" "PublicRandStream_register ''1.2.3.4'' ''second'' d1 = Inr d2"
    "d_beacon d2 = Some h2" by (simp add: PublicRandStream_register_def)
  have c: "cb_callbacks (h_stack (example_handler 0 ''a:1'')) = [(''chainstore'', AggregatorCb)]" "cb_newJob (h_stack (example_handler 0 ''a:1'')) = []"
    by (simp_all add: example_handler_def example_chainStore_def callbackStore_AddCallback_def NewCallbackStore_def)
  note t = second_stream_silences_first [OF r(1,2) _ _ r(3), of "example_handler 0 ''a:1''"]
  have "\<forall>bs b. (StreamCb ''first'', b) \<notin> set (cb_newJob (fold (\<lambda>b st. snd (callbackStore_Put stack_ops b st)) bs (h_stack h2)))"
    "map_of (cb_callbacks (h_stack h2)) ''1.2.3.4'' = Some (StreamCb ''second'')"
    using t by (simp_all add: c)
  from this(2) spec [OF spec [OF this(1), of "[first_beacon]"], of first_beacon]
  show "\<exists>d1 d2 h2. PublicRandStream_register ''1.2.3.4'' ''first'' ?d = Inr d1 \<and> PublicRandStream_register ''1.2.3.4'' ''second'' d1 = Inr d2
      \<and> d_beacon d2 = Some h2 \<and> map_of (cb_callbacks (h_stack h2)) ''1.2.3.4'' = Some (StreamCb ''second'')
      \<and> (StreamCb ''first'', first_beacon) \<notin> set (cb_newJob (snd (callbackStore_Put stack_ops first_beacon (h_stack h2))))"
    using r by auto
qed

end
