(* ===== verification/Client_Verify.thy ===== *)
theory Client_Verify
  imports Chain_Beacon
begin

text \<open>
  \<open>src/client/interface.go\<close>, \<open>random.go\<close>, \<open>empty.go\<close>, \<open>cache.go\<close> and \<open>verify.go\<close>: results of
  a randomness source, the client that caches them and the client that verifies them.

  A call to a wrapped client is a parameter that gives its result; within one call every round
  is asked for at most once. A channel of results is the list of what is read from it.
\<close>

section \<open>Results\<close>

text \<open>The difference of two times in nanoseconds, which \<open>time.Sub\<close> keeps within a duration.\<close>

definition time_Sub :: "int \<Rightarrow> int \<Rightarrow> int" where
  "time_Sub t u = max minInt64 (min maxInt64 (t - u))"

record RandomData =
  rd_Rnd :: uint64
  rd_Random :: bytes
  rd_Sig :: bytes
  rd_PreviousSignature :: "bytes option"

text \<open>A result is a \<open>*RandomData\<close>, or a value of another type with the three methods of \<open>Result\<close>.\<close>

datatype Result = RD RandomData | OtherResult uint64 bytes bytes "bytes option"

fun res_Round :: "Result \<Rightarrow> uint64" where
  "res_Round (RD r) = rd_Rnd r"
| "res_Round (OtherResult rnd _ _ _) = rnd"

fun res_Randomness :: "Result \<Rightarrow> bytes" where
  "res_Randomness (RD r) = rd_Random r"
| "res_Randomness (OtherResult _ random _ _) = random"

fun res_Signature :: "Result \<Rightarrow> bytes" where
  "res_Signature (RD r) = rd_Sig r"
| "res_Signature (OtherResult _ _ sig _) = sig"

fun asRandomData :: "Result \<Rightarrow> RandomData" where
  "asRandomData (RD rd) = rd"
| "asRandomData (OtherResult rnd random sig prev) =
     \<lparr>rd_Rnd = rnd, rd_Random = random, rd_Sig = sig, rd_PreviousSignature = prev\<rparr>"

section \<open>A client without randomness\<close>

definition errEmptyClientUnsupportedGet :: error where
  "errEmptyClientUnsupportedGet = Err ''not supported''"

definition emptyClient_Get :: "'p Info \<Rightarrow> uint64 \<Rightarrow> Result result" where
  "emptyClient_Get i rnd = Inl errEmptyClientUnsupportedGet"

definition emptyClient_RoundAt :: "(float64 \<Rightarrow> uint64) \<Rightarrow> 'p Info \<Rightarrow> int \<Rightarrow> uint64" where
  "emptyClient_RoundAt impl i t = CurrentRound impl t (inf_Period i) (inf_GenesisTime i)"

section \<open>The caching client\<close>

text \<open>The cache library: a lookup may change the order of what it holds.\<close>

record 'c arc =
  arc_Get :: "uint64 \<Rightarrow> 'c \<Rightarrow> Result option \<times> 'c"
  arc_Add :: "uint64 \<Rightarrow> Result \<Rightarrow> 'c \<Rightarrow> 'c"

datatype 'c cache = NilCache | TypedCache 'c

definition makeCache :: "(int \<Rightarrow> 'c result) \<Rightarrow> int \<Rightarrow> 'c cache result" where
  "makeCache newARC n = (if n = 0 then Inr NilCache else map_sum id TypedCache (newARC n))"

fun cache_TryGet :: "'c arc \<Rightarrow> uint64 \<Rightarrow> 'c cache \<Rightarrow> Result option \<times> 'c cache" where
  "cache_TryGet A rnd NilCache = (None, NilCache)"
| "cache_TryGet A rnd (TypedCache c) = (let (val, c) = arc_Get A rnd c in (val, TypedCache c))"

fun cache_Add :: "'c arc \<Rightarrow> uint64 \<Rightarrow> Result \<Rightarrow> 'c cache \<Rightarrow> 'c cache" where
  "cache_Add A rnd result NilCache = NilCache"
| "cache_Add A rnd result (TypedCache c) = TypedCache (arc_Add A rnd result c)"

definition cachingClient_Get ::
  "'c arc \<Rightarrow> (uint64 \<Rightarrow> Result result) \<Rightarrow> uint64 \<Rightarrow> 'c cache \<Rightarrow> Result result \<times> 'c cache" where
  "cachingClient_Get A get rnd c =
     (case cache_TryGet A rnd c of
        (Some val, c) \<Rightarrow> (Inr val, c)
      | (None, c) \<Rightarrow>
          (case get rnd of
             Inl e \<Rightarrow> (Inl e, c)
           | Inr val \<Rightarrow> (Inr val, cache_Add A (res_Round val) val c)))"

fun cachingClient_Watch :: "'c arc \<Rightarrow> Result list \<Rightarrow> 'c cache \<Rightarrow> Result list \<times> 'c cache" where
  "cachingClient_Watch A [] c = ([], c)"
| "cachingClient_Watch A (result # inc) c =
     (let (out, c) = cachingClient_Watch A inc (cache_Add A (res_Round result) result c) in (result # out, c))"

section \<open>The verifying client\<close>

lemma less_imp_not_max: "x < y \<Longrightarrow> x \<noteq> (- 1 :: uint64)"
  using word_n1_ge [of y] by auto

record verifyingClient =
  vc_pointOfTrust :: "Result option"
  vc_strict :: bool

definition newVerifyingClient :: "Result option \<Rightarrow> bool \<Rightarrow> verifyingClient" where
  "newVerifyingClient previousResult strict = \<lparr>vc_pointOfTrust = previousResult, vc_strict = strict\<rparr>"

text \<open>The loop that loads and verifies the rounds up to the one before \<open>rnd\<close>.\<close>

function trust_loop ::
  "('p, 's) suite \<Rightarrow> 'p \<Rightarrow> (uint64 \<Rightarrow> Result result) \<Rightarrow> uint64 \<Rightarrow> uint64 \<Rightarrow> bytes \<Rightarrow> Result option
    \<Rightarrow> (uint64 \<times> bytes \<times> Result option) result" where
  "trust_loop S pk get rnd trustRound trustPrevSig next =
     (if trustRound < rnd - 1 then
        (case get (trustRound + 1) of
           Inl e \<Rightarrow> Inl (Wrap ''could not get round %d: %w'' e)
         | Inr nx \<Rightarrow>
             (case VerifyBeacon S pk \<lparr>b_PreviousSig = trustPrevSig, b_Round = trustRound + 1, b_Signature = res_Signature nx\<rparr> of
                Some e \<Rightarrow> Inl (Wrap ''verifying beacon: %w'' e)
              | None \<Rightarrow> trust_loop S pk get rnd (trustRound + 1) (res_Signature nx) (Some nx)))
      else Inr (trustRound, trustPrevSig, next))"
  by pat_completeness auto
termination
  by (relation "measure (\<lambda>(S, pk, get, rnd, tr, sig, next). unat (rnd - 1) - unat tr)")
    (auto simp: word_less_nat_alt unat_succ [OF less_imp_not_max])

declare trust_loop.simps [simp del]

definition getTrustedPreviousSignature ::
  "('p, 's) suite \<Rightarrow> 'p Info result \<Rightarrow> (uint64 \<Rightarrow> Result result) \<Rightarrow> uint64 \<Rightarrow> verifyingClient \<Rightarrow> bytes result \<times> verifyingClient" where
  "getTrustedPreviousSignature S info get rnd v =
     (case info of
        Inl e \<Rightarrow> (Inl (Wrap ''could not get info: %w'' e), v)
      | Inr i \<Rightarrow>
          if rnd = 1 then (Inr (inf_GroupHash i), v)
          else
            let (initialTrustRound, trustPrevSig) =
                  (case vc_pointOfTrust v of
                     None \<Rightarrow> (1, inf_GroupHash i)
                   | Some p \<Rightarrow> if rnd < res_Round p then (1, inf_GroupHash i) else (res_Round p, res_Signature p))
            in case trust_loop S (inf_PublicKey i) get rnd initialTrustRound trustPrevSig None of
                 Inl e \<Rightarrow> (Inl e, v)
               | Inr (trustRound, trustPrevSig, next) \<Rightarrow>
                   let v = (if trustRound = rnd - 1 \<and> initialTrustRound < trustRound then v\<lparr>vc_pointOfTrust := next\<rparr> else v)
                   in if trustRound \<noteq> rnd - 1 then (Inl (Errf ''unexpected trust round %d'' [uint trustRound]), v)
                      else (Inr trustPrevSig, v))"

text \<open>The data that \<open>verify\<close> leaves behind has its randomness replaced.\<close>

definition verify ::
  "('p, 's) suite \<Rightarrow> 'p Info result \<Rightarrow> (uint64 \<Rightarrow> Result result) \<Rightarrow> 'p Info \<Rightarrow> RandomData \<Rightarrow> verifyingClient
    \<Rightarrow> RandomData result \<times> verifyingClient" where
  "verify S indirect_info indirect_get info r v =
     (let (ps, v) = (if vc_strict v \<or> rd_PreviousSignature r = None
                     then getTrustedPreviousSignature S indirect_info indirect_get (rd_Rnd r) v
                     else (Inr (the (rd_PreviousSignature r)), v))
      in case ps of
           Inl e \<Rightarrow> (Inl e, v)
         | Inr ps \<Rightarrow>
             (case VerifyBeacon S (inf_PublicKey info) \<lparr>b_PreviousSig = ps, b_Round = rd_Rnd r, b_Signature = rd_Sig r\<rparr> of
                Some e \<Rightarrow> (Inl (Wrap ''verification of %v failed: %w'' e), v)
              | None \<Rightarrow> (Inr (r\<lparr>rd_Random := RandomnessFromSignature (rd_Sig r)\<rparr>), v)))"

definition verifyingClient_Get ::
  "('p, 's) suite \<Rightarrow> 'p Info result \<Rightarrow> (uint64 \<Rightarrow> Result result) \<Rightarrow> (uint64 \<Rightarrow> Result result) \<Rightarrow> uint64 \<Rightarrow> verifyingClient
    \<Rightarrow> RandomData result \<times> verifyingClient" where
  "verifyingClient_Get S indirect_info indirect_get client_get rnd v =
     (case indirect_info of
        Inl e \<Rightarrow> (Inl e, v)
      | Inr info \<Rightarrow>
          (case client_get rnd of
             Inl e \<Rightarrow> (Inl e, v)
           | Inr r \<Rightarrow> verify S indirect_info indirect_get info (asRandomData r) v))"

text \<open>
  \<open>Watch\<close> sends on the result itself: a \<open>*RandomData\<close> has been changed by \<open>verify\<close>, a result of
  another type only its copy.
\<close>

fun watch_out :: "Result \<Rightarrow> RandomData \<Rightarrow> Result" where
  "watch_out (RD _) verified = RD verified"
| "watch_out r _ = r"

fun watch_loop ::
  "('p, 's) suite \<Rightarrow> 'p Info result \<Rightarrow> (uint64 \<Rightarrow> Result result) \<Rightarrow> 'p Info \<Rightarrow> Result list \<Rightarrow> verifyingClient \<Rightarrow> Result list \<times> verifyingClient" where
  "watch_loop S indirect_info indirect_get info [] v = ([], v)"
| "watch_loop S indirect_info indirect_get info (r # inCh) v =
     (case verify S indirect_info indirect_get info (asRandomData r) v of
        (Inl _, v) \<Rightarrow> watch_loop S indirect_info indirect_get info inCh v
      | (Inr rd, v) \<Rightarrow>
          let (out, v) = watch_loop S indirect_info indirect_get info inCh v in (watch_out r rd # out, v))"

definition verifyingClient_Watch ::
  "('p, 's) suite \<Rightarrow> 'p Info result \<Rightarrow> (uint64 \<Rightarrow> Result result) \<Rightarrow> Result list \<Rightarrow> verifyingClient \<Rightarrow> Result list \<times> verifyingClient" where
  "verifyingClient_Watch S indirect_info indirect_get inCh v =
     (case indirect_info of Inl _ \<Rightarrow> ([], v) | Inr info \<Rightarrow> watch_loop S indirect_info indirect_get info inCh v)"

section \<open>What verification shows\<close>

text \<open>
  The signature \<open>s\<close> of round \<open>r\<close> is reached from the signature \<open>s0\<close> of round \<open>r0\<close>: every round in
  between has a signature of the group upon the one before.
\<close>

inductive linked :: "('p, 's) suite \<Rightarrow> 'p \<Rightarrow> uint64 \<Rightarrow> bytes \<Rightarrow> uint64 \<Rightarrow> bytes \<Rightarrow> bool" for S pk r0 s0 where
  start: "linked S pk r0 s0 r0 s0"
| step: "linked S pk r0 s0 r s \<Longrightarrow> VerifyBeacon S pk \<lparr>b_PreviousSig = s, b_Round = r + 1, b_Signature = s'\<rparr> = None
         \<Longrightarrow> linked S pk r0 s0 (r + 1) s'"

definition rooted :: "('p, 's) suite \<Rightarrow> 'p \<Rightarrow> (uint64 \<times> bytes) set \<Rightarrow> uint64 \<Rightarrow> bytes \<Rightarrow> bool" where
  "rooted S pk roots r s \<longleftrightarrow> (\<exists>(r0, s0) \<in> roots. linked S pk r0 s0 r s)"

lemma rooted_start [intro]: "(r, s) \<in> roots \<Longrightarrow> rooted S pk roots r s"
  unfolding rooted_def by (auto intro: linked.start)

lemma rooted_step:
  assumes "rooted S pk roots r s" "VerifyBeacon S pk \<lparr>b_PreviousSig = s, b_Round = r + 1, b_Signature = s'\<rparr> = None"
  shows "rooted S pk roots (r + 1) s'"
  using assms unfolding rooted_def by (auto intro: linked.step)

lemma trust_loop_rooted:
  assumes "trust_loop S pk get rnd tr sig nx = Inr (tr', sig', nx')" "rooted S pk roots tr sig"
  shows "rooted S pk roots tr' sig' \<and> \<not> tr' < rnd - 1 \<and> tr \<le> tr'
       \<and> (tr < tr' \<longrightarrow> (\<exists>x. nx' = Some x \<and> res_Signature x = sig' \<and> get tr' = Inr x))"
  using assms
proof (induction S pk get rnd tr sig nx rule: trust_loop.induct)
  case (1 S pk get rnd tr sig nx)
  show ?case
  proof (cases "tr < rnd - 1")
    case False
    then show ?thesis using "1.prems" by (simp add: trust_loop.simps [of S pk get rnd tr])
  next
    case True
    obtain x where x: "get (tr + 1) = Inr x"
      "VerifyBeacon S pk \<lparr>b_PreviousSig = sig, b_Round = tr + 1, b_Signature = res_Signature x\<rparr> = None"
      "trust_loop S pk get rnd (tr + 1) (res_Signature x) (Some x) = Inr (tr', sig', nx')"
      using "1.prems"(1) True by (auto simp: trust_loop.simps [of S pk get rnd tr] split: sum.splits option.splits)
    note ih = "1.IH" [OF True x(1,2,3) rooted_step [OF "1.prems"(2) x(2)]]
    have lt: "tr < tr + 1" using less_imp_not_max [OF True] by (rule word_succ_less)
    show ?thesis
    proof (cases "tr' = tr + 1")
      case True
      then have "trust_loop S pk get rnd (tr + 1) (res_Signature x) (Some x) = Inr (tr + 1, res_Signature x, Some x)"
        using x(3) ih by (simp add: trust_loop.simps [of S pk get rnd "tr + 1"])
      then show ?thesis using ih x(1,3) True lt by auto
    next
      case False
      then show ?thesis using ih lt by auto
    qed
  qed
qed

text \<open>The roots of trust of a client: its checkpoint, the group hash as round zero, and as round one.\<close>

definition roots_of :: "'p Info \<Rightarrow> verifyingClient \<Rightarrow> (uint64 \<times> bytes) set" where
  "roots_of i v = {(0, inf_GroupHash i), (1, inf_GroupHash i)} \<union>
     (case vc_pointOfTrust v of None \<Rightarrow> {} | Some p \<Rightarrow> {(res_Round p, res_Signature p)})"

definition pot_rooted :: "('p, 's) suite \<Rightarrow> 'p Info \<Rightarrow> (uint64 \<times> bytes) set \<Rightarrow> verifyingClient \<Rightarrow> bool" where
  "pot_rooted S i roots v \<longleftrightarrow>
     (\<forall>p. vc_pointOfTrust v = Some p \<longrightarrow> rooted S (inf_PublicKey i) roots (res_Round p) (res_Signature p))"

definition honest_rounds :: "(uint64 \<Rightarrow> Result result) \<Rightarrow> bool" where
  "honest_rounds get \<longleftrightarrow> (\<forall>k x. get k = Inr x \<longrightarrow> res_Round x = k)"

lemma getTrusted_rooted:
  assumes "getTrustedPreviousSignature S (Inr i) get rnd v = (ps, v')" "pot_rooted S i roots v" "honest_rounds get"
    and "(0, inf_GroupHash i) \<in> roots" "(1, inf_GroupHash i) \<in> roots"
  shows "pot_rooted S i roots v' \<and> vc_strict v' = vc_strict v
       \<and> (\<forall>sig. ps = Inr sig \<longrightarrow> rooted S (inf_PublicKey i) roots (rnd - 1) sig)"
proof (cases "rnd = 1")
  case True
  then show ?thesis using assms by (auto simp: getTrustedPreviousSignature_def)
next
  case False
  obtain tr sig where t: "(case vc_pointOfTrust v of None \<Rightarrow> (1, inf_GroupHash i)
       | Some p \<Rightarrow> if rnd < res_Round p then (1, inf_GroupHash i) else (res_Round p, res_Signature p)) = (tr, sig)" by fastforce
  have r: "rooted S (inf_PublicKey i) roots tr sig"
    using t assms(2,5) by (auto simp: pot_rooted_def split: option.splits if_splits)
  show ?thesis
  proof (cases "trust_loop S (inf_PublicKey i) get rnd tr sig None")
    case (Inl e)
    then show ?thesis using assms(1,2) False by (auto simp: getTrustedPreviousSignature_def t)
  next
    case (Inr res)
    obtain tr' sig' nx where l: "trust_loop S (inf_PublicKey i) get rnd tr sig None = Inr (tr', sig', nx)" using Inr by (cases res) auto
    note f = trust_loop_rooted [OF l r]
    let ?v = "if tr' = rnd - 1 \<and> tr < tr' then v\<lparr>vc_pointOfTrust := nx\<rparr> else v"
    have v': "v' = ?v" "ps = (if tr' \<noteq> rnd - 1 then Inl (Errf ''unexpected trust round %d'' [uint tr']) else Inr sig')"
      using assms(1) False l by (auto simp: getTrustedPreviousSignature_def t Let_def split: if_splits)
    have "pot_rooted S i roots ?v" using assms(2,3) f by (auto simp: pot_rooted_def honest_rounds_def)
    then show ?thesis using f v' by auto
  qed
qed

lemma verify_rooted:
  assumes "verify S (Inr i) get i r v = (res, v')" "pot_rooted S i roots v" "honest_rounds get" "vc_strict v"
    and "(0, inf_GroupHash i) \<in> roots" "(1, inf_GroupHash i) \<in> roots"
  shows "pot_rooted S i roots v' \<and> vc_strict v'
       \<and> (\<forall>rd. res = Inr rd \<longrightarrow> rooted S (inf_PublicKey i) roots (rd_Rnd rd) (rd_Sig rd) \<and> rd_Random rd = RandomnessFromSignature (rd_Sig rd))"
proof -
  obtain ps v1 where g: "getTrustedPreviousSignature S (Inr i) get (rd_Rnd r) v = (ps, v1)" by fastforce
  note f = getTrusted_rooted [OF g assms(2,3,5,6)]
  show ?thesis
    using assms(1,4) f rooted_step [of S "inf_PublicKey i" roots "rd_Rnd r - 1"]
    by (auto simp: verify_def g split: sum.splits option.splits)
qed

text \<open>A sequence of calls, each with the answers of its sources.\<close>

fun run_gets ::
  "('p, 's) suite \<Rightarrow> 'p Info \<Rightarrow> ((uint64 \<Rightarrow> Result result) \<times> (uint64 \<Rightarrow> Result result) \<times> uint64) list \<Rightarrow> verifyingClient
    \<Rightarrow> RandomData result list" where
  "run_gets S i [] v = []"
| "run_gets S i ((indirect, client, rnd) # calls) v =
     (let (r, v) = verifyingClient_Get S (Inr i) indirect client rnd v in r # run_gets S i calls v)"

lemma run_gets_rooted:
  assumes "pot_rooted S i roots v" "vc_strict v" "\<forall>(indirect, client, rnd) \<in> set calls. honest_rounds indirect"
    and "(0, inf_GroupHash i) \<in> roots" "(1, inf_GroupHash i) \<in> roots" "Inr rd \<in> set (run_gets S i calls v)"
  shows "rooted S (inf_PublicKey i) roots (rd_Rnd rd) (rd_Sig rd) \<and> rd_Random rd = RandomnessFromSignature (rd_Sig rd)"
  using assms
proof (induction calls arbitrary: v)
  case (Cons c calls)
  obtain indirect client rnd where c: "c = (indirect, client, rnd)" by (cases c) auto
  obtain r v1 where g: "verifyingClient_Get S (Inr i) indirect client rnd v = (r, v1)" by fastforce
  have h: "honest_rounds indirect" using Cons.prems(3) c by auto
  have "pot_rooted S i roots v1 \<and> vc_strict v1 \<and> (\<forall>rd. r = Inr rd \<longrightarrow>
      rooted S (inf_PublicKey i) roots (rd_Rnd rd) (rd_Sig rd) \<and> rd_Random rd = RandomnessFromSignature (rd_Sig rd))"
  proof (cases "client rnd")
    case (Inl e)
    then show ?thesis using g Cons.prems(1,2) by (auto simp: verifyingClient_Get_def)
  next
    case (Inr x)
    then show ?thesis using g verify_rooted [OF _ Cons.prems(1) h Cons.prems(2,4,5)] by (simp add: verifyingClient_Get_def)
  qed
  then show ?case using Cons.IH [of v1] Cons.prems c g by auto
qed simp


definition example_info :: "bytes Info" where
  "example_info = \<lparr>inf_PublicKey = [7], inf_Period = 30 * Second, inf_GenesisTime = 1600000000, inf_GroupHash = [1]\<rparr>"

definition data_upon :: "uint64 \<Rightarrow> bytes \<Rightarrow> RandomData" where
  "data_upon rnd prev = \<lparr>rd_Rnd = rnd, rd_Random = [], rd_Sig = [7] @ Message rnd prev, rd_PreviousSignature = Some prev\<rparr>"

lemma data_upon_valid:
  "VerifyBeacon plain_suite (inf_PublicKey example_info) \<lparr>b_PreviousSig = prev, b_Round = rnd, b_Signature = rd_Sig (data_upon rnd prev)\<rparr> = None"
  by (simp add: VerifyBeacon_def example_info_def data_upon_def plain_suite_def Let_def)

definition checkpoint :: RandomData where
  "checkpoint = \<lparr>rd_Rnd = 4, rd_Random = [], rd_Sig = [9], rd_PreviousSignature = None\<rparr>"


text \<open>
  C36. Full verification without a checkpoint only ever accepts round one: the client takes the
  group hash, which is what round one is signed upon, for the signature of round one itself.
  Unless the signature of round two is also one upon the group hash, every call that gets a
  result of any round but one fails, however valid the chain is.
\<close>

theorem full_verification_needs_a_checkpoint:
  assumes "vc_strict v" "vc_pointOfTrust v = None" "client rnd = Inr r" "res_Round r \<noteq> 1"
    and "\<forall>x. indirect 2 = Inr x \<or> r = x \<and> res_Round x = 2 \<longrightarrow>
        VerifyBeacon S (inf_PublicKey i) \<lparr>b_PreviousSig = inf_GroupHash i, b_Round = 2, b_Signature = res_Signature x\<rparr> \<noteq> None"
  shows "\<exists>e. verifyingClient_Get S (Inr i) indirect client rnd v = (Inl e, v)"
proof -
  let ?gh = "inf_GroupHash i" and ?pk = "inf_PublicKey i"
  have a: "rd_Rnd (asRandomData r) = res_Round r" "rd_Sig (asRandomData r) = res_Signature r" by (cases r; simp)+
  have one: "(1 :: uint64) + 1 = 2" by simp
  show ?thesis
  proof (cases "res_Round r = 2")
    case True
    obtain e where "VerifyBeacon S ?pk \<lparr>b_PreviousSig = ?gh, b_Round = 2, b_Signature = res_Signature r\<rparr> = Some e"
      using assms(5) True by blast
    moreover have "trust_loop S ?pk indirect 2 1 ?gh None = Inr (1, ?gh, None)" by (simp add: trust_loop.simps)
    ultimately show ?thesis
      using assms(1-3) a True by (simp add: verifyingClient_Get_def verify_def getTrustedPreviousSignature_def)
  next
    case False
    have "res_Round r - 1 \<noteq> 0" "res_Round r - 1 \<noteq> 1" using assms(4) False by (auto simp: diff_eq_eq)
    then have lt: "1 < res_Round r - 1" by (metis word_gt_0 inc_le order_le_imp_less_or_eq add_0)
    have "\<exists>e. trust_loop S ?pk indirect (res_Round r) 1 ?gh None = Inl e"
      using lt assms(5) one by (auto simp: trust_loop.simps [of S ?pk indirect "res_Round r" 1] split: sum.splits option.splits)
    then show ?thesis
      using assms(1-4) a by (auto simp: verifyingClient_Get_def verify_def getTrustedPreviousSignature_def)
  qed
qed

theorem full_verification_needs_a_checkpoint_witness:
  "\<exists>e. verifyingClient_Get plain_suite (Inr example_info) (\<lambda>k. Inr (RD (checkpoint\<lparr>rd_Rnd := k\<rparr>))) (\<lambda>k. Inr (RD (checkpoint\<lparr>rd_Rnd := k\<rparr>)))
        3 (newVerifyingClient None True) = (Inl e, newVerifyingClient None True)"
  by (rule full_verification_needs_a_checkpoint [where r = "RD (checkpoint\<lparr>rd_Rnd := 3\<rparr>)"])
    (auto simp: newVerifyingClient_def checkpoint_def VerifyBeacon_def example_info_def plain_suite_def Let_def)

text \<open>
  The requested round is not checked: a source may answer a request for any round with a
  valid beacon of any other round, and the client returns that.
\<close>

lemma requested_round_is_ignored:
  assumes "\<not> vc_strict v" "rd_PreviousSignature r = Some prev" "client = (\<lambda>_. Inr (RD r))"
    and "VerifyBeacon S (inf_PublicKey i) \<lparr>b_PreviousSig = prev, b_Round = rd_Rnd r, b_Signature = rd_Sig r\<rparr> = None"
  shows "\<forall>rnd. verifyingClient_Get S (Inr i) indirect client rnd v = (Inr (r\<lparr>rd_Random := RandomnessFromSignature (rd_Sig r)\<rparr>), v)"
  using assms by (simp add: verifyingClient_Get_def verify_def)

lemma requested_round_is_ignored_example:
  "rd_Rnd (projr (fst (verifyingClient_Get plain_suite (Inr example_info) (\<lambda>_. Inl (Err ''no'')) (\<lambda>_. Inr (RD (data_upon 5 [9]))) 8
      (newVerifyingClient None False)))) = 5"
proof -
  have "rd_PreviousSignature (data_upon 5 [9]) = Some [9]" "rd_Rnd (data_upon 5 [9]) = 5" by (simp_all add: data_upon_def)
  then show ?thesis
    using requested_round_is_ignored [of "newVerifyingClient None False" "data_upon 5 [9]" "[9]" "\<lambda>_. Inr (RD (data_upon 5 [9]))" plain_suite
        example_info "\<lambda>_. Inl (Err ''no'')"] data_upon_valid [of "[9]" 5] by (simp add: newVerifyingClient_def)
qed

text \<open>A watcher passes on a result of another type with whatever randomness it came with.\<close>

lemma watch_keeps_other_randomness:
  assumes "\<not> vc_strict v" "VerifyBeacon S (inf_PublicKey i) \<lparr>b_PreviousSig = prev, b_Round = rnd, b_Signature = sig\<rparr> = None"
  shows "fst (verifyingClient_Watch S (Inr i) indirect [OtherResult rnd random sig (Some prev)] v) = [OtherResult rnd random sig (Some prev)]"
  using assms by (simp add: verifyingClient_Watch_def verify_def)

section \<open>What a cache returns\<close>

text \<open>Documented behaviour of the cache library: a lookup gives nothing or what was added last under its key.\<close>

definition arc_laws :: "'c arc \<Rightarrow> ('c \<Rightarrow> uint64 \<Rightarrow> Result set) \<Rightarrow> bool" where
  "arc_laws A held \<longleftrightarrow>
     (\<forall>k c. (\<forall>r. fst (arc_Get A k c) = Some r \<longrightarrow> r \<in> held c k) \<and> (\<forall>j. held (snd (arc_Get A k c)) j \<subseteq> held c j))
   \<and> (\<forall>k v c j. held (arc_Add A k v c) j \<subseteq> (if j = k then {v} else held c j))"

fun cache_held :: "('c \<Rightarrow> uint64 \<Rightarrow> Result set) \<Rightarrow> 'c cache \<Rightarrow> uint64 \<Rightarrow> Result set" where
  "cache_held held NilCache k = {}"
| "cache_held held (TypedCache c) k = held c k"

text \<open>Whatever a cache holds under a round is a result of that round which the client fetched.\<close>

definition cache_ok :: "('c \<Rightarrow> uint64 \<Rightarrow> Result set) \<Rightarrow> (Result \<Rightarrow> bool) \<Rightarrow> 'c cache \<Rightarrow> bool" where
  "cache_ok held P c \<longleftrightarrow> (\<forall>k. \<forall>r \<in> cache_held held c k. res_Round r = k \<and> P r)"

lemma cache_TryGet_ok:
  assumes "arc_laws A held" "cache_ok held P c" "cache_TryGet A k c = (res, c')"
  shows "cache_ok held P c' \<and> (\<forall>r. res = Some r \<longrightarrow> res_Round r = k \<and> P r)"
  using assms
proof (cases c)
  case (TypedCache x)
  have l: "\<forall>r. fst (arc_Get A k x) = Some r \<longrightarrow> r \<in> held x k" "\<forall>j. held (snd (arc_Get A k x)) j \<subseteq> held x j"
    using assms(1) by (auto simp: arc_laws_def)
  have c': "c' = TypedCache (snd (arc_Get A k x))" "res = fst (arc_Get A k x)" using assms(3) by (simp_all add: TypedCache split_beta)
  have ok: "\<forall>k. \<forall>r \<in> held x k. res_Round r = k \<and> P r" using assms(2) by (simp add: TypedCache cache_ok_def)
  show ?thesis unfolding c' cache_ok_def cache_held.simps using ok l by blast
qed (auto simp: cache_ok_def)

lemma cache_Add_ok:
  assumes "arc_laws A held" "cache_ok held P c" "P r"
  shows "cache_ok held P (cache_Add A (res_Round r) r c)"
proof (cases c)
  case (TypedCache x)
  have l: "held (arc_Add A (res_Round r) r x) j \<subseteq> (if j = res_Round r then {r} else held x j)" for j
    using assms(1) by (simp add: arc_laws_def)
  show ?thesis
    unfolding cache_ok_def TypedCache using assms(2,3) TypedCache l by (fastforce simp: cache_ok_def split: if_splits)
qed (auto simp: cache_ok_def)

lemma cachingClient_Get_ok:
  assumes "arc_laws A held" "cache_ok held P c" "\<forall>r. get rnd = Inr r \<longrightarrow> P r" "cachingClient_Get A get rnd c = (res, c')"
  shows "cache_ok held P c' \<and> (\<forall>r. res = Inr r \<longrightarrow> P r \<and> (res_Round r = rnd \<or> get rnd = Inr r))"
proof -
  obtain o1 c1 where g: "cache_TryGet A rnd c = (o1, c1)" by fastforce
  note t = cache_TryGet_ok [OF assms(1,2) g]
  show ?thesis
    using assms(3,4) t cache_Add_ok [OF assms(1), of P c1] by (auto simp: cachingClient_Get_def g split: option.splits sum.splits)
qed

end
