(* ===== verification/Client_Optimizing.thy ===== *)
theory Client_Optimizing
  imports Client_Verify Chain_Time "HOL-Library.Multiset"
begin

text \<open>
  \<open>src/client/optimizing.go\<close>: the client that asks the fastest of several sources first and
  falls back to the others, and that watches some of them.

  Sources are compared by identity. What a source answers, when, and in which order answers
  arrive are parameters. Times are nanoseconds.
\<close>

section \<open>Requests\<close>

definition maxUnixTime :: int where "maxUnixTime = 2 ^ 63 - 62135596801"

record 'c requestStat =
  rs_client :: 'c
  rs_rtt :: int
  rs_startTime :: int

record 'c requestResult =
  rr_client :: 'c
  rr_result :: "Result option"
  rr_err :: "error option"
  rr_stat :: "'c requestStat"

record 'c optimizingClient =
  oc_clients :: "'c list"
  oc_passiveClients :: "'c list"
  oc_stats :: "'c requestStat list"
  oc_requestTimeout :: int
  oc_requestConcurrency :: int
  oc_speedTestInterval :: int
  oc_watchRetryInterval :: int

definition newOptimizingClient :: "int \<Rightarrow> 'c list \<Rightarrow> int \<Rightarrow> int \<Rightarrow> int \<Rightarrow> int \<Rightarrow> 'c optimizingClient result" where
  "newOptimizingClient now clients requestTimeout requestConcurrency speedTestInterval watchRetryInterval =
     (if clients = [] then Inl (Err ''missing clients'')
      else Inr \<lparr>oc_clients = clients, oc_passiveClients = [],
             oc_stats = map (\<lambda>c. \<lparr>rs_client = c, rs_rtt = 0, rs_startTime = now\<rparr>) clients,
             oc_requestTimeout = (if requestTimeout \<le> 0 then 5 * Second else requestTimeout),
             oc_requestConcurrency = (if requestConcurrency \<le> 0 then 1 else requestConcurrency),
             oc_speedTestInterval = (if speedTestInterval = 0 then 300 * Second else speedTestInterval),
             oc_watchRetryInterval = (if watchRetryInterval = 0 then 30 * Second else watchRetryInterval)\<rparr>)"

definition MarkPassive :: "'c \<Rightarrow> 'c optimizingClient \<Rightarrow> 'c optimizingClient" where
  "MarkPassive c oc =
     oc\<lparr>oc_passiveClients := oc_passiveClients oc @ [c],
        oc_stats := map (\<lambda>s. if rs_client s = c then s\<lparr>rs_rtt := maxInt64, rs_startTime := maxUnixTime * Second + 999999999\<rparr> else s)
          (oc_stats oc)\<rparr>"

definition markedPassive :: "'c \<Rightarrow> 'c optimizingClient \<Rightarrow> bool" where
  "markedPassive c oc = list_ex (\<lambda>p. p = c) (oc_passiveClients oc)"

definition fastestClients :: "'c optimizingClient \<Rightarrow> 'c list" where
  "fastestClients oc = map rs_client (oc_stats oc)"

text \<open>\<open>get\<close>: what the source returned, with the error of the context at that time.\<close>

definition oc_get :: "'c \<Rightarrow> Result result \<Rightarrow> error option \<Rightarrow> int \<Rightarrow> int \<Rightarrow> 'c requestResult option" where
  "oc_get client answer ctx_err start rtt =
     (case answer of
        Inl err \<Rightarrow>
          if Some err \<noteq> ctx_err
          then Some \<lparr>rr_client = client, rr_result = None, rr_err = Some err,
                     rr_stat = \<lparr>rs_client = client, rs_rtt = maxInt64, rs_startTime = start\<rparr>\<rparr>
          else None
      | Inr res \<Rightarrow>
          if ctx_err \<noteq> None then None
          else Some \<lparr>rr_client = client, rr_result = Some res, rr_err = None,
                     rr_stat = \<lparr>rs_client = client, rs_rtt = rtt, rs_startTime = start\<rparr>\<rparr>)"

text \<open>
  \<open>parallelGet\<close>: sources are asked in order, at most \<open>k\<close> at a time; \<open>sched\<close> says which of the
  running requests ends next. The result is what is sent on the channel.
\<close>

function parallel_run :: "nat \<Rightarrow> ('c \<Rightarrow> 'c requestResult option) \<Rightarrow> nat list \<Rightarrow> 'c list \<Rightarrow> 'c list \<Rightarrow> 'c requestResult list" where
  "parallel_run k ask sched running waiting =
     (let free = k - length running;
          running = running @ take free waiting;
          waiting = drop free waiting
      in if running = [] then []
         else
           let i = (case sched of [] \<Rightarrow> 0 | s # _ \<Rightarrow> s mod length running);
               rest = parallel_run k ask (tl sched) (take i running @ drop (Suc i) running) waiting
           in case ask (running ! i) of None \<Rightarrow> rest | Some rr \<Rightarrow> rr # rest)"
  by pat_completeness auto
termination
proof (relation "measure (\<lambda>(k, ask, sched, running, waiting). length running + length waiting)", goal_cases)
  case (2 k ask sched running waiting free running' waiting' i)
  have "i < length running'" using 2 by (simp split: list.splits)
  moreover have "length running' + length waiting' = length running + length waiting" using 2 by simp
  ultimately show ?case by (simp only: in_measure prod.case length_append length_take length_drop)
qed simp

declare parallel_run.simps [simp del]

definition parallelGet :: "nat list \<Rightarrow> ('c \<Rightarrow> 'c requestResult option) \<Rightarrow> 'c list \<Rightarrow> int \<Rightarrow> 'c requestResult list" where
  "parallelGet sched ask clients concurrency = parallel_run (nat concurrency) ask sched [] clients"

text \<open>The race ends with the first result without an error.\<close>

fun race :: "'c requestResult list \<Rightarrow> 'c requestResult list" where
  "race [] = []"
| "race (rr # rrs) = (if rr_err rr = None then [rr] else rr # race rrs)"

definition raceGet :: "nat list \<Rightarrow> ('c \<Rightarrow> 'c requestResult option) \<Rightarrow> 'c list \<Rightarrow> int \<Rightarrow> 'c requestResult list" where
  "raceGet sched ask clients concurrency = race (parallelGet sched ask clients concurrency)"

section \<open>Statistics\<close>

text \<open>The first entry of the source of a sample takes it, when the sample is newer.\<close>

fun update_stat :: "'c requestStat \<Rightarrow> 'c requestStat list \<Rightarrow> 'c requestStat list" where
  "update_stat nxt [] = []"
| "update_stat nxt (cur # rest) =
     (if rs_client cur = rs_client nxt
      then (if rs_startTime cur < rs_startTime nxt then cur\<lparr>rs_rtt := rs_rtt nxt, rs_startTime := rs_startTime nxt\<rparr> else cur) # rest
      else cur # update_stat nxt rest)"

text \<open>\<open>srt\<close> is \<open>sort.Slice\<close>, which may order equal entries in any way.\<close>

definition sort_ok :: "('c requestStat list \<Rightarrow> 'c requestStat list) \<Rightarrow> bool" where
  "sort_ok srt \<longleftrightarrow> (\<forall>xs. mset (srt xs) = mset xs \<and> sorted (map rs_rtt (srt xs)))"

definition updateStats :: "('c requestStat list \<Rightarrow> 'c requestStat list) \<Rightarrow> 'c requestStat list \<Rightarrow> 'c optimizingClient \<Rightarrow> 'c optimizingClient" where
  "updateStats srt stats oc = oc\<lparr>oc_stats := srt (fold update_stat stats (oc_stats oc))\<rparr>"

text \<open>One round of the speed test.\<close>

definition testSpeed_clients :: "'c optimizingClient \<Rightarrow> 'c list" where
  "testSpeed_clients oc = filter (\<lambda>c. \<not> markedPassive c oc) (oc_clients oc)"

definition testSpeed ::
  "('c requestStat list \<Rightarrow> 'c requestStat list) \<Rightarrow> nat list \<Rightarrow> ('c \<Rightarrow> 'c requestResult option) \<Rightarrow> 'c optimizingClient \<Rightarrow> 'c optimizingClient" where
  "testSpeed srt sched ask oc =
     updateStats srt (map rr_stat (parallelGet sched ask (testSpeed_clients oc) (oc_requestConcurrency oc))) oc"

section \<open>Getting a round\<close>

text \<open>
  The loop of \<open>Get\<close>. \<open>stop\<close> is the number of results after which it notices that its context or
  the client has ended, with the error that is then returned.
\<close>

fun Get_loop ::
  "(nat \<times> error) option \<Rightarrow> 'c requestResult list \<Rightarrow> 'c requestStat list \<Rightarrow> Result option \<Rightarrow> error option
    \<Rightarrow> (Result option \<times> error option) \<times> 'c requestStat list" where
  "Get_loop (Some (0, e)) ch stats res err = ((None, Some e), stats)"
| "Get_loop stop [] stats res err = ((res, err), stats)"
| "Get_loop stop (rr # ch) stats res err =
     Get_loop (case stop of None \<Rightarrow> None | Some (n, e) \<Rightarrow> Some (n - 1, e)) ch (stats @ [rr_stat rr]) (rr_result rr)
       (case rr_err rr of
          None \<Rightarrow> None
        | Some e \<Rightarrow> if e \<noteq> errEmptyClientUnsupportedGet then Some (Wrap ''%v - %w'' e) else err)"

definition optimizingClient_Get ::
  "('c requestStat list \<Rightarrow> 'c requestStat list) \<Rightarrow> (nat \<times> error) option \<Rightarrow> nat list \<Rightarrow> ('c \<Rightarrow> 'c requestResult option)
    \<Rightarrow> 'c optimizingClient \<Rightarrow> (Result option \<times> error option) \<times> 'c optimizingClient" where
  "optimizingClient_Get srt stop sched ask oc =
     (let ch = raceGet sched ask (fastestClients oc) (oc_requestConcurrency oc);
          (r, stats) = Get_loop stop ch [] None (Some (Err ''no valid clients''))
      in (r, updateStats srt stats oc))"

text \<open>The information of the first source that gives any; otherwise the error of the last one.\<close>

fun Info_loop :: "('c \<Rightarrow> 'p Info result) \<Rightarrow> 'c list \<Rightarrow> ('p Info option \<times> error option) \<Rightarrow> 'p Info option \<times> error option" where
  "Info_loop ask [] r = r"
| "Info_loop ask (c # cs) r = (case ask c of Inr i \<Rightarrow> (Some i, None) | Inl e \<Rightarrow> Info_loop ask cs (None, Some e))"

definition optimizingClient_Info :: "('c \<Rightarrow> 'p Info result) \<Rightarrow> 'c optimizingClient \<Rightarrow> 'p Info option \<times> error option" where
  "optimizingClient_Info ask oc = Info_loop ask (fastestClients oc) (None, None)"

definition optimizingClient_RoundAt :: "('c \<Rightarrow> int \<Rightarrow> uint64) \<Rightarrow> int \<Rightarrow> 'c optimizingClient \<Rightarrow> uint64 result" where
  "optimizingClient_RoundAt roundAt t oc =
     (case oc_clients oc of [] \<Rightarrow> Inl (Panic ''index out of range'') | c # _ \<Rightarrow> Inr (roundAt c t))"

section \<open>Watching\<close>

text \<open>Results of the watched sources, each with its source and the time it is read: what is passed on.\<close>

fun trackWatchResults ::
  "('c requestStat list \<Rightarrow> 'c requestStat list) \<Rightarrow> 'p Info \<Rightarrow> (Result \<times> 'c \<times> int) list \<Rightarrow> uint64 \<Rightarrow> 'c optimizingClient
    \<Rightarrow> Result list \<times> 'c optimizingClient" where
  "trackWatchResults srt info [] latest oc = ([], oc)"
| "trackWatchResults srt info ((r, c, now) # inc) latest oc =
     (let rnd = res_Round r;
          timeOfRound = TimeOfRound (inf_Period info) (inf_GenesisTime info) rnd * Second;
          oc = updateStats srt [\<lparr>rs_client = c, rs_rtt = time_Sub now timeOfRound, rs_startTime = timeOfRound\<rparr>] oc
      in if latest < rnd
         then let (out, oc) = trackWatchResults srt info inc rnd oc in (r # out, oc)
         else trackWatchResults srt info inc latest oc)"

text \<open>
  The dispatcher of the watched sources. \<open>ws_running\<close> are the goroutines \<open>watchNext\<close> that have
  not ended, and \<open>ws_closed\<close> says that the dispatcher has returned and closed the channel they
  send on. \<open>order\<close> is the order of the sources by speed at the time of a step.
\<close>

record 'c watchState =
  ws_active :: "'c list"
  ws_protected :: "'c list"
  ws_failed :: "('c \<times> int) list"
  ws_running :: "'c list"
  ws_closed :: bool

definition hasActive :: "'c \<Rightarrow> 'c watchState \<Rightarrow> int" where
  "hasActive c ws = (case find (\<lambda>i. ws_active ws ! i = c) [0..<length (ws_active ws)] of None \<Rightarrow> - 1 | Some i \<Rightarrow> int i)"

definition hasProtected :: "'c \<Rightarrow> 'c watchState \<Rightarrow> int" where
  "hasProtected c ws = (case find (\<lambda>i. ws_protected ws ! i = c) [0..<length (ws_protected ws)] of None \<Rightarrow> - 1 | Some i \<Rightarrow> int i)"

text \<open>The last element takes the place of the one removed.\<close>

definition swap_remove :: "nat \<Rightarrow> 'a list \<Rightarrow> 'a list" where
  "swap_remove i xs = butlast (xs[i := last xs])"

definition ws_clean :: "int \<Rightarrow> 'c watchState \<Rightarrow> 'c watchState" where
  "ws_clean now ws = ws\<lparr>ws_failed := filter (\<lambda>(c, backoffUntil). now < backoffUntil) (ws_failed ws)\<rparr>"

definition ws_close :: "int \<Rightarrow> 'c watchState \<Rightarrow> 'c watchState" where
  "ws_close clientIdx ws = ws\<lparr>ws_active := swap_remove (nat clientIdx) (ws_active ws)\<rparr>"

definition ws_done :: "int \<Rightarrow> int \<Rightarrow> 'c \<Rightarrow> 'c watchState \<Rightarrow> 'c watchState" where
  "ws_done retryInterval now c ws =
     (if - 1 < hasActive c ws
      then let ws = ws_close (hasActive c ws) ws in ws\<lparr>ws_failed := ws_failed ws @ [(c, now + retryInterval)]\<rparr>
      else if - 1 < hasProtected c ws then ws\<lparr>ws_protected := swap_remove (nat (hasProtected c ws)) (ws_protected ws)\<rparr>
      else ws)"

definition nextUnwatched :: "'c list \<Rightarrow> 'c watchState \<Rightarrow> 'c option" where
  "nextUnwatched order ws =
     find (\<lambda>c. \<not> list_ex (\<lambda>a. c = a) (ws_active ws) \<and> \<not> list_ex (\<lambda>(f, _). c = f) (ws_failed ws)
              \<and> \<not> list_ex (\<lambda>p. c = p) (ws_protected ws)) order"

fun repopulate :: "nat \<Rightarrow> 'c list \<Rightarrow> 'c watchState \<Rightarrow> 'c watchState" where
  "repopulate 0 order ws = ws"
| "repopulate (Suc n) order ws =
     (case nextUnwatched order ws of
        None \<Rightarrow> ws
      | Some c \<Rightarrow> repopulate n order (ws\<lparr>ws_active := ws_active ws @ [c], ws_running := ws_running ws @ [c]\<rparr>))"

definition tryRepopulate :: "int \<Rightarrow> int \<Rightarrow> 'c list \<Rightarrow> 'c watchState \<Rightarrow> 'c watchState" where
  "tryRepopulate concurrency now order ws =
     (let ws = ws_clean now ws in repopulate (nat (concurrency - int (length (ws_active ws)))) order ws)"

definition closeSlowest :: "'c list \<Rightarrow> 'c watchState \<Rightarrow> 'c watchState result" where
  "closeSlowest order ws =
     (if ws_active ws = [] then Inr ws
      else
        let idxs = filter (\<lambda>i. - 1 < i) (map (\<lambda>c. hasActive c ws) order)
        in if idxs = [] then Inl (Panic ''index out of range'') else Inr (ws_close (last idxs) ws))"

text \<open>\<open>Watch\<close> up to the start of the dispatcher, with its first watchers.\<close>

definition Watch_start :: "int \<Rightarrow> 'c optimizingClient \<Rightarrow> 'c watchState" where
  "Watch_start now oc =
     tryRepopulate (oc_requestConcurrency oc) now (fastestClients oc)
       \<lparr>ws_active = [], ws_protected = oc_passiveClients oc, ws_failed = [], ws_running = oc_passiveClients oc, ws_closed = False\<rparr>"

text \<open>
  What happens: the stream of a watcher ends and the dispatcher learns it, with the context
  still going or not; the ticker ticks; a running watcher sends a result.
\<close>

datatype 'c watch_event = Closing 'c int bool "'c list" | Ticked int "'c list" | Emit 'c

fun watch_step :: "int \<Rightarrow> int \<Rightarrow> 'c watch_event \<Rightarrow> 'c watchState \<Rightarrow> 'c watchState result" where
  "watch_step conc retry (Emit c) ws =
     (if c \<notin> set (ws_running ws) then Inr ws
      else if ws_closed ws then Inl (Panic ''send on closed channel'') else Inr ws)"
| "watch_step conc retry (Closing c now ctx_ok order) ws =
     (if c \<notin> set (ws_running ws) \<or> ws_closed ws then Inr ws
      else
        let ws = ws_done retry now c (ws\<lparr>ws_running := remove1 c (ws_running ws)\<rparr>);
            ws = (if ctx_ok then tryRepopulate conc now order ws else ws)
        in Inr (if ws_active ws = [] \<and> ws_protected ws = [] then ws\<lparr>ws_closed := True\<rparr> else ws))"
| "watch_step conc retry (Ticked now order) ws =
     (if ws_closed ws then Inr ws
      else
        case order of
          [] \<Rightarrow> Inr ws
        | fastest # _ \<Rightarrow>
            if hasActive fastest ws = - 1 \<and> hasProtected fastest ws = - 1
            then map_sum id (tryRepopulate conc now order) (closeSlowest order ws) else Inr ws)"

fun watch_run :: "int \<Rightarrow> int \<Rightarrow> 'c watch_event list \<Rightarrow> 'c watchState \<Rightarrow> 'c watchState result" where
  "watch_run conc retry [] ws = Inr ws"
| "watch_run conc retry (ev # evs) ws =
     (case watch_step conc retry ev ws of Inl e \<Rightarrow> Inl e | Inr ws \<Rightarrow> watch_run conc retry evs ws)"

section \<open>Getting a round succeeds when a source does\<close>

lemma parallel_run_set:
  assumes "0 < k"
  shows "set (parallel_run k ask sched running waiting) = {rr. \<exists>c \<in> set running \<union> set waiting. ask c = Some rr}"
  using assms
proof (induction k ask sched running waiting rule: parallel_run.induct)
  case (1 k ask sched running waiting)
  let ?free = "k - length running"
  let ?run = "running @ take ?free waiting" and ?wait = "drop ?free waiting"
  have un: "set running \<union> set waiting = set ?run \<union> set ?wait"
    by (simp add: Un_assoc flip: set_append)
  show ?case
  proof (cases "?run = []")
    case True
    then have "running = []" "waiting = []" using "1.prems" by (auto simp: take_eq_Nil)
    then show ?thesis by (simp add: parallel_run.simps Let_def)
  next
    case False
    let ?i = "case sched of [] \<Rightarrow> 0 | s # _ \<Rightarrow> s mod length ?run"
    let ?rest = "take ?i ?run @ drop (Suc ?i) ?run"
    have i: "?i < length ?run" using False by (cases sched) auto
    have st: "set ?run = insert (?run ! ?i) (set ?rest)"
      by (subst id_take_nth_drop [OF i]) simp
    have ih: "set (parallel_run k ask (tl sched) ?rest ?wait) = {rr. \<exists>c \<in> set ?rest \<union> set ?wait. ask c = Some rr}"
      by (rule "1.IH" [OF refl refl refl False refl "1.prems"])
    have "parallel_run k ask sched running waiting = (case ask (?run ! ?i) of None \<Rightarrow> parallel_run k ask (tl sched) ?rest ?wait
        | Some rr \<Rightarrow> rr # parallel_run k ask (tl sched) ?rest ?wait)"
      using False by (subst parallel_run.simps) (simp only: Let_def if_False)
    then show ?thesis unfolding un st using ih by (cases "ask (?run ! ?i)") auto
  qed
qed

lemma race_cases:
  obtains (won) pre rr where "race rrs = pre @ [rr]" "rr_err rr = None" "rr \<in> set rrs" "\<forall>x \<in> set pre. rr_err x \<noteq> None"
  | (lost) "race rrs = rrs" "\<forall>x \<in> set rrs. rr_err x \<noteq> None"
proof -
  have "(\<exists>pre rr. race rrs = pre @ [rr] \<and> rr_err rr = None \<and> rr \<in> set rrs \<and> (\<forall>x \<in> set pre. rr_err x \<noteq> None))
      \<or> race rrs = rrs \<and> (\<forall>x \<in> set rrs. rr_err x \<noteq> None)"
  proof (induction rrs)
    case (Cons x rrs)
    show ?case
    proof (cases "rr_err x = None")
      case True
      then show ?thesis by (intro disjI1 exI [of _ "[]"] exI [of _ x]) simp
    next
      case False
      from Cons.IH show ?thesis
      proof (elim disjE exE conjE)
        fix pre rr assume "race rrs = pre @ [rr]" "rr_err rr = None" "rr \<in> set rrs" "\<forall>x \<in> set pre. rr_err x \<noteq> None"
        then show ?thesis using False by (intro disjI1 exI [of _ "x # pre"] exI [of _ rr]) simp
      qed (use False in simp)
    qed
  qed simp
  then show ?thesis using won lost by blast
qed

lemma Get_loop_errors:
  assumes "\<forall>x \<in> set pre. rr_err x \<noteq> None" "err \<noteq> None"
  shows "\<exists>res' err'. err' \<noteq> None \<and> Get_loop None (pre @ ch) stats res err = Get_loop None ch (stats @ map rr_stat pre) res' err'"
  using assms
proof (induction pre arbitrary: stats res err)
  case (Cons x pre)
  then obtain e where "rr_err x = Some e" by auto
  then show ?case using Cons.IH [of "if e \<noteq> errEmptyClientUnsupportedGet then Some (Wrap ''%v - %w'' e) else err" "stats @ [rr_stat x]" "rr_result x"]
      Cons.prems by auto
qed auto

lemma update_stat_clients [simp]: "map rs_client (update_stat nxt xs) = map rs_client xs"
  by (induction xs) auto

lemma fold_update_stat_clients [simp]: "map rs_client (fold update_stat stats xs) = map rs_client xs"
  by (induction stats arbitrary: xs) auto

lemma updateStats_clients:
  assumes "sort_ok srt"
  shows "mset (fastestClients (updateStats srt stats oc)) = mset (fastestClients oc)"
    and "sorted (map rs_rtt (oc_stats (updateStats srt stats oc)))"
proof -
  let ?xs = "fold update_stat stats (oc_stats oc)"
  have "image_mset rs_client (mset (srt ?xs)) = image_mset rs_client (mset ?xs)" "sorted (map rs_rtt (srt ?xs))"
    using assms by (simp_all add: sort_ok_def)
  moreover have "image_mset rs_client (mset ?xs) = mset (map rs_client (oc_stats oc))"
    by (metis fold_update_stat_clients mset_map)
  ultimately show "mset (fastestClients (updateStats srt stats oc)) = mset (fastestClients oc)"
    "sorted (map rs_rtt (oc_stats (updateStats srt stats oc)))"
    by (simp_all add: fastestClients_def updateStats_def)
qed

lemma oc_get_ok:
  "(\<exists>rr. oc_get c a e s t = Some rr \<and> rr_err rr = None) \<longleftrightarrow> is_ok a \<and> e = None"
  "oc_get c a e s t = Some rr \<Longrightarrow> rr_err rr = None \<Longrightarrow> \<exists>r. a = Inr r \<and> rr_result rr = Some r"
  by (cases a; auto simp: oc_get_def split: if_splits)+

text \<open>
  C16. The fallback of the optimizing client: whatever the order in which answers arrive and
  however many requests run at once, \<open>Get\<close> succeeds exactly when some source answers within its
  time, what it returns is the answer of one of them, and afterwards it still has the same
  sources, ordered by the time they took.
\<close>

theorem optimizing_get_falls_back:
  assumes "sort_ok srt" "1 \<le> oc_requestConcurrency oc" "ask = (\<lambda>c. oc_get c (answer c) (ctx_err c) (start c) (rtt c))"
    and "optimizingClient_Get srt None sched ask oc = ((res, err), oc')"
  shows "(err = None \<longleftrightarrow> (\<exists>c \<in> set (fastestClients oc). is_ok (answer c) \<and> ctx_err c = None))
       \<and> (err = None \<longrightarrow> (\<exists>c \<in> set (fastestClients oc). \<exists>r. answer c = Inr r \<and> res = Some r))
       \<and> mset (fastestClients oc') = mset (fastestClients oc) \<and> sorted (map rs_rtt (oc_stats oc'))"
proof -
  let ?cs = "fastestClients oc" and ?e0 = "Some (Err ''no valid clients'')"
  let ?rrs = "parallelGet sched ask ?cs (oc_requestConcurrency oc)"
  have st: "set ?rrs = {rr. \<exists>c \<in> set ?cs. ask c = Some rr}"
    using assms(2) by (simp add: parallelGet_def parallel_run_set)
  have ok: "(\<exists>rr \<in> set ?rrs. rr_err rr = None) \<longleftrightarrow> (\<exists>c \<in> set ?cs. is_ok (answer c) \<and> ctx_err c = None)"
  proof -
    have "(\<exists>rr \<in> set ?rrs. rr_err rr = None) \<longleftrightarrow> (\<exists>c \<in> set ?cs. \<exists>rr. ask c = Some rr \<and> rr_err rr = None)" unfolding st by blast
    then show ?thesis unfolding assms(3) oc_get_ok(1) .
  qed
  have g: "fst (Get_loop None (race ?rrs) [] None ?e0) = (res, err)" "\<exists>stats. oc' = updateStats srt stats oc"
    using assms(4) by (auto simp: optimizingClient_Get_def raceGet_def Let_def split: prod.splits)
  have "(err = None \<longleftrightarrow> (\<exists>rr \<in> set ?rrs. rr_err rr = None)) \<and> (err = None \<longrightarrow> (\<exists>rr \<in> set ?rrs. rr_err rr = None \<and> res = rr_result rr))"
  proof (cases rule: race_cases [of ?rrs])
    case (won pre rr)
    obtain res' err' where "Get_loop None (pre @ [rr]) [] None ?e0 = Get_loop None [rr] (map rr_stat pre) res' err'"
      using Get_loop_errors [OF won(4), of ?e0 "[rr]" "[]" None] by auto
    then show ?thesis using g(1) won by auto
  next
    case lost
    obtain res' err' where "Get_loop None (?rrs @ []) [] None ?e0 = Get_loop None [] (map rr_stat ?rrs) res' err'" "err' \<noteq> None"
      using Get_loop_errors [OF lost(2), of ?e0 "[]" "[]" None] by auto
    then show ?thesis using g(1) lost by auto
  qed
  moreover have "\<exists>c \<in> set ?cs. \<exists>r. answer c = Inr r \<and> rr_result rr = Some r" if rr: "rr \<in> set ?rrs" "rr_err rr = None" for rr
  proof -
    obtain c where c: "c \<in> set ?cs" "oc_get c (answer c) (ctx_err c) (start c) (rtt c) = Some rr"
      using rr(1) unfolding st unfolding assms(3) by blast
    then show ?thesis using oc_get_ok(2) [OF c(2) rr(2)] by blast
  qed
  ultimately show ?thesis using ok g(2) updateStats_clients [OF assms(1)] by metis
qed

lemma sort_ok_sort_key: "sort_ok (sort_key rs_rtt)"
  by (simp add: sort_ok_def)

definition two_clients :: "nat optimizingClient" where
  "two_clients = projr (newOptimizingClient 0 [0, 1] 0 0 0 0)"

lemma two_clients_facts [simp]: "oc_requestConcurrency two_clients = 1" "fastestClients two_clients = [0, 1]" "oc_passiveClients two_clients = []"
  by (simp_all add: two_clients_def newOptimizingClient_def fastestClients_def)

definition one_down :: "nat \<Rightarrow> Result result" where
  "one_down c = (if c = 0 then Inl (ExtErr ''down'') else Inr (RD checkpoint))"

theorem optimizing_get_falls_back_witness:
  "\<exists>res oc'. optimizingClient_Get (sort_key rs_rtt) None [] (\<lambda>c. oc_get c (one_down c) None 5 7) two_clients = ((res, None), oc')"
proof -
  obtain res err oc' where g: "optimizingClient_Get (sort_key rs_rtt) None [] (\<lambda>c. oc_get c (one_down c) None 5 7) two_clients = ((res, err), oc')"
    by (metis prod.exhaust)
  have "is_ok (one_down 1)" by (simp add: one_down_def)
  then have "\<exists>c \<in> set (fastestClients two_clients). is_ok (one_down c) \<and> None = (None :: error option)" by simp
  then have "err = None"
    using optimizing_get_falls_back [OF sort_ok_sort_key _ refl g] by simp
  then show ?thesis using g by blast
qed

section \<open>Watching keeps its bounds\<close>

text \<open>Results are passed on in strictly increasing order of rounds.\<close>

lemma trackWatchResults_increasing:
  "sorted_wrt (<) (map res_Round (fst (trackWatchResults srt info inc latest oc)))
   \<and> (\<forall>r \<in> set (fst (trackWatchResults srt info inc latest oc)). latest < res_Round r \<and> r \<in> fst ` set inc)"
proof (induction srt info inc latest oc rule: trackWatchResults.induct)
  case (2 srt info r c now inc latest oc)
  show ?case
    using 2 [OF refl refl refl] by (force simp: Let_def split_beta)
qed simp

lemma find_index_cases:
  obtains (absent) "find (\<lambda>i. xs ! i = c) [0..<length xs] = None" "c \<notin> set xs"
  | (present) i where "find (\<lambda>i. xs ! i = c) [0..<length xs] = Some i" "i < length xs" "xs ! i = c"
proof (cases "find (\<lambda>i. xs ! i = c) [0..<length xs]")
  case None
  then show ?thesis using absent by (auto simp: find_None_iff in_set_conv_nth)
next
  case (Some i)
  then have "i < length xs" "xs ! i = c" by (auto simp: find_Some_iff)
  then show ?thesis using present Some by blast
qed

lemma hasActive_cases:
  obtains (absent) "hasActive c ws = - 1" "c \<notin> set (ws_active ws)"
  | (present) i where "hasActive c ws = int i" "i < length (ws_active ws)" "ws_active ws ! i = c"
  by (cases rule: find_index_cases [of "ws_active ws" c]) (auto simp: hasActive_def)

lemma hasProtected_cases:
  obtains (absent) "hasProtected c ws = - 1" "c \<notin> set (ws_protected ws)"
  | (present) i where "hasProtected c ws = int i" "i < length (ws_protected ws)" "ws_protected ws ! i = c"
  by (cases rule: find_index_cases [of "ws_protected ws" c]) (auto simp: hasProtected_def)

lemma mset_swap_remove:
  assumes "i < length xs"
  shows "mset (swap_remove i xs) = mset xs - {#xs ! i#}"
proof (cases xs rule: rev_cases)
  case (snoc ys z)
  show ?thesis
  proof (cases "i = length ys")
    case False
    then have "i < length ys" using assms snoc by simp
    then show ?thesis by (simp add: swap_remove_def snoc list_update_append nth_append butlast_append mset_update)
  qed (simp add: swap_remove_def snoc)
qed (use assms in simp)

lemma swap_remove_simps:
  assumes "i < length xs"
  shows "set (swap_remove i xs) \<subseteq> set xs" "length (swap_remove i xs) = length xs - 1"
    "distinct xs \<Longrightarrow> distinct (swap_remove i xs) \<and> xs ! i \<notin> set (swap_remove i xs)"
proof -
  show "set (swap_remove i xs) \<subseteq> set xs" using mset_swap_remove [OF assms] by (metis in_diffD set_mset_mset subsetI)
  show "length (swap_remove i xs) = length xs - 1" by (simp add: swap_remove_def)
  assume d: "distinct xs"
  obtain ys z where xs: "xs = ys @ [z]" using assms by (cases xs rule: rev_cases) auto
  show "distinct (swap_remove i xs) \<and> xs ! i \<notin> set (swap_remove i xs)"
  proof (cases "i = length ys")
    case True
    then show ?thesis using d by (simp add: swap_remove_def xs)
  next
    case False
    then have i: "i < length ys" using assms xs by simp
    then have "swap_remove i xs = ys[i := z]" "xs ! i = ys ! i"
      by (simp_all add: swap_remove_def xs list_update_append nth_append butlast_append)
    then show ?thesis using d i nth_mem [OF i] by (auto simp: xs distinct_list_update set_update_distinct)
  qed
qed

definition watch_inv :: "int \<Rightarrow> 'c set \<Rightarrow> 'c watchState \<Rightarrow> bool" where
  "watch_inv conc clients ws \<longleftrightarrow>
     distinct (ws_active ws) \<and> set (ws_active ws) \<subseteq> clients \<and> int (length (ws_active ws)) \<le> conc
   \<and> set (ws_active ws) \<inter> set (ws_protected ws) = {} \<and> set (ws_active ws) \<inter> fst ` set (ws_failed ws) = {}
   \<and> set (ws_active ws) \<subseteq> set (ws_running ws) \<and> (ws_closed ws \<longrightarrow> ws_active ws = [] \<and> ws_protected ws = [])"

lemma nextUnwatched_fresh:
  assumes "nextUnwatched order ws = Some c"
  shows "c \<in> set order" "c \<notin> set (ws_active ws)" "c \<notin> set (ws_protected ws)" "c \<notin> fst ` set (ws_failed ws)"
  using assms by (auto simp: nextUnwatched_def find_Some_iff list_ex_iff split_beta)

lemma repopulate_inv:
  assumes "watch_inv conc clients ws" "int (length (ws_active ws)) + int n \<le> conc" "set order \<subseteq> clients" "\<not> ws_closed ws"
  shows "watch_inv conc clients (repopulate n order ws) \<and> \<not> ws_closed (repopulate n order ws)"
  using assms
proof (induction n arbitrary: ws)
  case (Suc n)
  show ?case
  proof (cases "nextUnwatched order ws")
    case (Some c)
    note f = nextUnwatched_fresh [OF Some]
    have "watch_inv conc clients (ws\<lparr>ws_active := ws_active ws @ [c], ws_running := ws_running ws @ [c]\<rparr>)"
      using Suc.prems f by (auto simp: watch_inv_def)
    then show ?thesis using Suc.IH [of "ws\<lparr>ws_active := ws_active ws @ [c], ws_running := ws_running ws @ [c]\<rparr>"] Suc.prems Some by simp
  qed (use Suc.prems in simp)
qed simp

lemma tryRepopulate_inv:
  assumes "watch_inv conc clients ws" "set order \<subseteq> clients" "\<not> ws_closed ws"
  shows "watch_inv conc clients (tryRepopulate conc now order ws) \<and> \<not> ws_closed (tryRepopulate conc now order ws)"
proof -
  have "watch_inv conc clients (ws_clean now ws)" "ws_active (ws_clean now ws) = ws_active ws" "\<not> ws_closed (ws_clean now ws)"
    using assms(1,3) by (auto simp: watch_inv_def ws_clean_def)
  then show ?thesis
    unfolding tryRepopulate_def Let_def using assms(1,2) by (intro repopulate_inv) (auto simp: watch_inv_def)
qed

lemma ws_close_inv:
  assumes "watch_inv conc clients ws" "i < length (ws_active ws)" "\<not> ws_closed ws"
  shows "watch_inv conc clients (ws_close (int i) ws)"
  using assms swap_remove_simps [OF assms(2)] by (auto simp: watch_inv_def ws_close_def)

lemma ws_done_inv:
  assumes "watch_inv conc clients ws" "\<not> ws_closed ws"
  shows "watch_inv conc clients (ws_done retry now c (ws\<lparr>ws_running := remove1 c (ws_running ws)\<rparr>))
       \<and> \<not> ws_closed (ws_done retry now c (ws\<lparr>ws_running := remove1 c (ws_running ws)\<rparr>))"
proof -
  let ?ws = "ws\<lparr>ws_running := remove1 c (ws_running ws)\<rparr>"
  have r: "a \<in> set (ws_running ws) \<Longrightarrow> a \<noteq> c \<Longrightarrow> a \<in> set (remove1 c (ws_running ws))" for a by simp
  show ?thesis
  proof (cases rule: hasActive_cases [of c ?ws])
    case (present i)
    then have i: "i < length (ws_active ws)" "ws_active ws ! i = c" by simp_all
    note sw = swap_remove_simps [OF i(1)]
    have d: "distinct (swap_remove i (ws_active ws))" "c \<notin> set (swap_remove i (ws_active ws))"
      using sw(3) assms(1) i(2) by (auto simp: watch_inv_def)
    then have "set (swap_remove i (ws_active ws)) \<subseteq> set (remove1 c (ws_running ws))"
      using sw(1) assms(1) r unfolding watch_inv_def by (metis subsetD subsetI)
    then show ?thesis
      using assms sw(1,2) present d by (auto simp: ws_done_def ws_close_def watch_inv_def Let_def)
  next
    case absent
    have "a \<in> set (remove1 c (ws_running ws))" if "a \<in> set (ws_active ws)" for a
      using that absent(2) assms(1) by (intro r) (auto simp: watch_inv_def)
    then have inv: "watch_inv conc clients ?ws" using assms by (auto simp: watch_inv_def)
    show ?thesis
    proof (cases rule: hasProtected_cases [of c ?ws])
      case (present i)
      then show ?thesis using absent inv assms(2) swap_remove_simps(1) [of i "ws_protected ws"] by (auto simp: ws_done_def watch_inv_def)
    next
      case absent
      then show ?thesis using \<open>hasActive c ?ws = - 1\<close> inv assms(2) by (simp add: ws_done_def)
    qed
  qed
qed

lemma closeSlowest_inv:
  assumes "watch_inv conc clients ws" "set order = clients" "\<not> ws_closed ws"
  shows "\<exists>ws'. closeSlowest order ws = Inr ws' \<and> watch_inv conc clients ws' \<and> \<not> ws_closed ws'"
proof (cases "ws_active ws = []")
  case True
  then show ?thesis using assms by (simp add: closeSlowest_def)
next
  case False
  let ?idxs = "filter (\<lambda>i. - 1 < i) (map (\<lambda>c. hasActive c ws) order)"
  obtain a where "a \<in> set (ws_active ws)" using False by (cases "ws_active ws") auto
  then have "hasActive a ws \<in> (\<lambda>c. hasActive c ws) ` set order" "- 1 < hasActive a ws"
    using assms(1,2) by (auto simp: watch_inv_def intro: hasActive_cases [of a ws])
  then have "hasActive a ws \<in> set ?idxs" by simp
  then have ne: "?idxs \<noteq> []" by (metis empty_iff empty_set)
  then have "last ?idxs \<in> set ?idxs" by (rule last_in_set)
  then obtain c where "last ?idxs = hasActive c ws" "- 1 < hasActive c ws" by auto
  then obtain i where "last ?idxs = int i" "i < length (ws_active ws)"
    by (cases rule: hasActive_cases [of c ws]) auto
  then show ?thesis
    using ne False ws_close_inv [OF assms(1) _ assms(3), of i] assms(3) by (simp add: closeSlowest_def Let_def ws_close_def)
qed

fun event_order :: "'c watch_event \<Rightarrow> 'c list option" where
  "event_order (Closing c now ctx_ok order) = Some order"
| "event_order (Ticked now order) = Some order"
| "event_order (Emit c) = None"

lemma watch_step_inv:
  assumes "watch_inv conc clients ws" "\<forall>order. event_order ev = Some order \<longrightarrow> set order = clients"
  shows "(\<exists>ws'. watch_step conc retry ev ws = Inr ws' \<and> watch_inv conc clients ws') \<or> watch_step conc retry ev ws = Inl (Panic ''send on closed channel'')"
proof (cases ev)
  case (Emit c)
  then show ?thesis using assms(1) by auto
next
  case (Closing c now ok order)
  show ?thesis
  proof (cases "c \<notin> set (ws_running ws) \<or> ws_closed ws")
    case False
    let ?ws = "ws_done retry now c (ws\<lparr>ws_running := remove1 c (ws_running ws)\<rparr>)"
    let ?ws' = "if ok then tryRepopulate conc now order ?ws else ?ws"
    have "watch_inv conc clients ?ws'"
      using ws_done_inv [OF assms(1), of retry now c] tryRepopulate_inv [of conc clients ?ws order now] assms(2) Closing False by auto
    then show ?thesis using Closing False by (auto simp: Let_def watch_inv_def)
  qed (use Closing assms(1) in auto)
next
  case (Ticked now order)
  show ?thesis
  proof (cases order)
    case (Cons fastest rest)
    then have o: "set order = clients" using assms(2) Ticked by simp
    show ?thesis
    proof (cases "ws_closed ws \<or> hasActive fastest ws \<noteq> - 1 \<or> hasProtected fastest ws \<noteq> - 1")
      case False
      then obtain ws1 where "closeSlowest order ws = Inr ws1" "watch_inv conc clients ws1" "\<not> ws_closed ws1"
        using closeSlowest_inv [OF assms(1) o] by auto
      then show ?thesis using False Ticked Cons o tryRepopulate_inv [of conc clients ws1 order now] by auto
    qed (use Ticked Cons assms(1) in auto)
  qed (use Ticked assms(1) in auto)
qed

lemma watch_run_inv:
  assumes "watch_inv conc clients ws" "\<forall>ev \<in> set evs. \<forall>order. event_order ev = Some order \<longrightarrow> set order = clients"
  shows "case watch_run conc retry evs ws of Inr ws' \<Rightarrow> watch_inv conc clients ws' | Inl e \<Rightarrow> e = Panic ''send on closed channel''"
  using assms
proof (induction evs arbitrary: ws)
  case (Cons ev evs)
  have o: "\<forall>order. event_order ev = Some order \<longrightarrow> set order = clients" using Cons.prems(2) by simp
  from watch_step_inv [OF Cons.prems(1) o, of retry] show ?case
  proof (elim disjE exE conjE)
    fix ws' assume "watch_step conc retry ev ws = Inr ws'" "watch_inv conc clients ws'"
    then show ?thesis using Cons.IH [of ws'] Cons.prems(2) by simp
  qed simp
qed simp



text \<open>
  C37. The dispatcher can bring the program down: with two sources of which one is replaced when
  the other becomes faster, and then the context ends, the dispatcher closes the channel of the
  results as soon as the second stream ends; the first watcher, which is still running, sends on
  the closed channel.
\<close>

theorem replaced_watcher_sends_on_closed_channel:
  assumes "newOptimizingClient now [a, b] 0 0 0 0 = Inr oc" "a \<noteq> b"
  shows "watch_run (oc_requestConcurrency oc) (oc_watchRetryInterval oc) [Ticked t [b, a], Closing b t' False [b, a], Emit a] (Watch_start now oc)
       = Inl (Panic ''send on closed channel'')"
proof -
  have oc: "oc_requestConcurrency oc = 1" "fastestClients oc = [a, b]" "oc_passiveClients oc = []"
    using assms(1) by (auto simp: newOptimizingClient_def fastestClients_def)
  let ?ws = "\<lambda>act run. \<lparr>ws_active = act, ws_protected = [], ws_failed = [], ws_running = run, ws_closed = False\<rparr>"
  have "Watch_start now oc = ?ws [a] [a]"
    by (simp add: Watch_start_def oc tryRepopulate_def ws_clean_def nextUnwatched_def Let_def)
  moreover have "closeSlowest [b, a] (?ws [a] [a]) = Inr (?ws [] [a])"
    using assms(2) by (simp add: closeSlowest_def hasActive_def ws_close_def swap_remove_def Let_def)
  moreover have "tryRepopulate 1 t [b, a] (?ws [] [a]) = ?ws [b] [a, b]"
    by (simp add: tryRepopulate_def ws_clean_def nextUnwatched_def Let_def)
  moreover have "hasActive b (?ws [a] [a]) = - 1" "hasProtected b (?ws [a] [a]) = - 1" "hasActive b (?ws [b] [a]) = 0"
    using assms(2) by (simp_all add: hasActive_def hasProtected_def)
  ultimately show ?thesis
    using assms(2) by (simp add: oc ws_done_def ws_close_def swap_remove_def Let_def)
qed

theorem replaced_watcher_sends_on_closed_channel_witness:
  "watch_run (oc_requestConcurrency two_clients) (oc_watchRetryInterval two_clients) [Ticked 5 [1, 0], Closing 1 6 False [1, 0], Emit 0] (Watch_start 0 two_clients)
     = Inl (Panic ''send on closed channel'')"
  by (rule replaced_watcher_sends_on_closed_channel) (simp_all add: two_clients_def newOptimizingClient_def)

end
