(* ===== verification/Client_Aggregate.thy ===== *)
theory Client_Aggregate
  imports Client_Verify Chain_Time "HOL-Library.Sublist"
begin

text \<open>
  \<open>src/client/aggregator.go\<close> and \<open>poll.go\<close>: the client that shares one watch of its source among
  all its subscribers, and the watcher that polls a source once per period.

  The goroutines of the aggregator (one \<open>distribute\<close> per upstream watch, the auto watch and its
  \<open>sink\<close>) are parts of its state, and an event is one step of one of them or of a caller. The
  section of a goroutine that holds \<open>subscriberLock\<close> is one step. A buffered channel is its
  buffer with what the reader has taken from it.
\<close>

section \<open>State\<close>

definition aggregatorWatchBuffer :: nat where "aggregatorWatchBuffer = 5"

definition defaultAutoWatchRetry :: int where "defaultAutoWatchRetry = 30 * Second"

datatype wctx = AutoCtx | UserCtx nat

record subscriber =
  sub_ctx :: wctx
  sub_c :: nat

record wchan =
  wch_buf :: "Result list"
  wch_closed :: bool
  wch_read :: "Result list"

text \<open>
  \<open>distribute\<close> is before its check for subscribers, or in its \<open>select\<close> with the context of the
  subscriber that was first at the check.
\<close>

datatype dist_phase = Checking | Selecting wctx

text \<open>
  The goroutine of \<open>startAutoWatch\<close>: not started or returned, at the top of its loop, reading the
  channel of \<open>Watch\<close>, reading the channel of \<open>passiveWatch\<close>, reading a nil channel, or waiting for
  the timer.
\<close>

datatype auto_phase = NoAuto | AutoTop | AutoReads nat | AutoSinks | AutoNil | AutoTimer

record watchAggregator =
  wa_passiveClient :: bool
  wa_autoWatch :: bool
  wa_autoWatchRetry :: int
  wa_subscribers :: "subscriber list"
  wa_cancelPassive :: bool
  wa_chans :: "wchan list"
  wa_dists :: "dist_phase list"
  wa_stopped :: "nat list"
  wa_auto :: auto_phase
  wa_sink :: bool
  wa_wcClosed :: bool
  wa_done :: "wctx list"

definition newWatchAggregator :: "bool \<Rightarrow> bool \<Rightarrow> int \<Rightarrow> watchAggregator" where
  "newWatchAggregator wc autoWatch autoWatchRetry =
     \<lparr>wa_passiveClient = wc, wa_autoWatch = autoWatch,
      wa_autoWatchRetry = (if autoWatchRetry = 0 then defaultAutoWatchRetry else autoWatchRetry),
      wa_subscribers = [], wa_cancelPassive = False, wa_chans = [], wa_dists = [], wa_stopped = [],
      wa_auto = NoAuto, wa_sink = False, wa_wcClosed = False, wa_done = []\<rparr>"

text \<open>Start: both kinds of auto watch begin at the top of the loop.\<close>

definition wa_Start :: "watchAggregator \<Rightarrow> watchAggregator" where
  "wa_Start a = (if wa_autoWatch a \<or> wa_passiveClient a then a\<lparr>wa_auto := AutoTop\<rparr> else a)"

section \<open>Operations\<close>

text \<open>
  \<open>Watch\<close> gives the new channel, the next free index. The first subscriber starts a watch of the
  source and a goroutine that distributes it, and ends the passive watch.
\<close>

definition wa_Watch :: "wctx \<Rightarrow> watchAggregator \<Rightarrow> nat \<times> watchAggregator" where
  "wa_Watch ctx a =
     (let sub = \<lparr>sub_ctx = ctx, sub_c = length (wa_chans a)\<rparr>;
          a = a\<lparr>wa_chans := wa_chans a @ [\<lparr>wch_buf = [], wch_closed = False, wch_read = []\<rparr>],
                wa_subscribers := wa_subscribers a @ [sub]\<rparr>;
          a = (if length (wa_subscribers a) = 1
               then a\<lparr>wa_cancelPassive := False, wa_dists := wa_dists a @ [Checking]\<rparr> else a)
      in (sub_c sub, a))"

text \<open>\<open>passiveWatch\<close>: the phase of its caller says which channel it got. \<open>wa_sink\<close> is the goroutine
  that drains the passive source and then closes the channel.\<close>

definition passiveWatch :: "watchAggregator \<Rightarrow> watchAggregator" where
  "passiveWatch a =
     (if wa_cancelPassive a then a\<lparr>wa_auto := AutoNil\<rparr>
      else if wa_subscribers a = [] then a\<lparr>wa_cancelPassive := True, wa_sink := True, wa_wcClosed := False, wa_auto := AutoSinks\<rparr>
      else a\<lparr>wa_wcClosed := True, wa_auto := AutoSinks\<rparr>)"

text \<open>A send on a channel that is not full, and the closing of a channel.\<close>

definition wch_try_send :: "Result \<Rightarrow> wchan \<Rightarrow> wchan result" where
  "wch_try_send m c =
     (if wch_closed c then Inl (Panic ''send on closed channel'')
      else if length (wch_buf c) < aggregatorWatchBuffer then Inr (c\<lparr>wch_buf := wch_buf c @ [m]\<rparr>) else Inr c)"

definition close_chan :: "wchan \<Rightarrow> wchan result" where
  "close_chan c = (if wch_closed c then Inl (Panic ''close of closed channel'') else Inr (c\<lparr>wch_closed := True\<rparr>))"

text \<open>The loop of \<open>distribute\<close> over the subscribers: those that are kept, and the channels.\<close>

fun dist_loop :: "Result option \<Rightarrow> bool \<Rightarrow> wctx list \<Rightarrow> subscriber list \<Rightarrow> wchan list \<Rightarrow> (subscriber list \<times> wchan list) result" where
  "dist_loop m ok dn [] chans = Inr ([], chans)"
| "dist_loop m ok dn (s # rest) chans =
     (if ok \<and> sub_ctx s \<notin> set dn
      then (case (case m of None \<Rightarrow> Inr (chans ! sub_c s) | Some r \<Rightarrow> wch_try_send r (chans ! sub_c s)) of
              Inl e \<Rightarrow> Inl e
            | Inr c \<Rightarrow> map_sum id (\<lambda>(kept, chans). (s # kept, chans)) (dist_loop m ok dn rest (chans[sub_c s := c])))
      else (case close_chan (chans ! sub_c s) of
              Inl e \<Rightarrow> Inl e
            | Inr c \<Rightarrow> dist_loop m ok dn rest (chans[sub_c s := c])))"

text \<open>The check of a distributing goroutine; goroutines that have returned are in \<open>wa_stopped\<close>.\<close>

definition dist_check :: "nat \<Rightarrow> watchAggregator \<Rightarrow> watchAggregator" where
  "dist_check d a =
     (case wa_subscribers a of
        [] \<Rightarrow> a\<lparr>wa_stopped := d # wa_stopped a\<rparr>
      | s # _ \<Rightarrow> a\<lparr>wa_dists := (wa_dists a)[d := Selecting (sub_ctx s)]\<rparr>)"

text \<open>What follows its \<open>select\<close>.\<close>

definition dist_rest :: "nat \<Rightarrow> Result option \<Rightarrow> bool \<Rightarrow> watchAggregator \<Rightarrow> watchAggregator result" where
  "dist_rest d m ok a =
     (case dist_loop m ok (wa_done a) (wa_subscribers a) (wa_chans a) of
        Inl e \<Rightarrow> Inl e
      | Inr (subs, chans) \<Rightarrow>
          let a = a\<lparr>wa_subscribers := subs, wa_chans := chans\<rparr>
          in Inr (if ok then a\<lparr>wa_dists := (wa_dists a)[d := Checking]\<rparr> else a\<lparr>wa_stopped := d # wa_stopped a\<rparr>))"

definition running :: "nat \<Rightarrow> watchAggregator \<Rightarrow> bool" where
  "running d a \<longleftrightarrow> d < length (wa_dists a) \<and> d \<notin> set (wa_stopped a)"

text \<open>One turn of the loop of the auto watch, and \<open>Close\<close>, which cancels its context.\<close>

definition auto_top :: "watchAggregator \<Rightarrow> watchAggregator" where
  "auto_top a =
     (if wa_autoWatch a then let (c, a) = wa_Watch AutoCtx a in a\<lparr>wa_auto := AutoReads c\<rparr>
      else if wa_passiveClient a then passiveWatch a else a\<lparr>wa_auto := AutoNil\<rparr>)"

definition auto_ended :: "watchAggregator \<Rightarrow> watchAggregator" where
  "auto_ended a = (if wa_autoWatchRetry a < 0 then a\<lparr>wa_auto := NoAuto\<rparr> else a\<lparr>wa_auto := AutoTimer\<rparr>)"

definition read_chan :: "nat \<Rightarrow> watchAggregator \<Rightarrow> watchAggregator" where
  "read_chan i a =
     (case wch_buf (wa_chans a ! i) of
        [] \<Rightarrow> a
      | r # rs \<Rightarrow> a\<lparr>wa_chans := (wa_chans a)[i := (wa_chans a ! i)\<lparr>wch_buf := rs, wch_read := wch_read (wa_chans a ! i) @ [r]\<rparr>]\<rparr>)"

definition auto_read :: "watchAggregator \<Rightarrow> watchAggregator" where
  "auto_read a =
     (case wa_auto a of
        AutoReads i \<Rightarrow> if wch_buf (wa_chans a ! i) = [] \<and> wch_closed (wa_chans a ! i) then auto_ended a else read_chan i a
      | AutoSinks \<Rightarrow> if wa_wcClosed a then auto_ended a else a
      | _ \<Rightarrow> a)"

text \<open>Its context is done: a read of any channel returns, a wait for the timer goes on to the next turn.\<close>

definition auto_done :: "watchAggregator \<Rightarrow> watchAggregator" where
  "auto_done a =
     (if AutoCtx \<notin> set (wa_done a) then a
      else case wa_auto a of
        NoAuto \<Rightarrow> a | AutoTop \<Rightarrow> a | AutoTimer \<Rightarrow> a\<lparr>wa_auto := AutoTop\<rparr> | _ \<Rightarrow> a\<lparr>wa_auto := NoAuto\<rparr>)"

section \<open>Runs\<close>

text \<open>
  A caller watches, cancels its context or reads; the goroutine \<open>d\<close> makes its check, receives from
  the source (a result, nil, or the end of the stream) or sees its context done; the auto watch
  begins a turn, reads, sees its timer fire or its context done; the passive source ends; the
  aggregator is closed.
\<close>

datatype wa_event =
  CallWatch nat | Cancel nat | Reads nat | Check nat | Receives nat "Result option option" | SeesDone nat
  | AutoTurn | AutoRead | AutoFires | AutoDone | PassiveEnds | Closes

fun wa_step :: "wa_event \<Rightarrow> watchAggregator \<Rightarrow> watchAggregator result" where
  "wa_step (CallWatch n) a = Inr (snd (wa_Watch (UserCtx n) a))"
| "wa_step (Cancel n) a = Inr (a\<lparr>wa_done := UserCtx n # wa_done a\<rparr>)"
| "wa_step (Reads i) a = Inr (if i < length (wa_chans a) then read_chan i a else a)"
| "wa_step (Check d) a = Inr (if running d a \<and> wa_dists a ! d = Checking then dist_check d a else a)"
| "wa_step (Receives d m) a =
     (if running d a \<and> wa_dists a ! d \<noteq> Checking
      then (case m of None \<Rightarrow> dist_rest d None False a | Some r \<Rightarrow> dist_rest d r True a) else Inr a)"
| "wa_step (SeesDone d) a =
     (if running d a \<and> (\<exists>ctx \<in> set (wa_done a). wa_dists a ! d = Selecting ctx) then dist_rest d None False a else Inr a)"
| "wa_step AutoTurn a = Inr (if wa_auto a = AutoTop then auto_top a else a)"
| "wa_step AutoRead a = Inr (auto_read a)"
| "wa_step AutoFires a = Inr (if wa_auto a = AutoTimer then a\<lparr>wa_auto := AutoTop\<rparr> else a)"
| "wa_step AutoDone a = Inr (auto_done a)"
| "wa_step PassiveEnds a = Inr (if wa_sink a then a\<lparr>wa_sink := False, wa_wcClosed := True\<rparr> else a)"
| "wa_step Closes a = Inr (if wa_autoWatch a \<or> wa_passiveClient a then a\<lparr>wa_done := AutoCtx # wa_done a\<rparr> else a)"

fun wa_run :: "wa_event list \<Rightarrow> watchAggregator \<Rightarrow> watchAggregator result" where
  "wa_run [] a = Inr a"
| "wa_run (ev # evs) a = (case wa_step ev a of Inl e \<Rightarrow> Inl e | Inr a \<Rightarrow> wa_run evs a)"

section \<open>Invariant\<close>

definition send_to :: "Result option \<Rightarrow> wchan \<Rightarrow> wchan" where
  "send_to m c =
     (case m of None \<Rightarrow> c
      | Some r \<Rightarrow> if length (wch_buf c) < aggregatorWatchBuffer then c\<lparr>wch_buf := wch_buf c @ [r]\<rparr> else c)"

lemma send_to_simps [simp]: "wch_closed (send_to m c) = wch_closed c" "wch_read (send_to m c) = wch_read c"
  by (simp_all add: send_to_def split: option.split)

lemma send_to_bound: "length (wch_buf c) \<le> aggregatorWatchBuffer \<Longrightarrow> length (wch_buf (send_to m c)) \<le> aggregatorWatchBuffer"
  by (simp add: send_to_def split: option.split)

definition subs_ok :: "subscriber list \<Rightarrow> wchan list \<Rightarrow> bool" where
  "subs_ok subs chans \<longleftrightarrow> distinct (map sub_c subs) \<and> (\<forall>s \<in> set subs. sub_c s < length chans \<and> \<not> wch_closed (chans ! sub_c s))"

definition dist_chan :: "Result option \<Rightarrow> (subscriber \<Rightarrow> bool) \<Rightarrow> subscriber list \<Rightarrow> nat \<Rightarrow> wchan \<Rightarrow> wchan" where
  "dist_chan m keep subs i c =
     (if i \<in> sub_c ` {s \<in> set subs. keep s} then send_to m c
      else if i \<in> sub_c ` set subs then c\<lparr>wch_closed := True\<rparr> else c)"

lemma subs_ok_Cons:
  assumes "subs_ok (s # subs) chans"
  shows "subs_ok subs (chans[sub_c s := c])" "sub_c s < length chans" "\<not> wch_closed (chans ! sub_c s)" "sub_c s \<notin> sub_c ` set subs"
  using assms by (auto simp: subs_ok_def nth_list_update)

lemma dist_loop_spec:
  assumes "subs_ok subs chans"
  shows "\<exists>chans'. dist_loop m ok dn subs chans = Inr (filter (\<lambda>s. ok \<and> sub_ctx s \<notin> set dn) subs, chans')
      \<and> length chans' = length chans
      \<and> (\<forall>i < length chans. chans' ! i = dist_chan m (\<lambda>s. ok \<and> sub_ctx s \<notin> set dn) subs i (chans ! i))"
  using assms
proof (induction subs arbitrary: chans)
  case Nil
  then show ?case by (simp add: dist_chan_def)
next
  case (Cons s subs)
  let ?keep = "\<lambda>s. ok \<and> sub_ctx s \<notin> set dn" and ?i = "sub_c s"
  let ?c = "dist_chan m ?keep (s # subs) ?i (chans ! ?i)"
  note s = subs_ok_Cons [OF Cons.prems]
  obtain chans' where ih: "dist_loop m ok dn subs (chans[?i := ?c]) = Inr (filter ?keep subs, chans')" "length chans' = length chans"
      "\<And>i. i < length chans \<Longrightarrow> chans' ! i = dist_chan m ?keep subs i (chans[?i := ?c] ! i)"
    using Cons.IH [OF s(1)] by auto
  have notin: "?i \<notin> sub_c ` {t \<in> set subs. ?keep t}" using s(4) by auto
  have c: "?c = (if ?keep s then send_to m (chans ! ?i) else (chans ! ?i)\<lparr>wch_closed := True\<rparr>)"
    using notin by (auto simp: dist_chan_def)
  have "dist_loop m ok dn (s # subs) chans = Inr (filter ?keep (s # subs), chans')"
  proof (cases "?keep s")
    case True
    then have "(case m of None \<Rightarrow> Inr (chans ! ?i) | Some r \<Rightarrow> wch_try_send r (chans ! ?i)) = Inr ?c"
      using s(3) c by (simp add: wch_try_send_def send_to_def split: option.split)
    then show ?thesis using True ih(1) by simp
  next
    case False
    then have "close_chan (chans ! ?i) = Inr ?c" using s(3) c by (auto simp: close_chan_def)
    then show ?thesis using False ih(1) by auto
  qed
  moreover have "chans' ! i = dist_chan m ?keep (s # subs) i (chans ! i)" if "i < length chans" for i
  proof (cases "i = ?i")
    case True
    then show ?thesis using ih(3) [OF that] s(2,4) notin by (simp add: dist_chan_def)
  next
    case False
    then show ?thesis using ih(3) [OF that] by (auto simp: dist_chan_def)
  qed
  ultimately show ?case using ih(2) by blast
qed

definition wa_inv :: "watchAggregator \<Rightarrow> bool" where
  "wa_inv a \<longleftrightarrow> subs_ok (wa_subscribers a) (wa_chans a)
     \<and> (\<forall>i < length (wa_chans a). i \<notin> sub_c ` set (wa_subscribers a) \<longrightarrow> wch_closed (wa_chans a ! i))
     \<and> (\<forall>c \<in> set (wa_chans a). length (wch_buf c) \<le> aggregatorWatchBuffer)
     \<and> (wa_subscribers a \<noteq> [] \<longrightarrow> (\<exists>d. running d a)) \<and> set (wa_stopped a) \<subseteq> {..<length (wa_dists a)}"

lemma wa_inv_new: "wa_inv (newWatchAggregator wc autoWatch retry)"
  by (simp add: wa_inv_def newWatchAggregator_def subs_ok_def)

lemma wa_inv_Start: "wa_inv a \<Longrightarrow> wa_inv (wa_Start a)"
  by (simp add: wa_inv_def wa_Start_def running_def)

text \<open>What has been put on a channel so far, and what the distributing goroutines have received.\<close>

definition delivered :: "wchan \<Rightarrow> Result list" where
  "delivered c = wch_read c @ wch_buf c"

fun received :: "wa_event list \<Rightarrow> Result list" where
  "received (Receives d (Some (Some r)) # evs) = r # received evs"
| "received (ev # evs) = received evs"
| "received [] = []"

definition hist_ok :: "Result list \<Rightarrow> watchAggregator \<Rightarrow> bool" where
  "hist_ok rs a \<longleftrightarrow> (\<forall>c \<in> set (wa_chans a). subseq (delivered c) rs)"

lemma hist_ok_nth: "hist_ok rs a \<longleftrightarrow> (\<forall>i < length (wa_chans a). subseq (delivered (wa_chans a ! i)) rs)"
  by (simp add: hist_ok_def all_set_conv_all_nth)

lemma subseq_more: "subseq xs rs \<Longrightarrow> subseq xs (rs @ ys)"
  using list_emb_append_mono [of "(=)" xs rs "[]" ys] by simp

lemma hist_ok_more: "hist_ok rs a \<Longrightarrow> hist_ok (rs @ ys) a"
  by (simp add: hist_ok_def subseq_more)

lemma delivered_send_to: "subseq (delivered c) rs \<Longrightarrow> subseq (delivered (send_to m c)) (rs @ (case m of None \<Rightarrow> [] | Some r \<Rightarrow> [r]))"
  by (auto simp: delivered_def send_to_def simp flip: append_assoc split: option.split intro: subseq_more list_emb_append_mono)

lemma wa_Watch_ok:
  assumes "wa_inv a" "hist_ok rs a"
  shows "wa_inv (snd (wa_Watch ctx a)) \<and> hist_ok rs (snd (wa_Watch ctx a))"
proof
  let ?n = "length (wa_dists a)"
  have st: "?n \<notin> set (wa_stopped a)" using assms(1) by (auto simp: wa_inv_def)
  have run: "running d a \<Longrightarrow> running d (snd (wa_Watch ctx a))" for d
    by (auto simp: running_def wa_Watch_def Let_def)
  have "running ?n (snd (wa_Watch ctx a))" if "wa_subscribers a = []"
    using st that by (simp add: running_def wa_Watch_def Let_def)
  then have "\<exists>d. running d (snd (wa_Watch ctx a))" using run assms(1) unfolding wa_inv_def by blast
  then show "wa_inv (snd (wa_Watch ctx a))"
    using assms(1) by (auto simp: wa_inv_def wa_Watch_def Let_def subs_ok_def nth_append less_Suc_eq)
  show "hist_ok rs (snd (wa_Watch ctx a))" using assms(2) by (auto simp: hist_ok_def wa_Watch_def Let_def delivered_def)
qed

lemma read_chan_ok:
  assumes "wa_inv a" "hist_ok rs a" "i < length (wa_chans a)"
  shows "wa_inv (read_chan i a) \<and> hist_ok rs (read_chan i a)"
proof (cases "wch_buf (wa_chans a ! i)")
  case (Cons r buf)
  let ?c = "(wa_chans a ! i)\<lparr>wch_buf := buf, wch_read := wch_read (wa_chans a ! i) @ [r]\<rparr>"
  have mem: "wa_chans a ! i \<in> set (wa_chans a)" using assms(3) by simp
  have "length (wch_buf ?c) \<le> aggregatorWatchBuffer" "subseq (delivered ?c) rs"
    using assms(1,2) mem Cons unfolding wa_inv_def hist_ok_def by (fastforce simp: delivered_def)+
  then show ?thesis
    using assms Cons set_update_subset_insert [of "wa_chans a" i ?c]
    by (auto simp: wa_inv_def hist_ok_def read_chan_def subs_ok_def nth_list_update running_def)
qed (use assms in \<open>simp add: read_chan_def\<close>)

lemma dist_check_ok:
  assumes "wa_inv a" "hist_ok rs a" "running d a"
  shows "wa_inv (dist_check d a) \<and> hist_ok rs (dist_check d a)"
  using assms by (auto simp: wa_inv_def hist_ok_def dist_check_def running_def split: list.splits)

lemma dist_chan_ok:
  assumes "length (wch_buf c) \<le> aggregatorWatchBuffer" "subseq (delivered c) rs"
  shows "length (wch_buf (dist_chan m keep subs i c)) \<le> aggregatorWatchBuffer
       \<and> subseq (delivered (dist_chan m keep subs i c)) (rs @ (case m of None \<Rightarrow> [] | Some r \<Rightarrow> [r]))"
  using assms send_to_bound [OF assms(1)] delivered_send_to [OF assms(2)] subseq_more [OF assms(2)]
  by (simp add: dist_chan_def delivered_def)

lemma dist_rest_spec:
  assumes "wa_inv a"
  obtains chans where
    "dist_rest d m ok a = Inr (let a = a\<lparr>wa_subscribers := filter (\<lambda>s. ok \<and> sub_ctx s \<notin> set (wa_done a)) (wa_subscribers a), wa_chans := chans\<rparr>
       in if ok then a\<lparr>wa_dists := (wa_dists a)[d := Checking]\<rparr> else a\<lparr>wa_stopped := d # wa_stopped a\<rparr>)"
    "length chans = length (wa_chans a)"
    "\<And>i. i < length (wa_chans a) \<Longrightarrow>
       chans ! i = dist_chan m (\<lambda>s. ok \<and> sub_ctx s \<notin> set (wa_done a)) (wa_subscribers a) i (wa_chans a ! i)"
proof -
  have "subs_ok (wa_subscribers a) (wa_chans a)" using assms by (simp add: wa_inv_def)
  from dist_loop_spec [OF this, of m ok "wa_done a"] obtain chans where
    "dist_loop m ok (wa_done a) (wa_subscribers a) (wa_chans a) = Inr (filter (\<lambda>s. ok \<and> sub_ctx s \<notin> set (wa_done a)) (wa_subscribers a), chans)"
    "length chans = length (wa_chans a)"
    "\<forall>i < length (wa_chans a). chans ! i = dist_chan m (\<lambda>s. ok \<and> sub_ctx s \<notin> set (wa_done a)) (wa_subscribers a) i (wa_chans a ! i)" by blast
  then show thesis by (intro that [of chans]) (simp_all add: dist_rest_def Let_def)
qed

lemma dist_rest_ok:
  assumes "wa_inv a" "hist_ok rs a" "running d a"
  shows "\<exists>a'. dist_rest d m ok a = Inr a' \<and> wa_inv a' \<and> hist_ok (rs @ (case m of None \<Rightarrow> [] | Some r \<Rightarrow> [r])) a'"
proof -
  let ?keep = "\<lambda>s. ok \<and> sub_ctx s \<notin> set (wa_done a)" and ?subs = "wa_subscribers a"
  obtain chans where e: "dist_rest d m ok a = Inr (let a = a\<lparr>wa_subscribers := filter ?keep ?subs, wa_chans := chans\<rparr>
       in if ok then a\<lparr>wa_dists := (wa_dists a)[d := Checking]\<rparr> else a\<lparr>wa_stopped := d # wa_stopped a\<rparr>)" (is "_ = Inr ?a'")
    and len: "length chans = length (wa_chans a)"
    and nth: "\<And>i. i < length (wa_chans a) \<Longrightarrow> chans ! i = dist_chan m ?keep ?subs i (wa_chans a ! i)"
    using dist_rest_spec [OF assms(1)] by blast
  have ok: "length (wch_buf (chans ! i)) \<le> aggregatorWatchBuffer \<and> subseq (delivered (chans ! i)) (rs @ (case m of None \<Rightarrow> [] | Some r \<Rightarrow> [r]))"
    if "i < length chans" for i
    using that nth [of i] len dist_chan_ok [of "wa_chans a ! i" rs m ?keep ?subs i] assms(1,2) by (simp add: wa_inv_def hist_ok_def)
  have subs: "subs_ok (filter ?keep ?subs) chans"
    using assms(1) len nth by (auto simp: wa_inv_def subs_ok_def distinct_map_filter dist_chan_def)
  have rest: "wch_closed (chans ! i)" if "i < length chans" "i \<notin> sub_c ` set (filter ?keep ?subs)" for i
    using that assms(1) len nth [of i] by (auto simp: wa_inv_def dist_chan_def)
  have "wa_inv ?a'"
    using assms(1,3) ok subs rest unfolding wa_inv_def running_def
    by (cases ok) (auto simp: Let_def in_set_conv_nth)
  moreover have "hist_ok (rs @ (case m of None \<Rightarrow> [] | Some r \<Rightarrow> [r])) ?a'"
    using ok by (simp add: hist_ok_nth Let_def)
  ultimately show ?thesis using e by blast
qed

text \<open>Steps that change none of what the invariant is about.\<close>

definition same_core :: "watchAggregator \<Rightarrow> watchAggregator \<Rightarrow> bool" where
  "same_core a a' \<longleftrightarrow> wa_subscribers a' = wa_subscribers a \<and> wa_chans a' = wa_chans a \<and> wa_dists a' = wa_dists a \<and> wa_stopped a' = wa_stopped a"

lemma same_core_ok: "same_core a a' \<Longrightarrow> wa_inv a \<and> hist_ok rs a \<Longrightarrow> wa_inv a' \<and> hist_ok rs a'"
  by (simp add: same_core_def wa_inv_def hist_ok_def running_def)

lemma same_core_refl [simp]: "same_core a a"
  by (simp add: same_core_def)

lemma same_core_passive: "same_core a (passiveWatch a)" "same_core a (auto_ended a)" "same_core a (auto_done a)"
  by (simp_all add: same_core_def passiveWatch_def auto_ended_def auto_done_def split: auto_phase.split)

lemma auto_top_ok:
  assumes "wa_inv a" "hist_ok rs a"
  shows "wa_inv (auto_top a) \<and> hist_ok rs (auto_top a)"
proof (cases "wa_autoWatch a")
  case True
  have "same_core (snd (wa_Watch AutoCtx a)) (auto_top a)" using True by (simp add: auto_top_def same_core_def split_beta)
  then show ?thesis using wa_Watch_ok [OF assms] by (rule same_core_ok)
next
  case False
  then have "same_core a (auto_top a)" using same_core_passive(1) [of a] by (simp add: auto_top_def same_core_def)
  then show ?thesis by (rule same_core_ok) (use assms in simp)
qed

text \<open>The channel that the auto watch reads is one that it was given.\<close>

definition auto_reads_ok :: "watchAggregator \<Rightarrow> bool" where
  "auto_reads_ok a \<longleftrightarrow> (\<forall>i. wa_auto a = AutoReads i \<longrightarrow> i < length (wa_chans a))"

lemma auto_read_ok:
  assumes "wa_inv a" "hist_ok rs a" "auto_reads_ok a"
  shows "wa_inv (auto_read a) \<and> hist_ok rs (auto_read a)"
proof -
  have "same_core a (auto_read a) \<or> (\<exists>i. wa_auto a = AutoReads i \<and> auto_read a = read_chan i a)"
    using same_core_passive(2) [of a] by (auto simp: auto_read_def split: auto_phase.splits)
  then show ?thesis
    using same_core_ok [of a "auto_read a" rs] read_chan_ok [OF assms(1,2)] assms by (auto simp: auto_reads_ok_def)
qed

lemma wa_step_reads_ok:
  assumes "wa_inv a" "auto_reads_ok a" "wa_step ev a = Inr a'"
  shows "auto_reads_ok a'"
proof (cases ev)
  case AutoTurn
  then show ?thesis
    using assms by (auto simp: auto_top_def auto_reads_ok_def wa_Watch_def passiveWatch_def Let_def split: if_splits)
next
  case AutoRead
  then show ?thesis
    using assms by (auto simp: auto_read_def auto_reads_ok_def read_chan_def auto_ended_def split: auto_phase.splits if_splits list.splits)
next
  case (Receives d m)
  have "dist_rest d x ok a = Inr a' \<Longrightarrow> auto_reads_ok a'" for x ok
    by (rule dist_rest_spec [OF assms(1), of d x ok]) (use assms(2) in \<open>auto simp: auto_reads_ok_def Let_def split: if_splits\<close>)
  then show ?thesis using assms(2,3) Receives by (auto split: if_splits option.splits)
next
  case (SeesDone d)
  have "dist_rest d x ok a = Inr a' \<Longrightarrow> auto_reads_ok a'" for x ok
    by (rule dist_rest_spec [OF assms(1), of d x ok]) (use assms(2) in \<open>auto simp: auto_reads_ok_def Let_def split: if_splits\<close>)
  then show ?thesis using assms(2,3) SeesDone by (auto split: if_splits)
qed (use assms in \<open>auto simp: auto_reads_ok_def wa_Watch_def Let_def read_chan_def dist_check_def auto_done_def
      split: list.splits if_splits auto_phase.splits\<close>)

lemma wa_step_ok:
  assumes "wa_inv a" "hist_ok rs a" "auto_reads_ok a"
  shows "\<exists>a'. wa_step ev a = Inr a' \<and> wa_inv a' \<and> hist_ok (rs @ received [ev]) a'"
proof -
  have ok: "wa_inv a \<and> hist_ok rs a" using assms by simp
  have core: ?thesis if "wa_step ev a = Inr a'" "same_core a a'" "received [ev] = []" for a'
    using that same_core_ok [OF that(2) ok] by simp
  show ?thesis
  proof (cases ev)
    case (Receives d m)
    show ?thesis
    proof (cases "\<exists>r. m = Some (Some r)")
      case True
      then obtain r where "m = Some (Some r)" by blast
      then show ?thesis using Receives ok hist_ok_more [OF assms(2)] dist_rest_ok [OF assms(1,2), of d "Some r" True] by simp
    next
      case False
      then have "m = None \<or> m = Some None" by (metis not_None_eq)
      then show ?thesis
        using Receives ok dist_rest_ok [OF assms(1,2), of d None False] dist_rest_ok [OF assms(1,2), of d None True] by auto
    qed
  next
    case (SeesDone d)
    then show ?thesis using ok dist_rest_ok [OF assms(1,2), of d None False] by simp
  next
    case (CallWatch n)
    then show ?thesis using wa_Watch_ok [OF assms(1,2)] by simp
  next
    case (Reads i)
    then show ?thesis using ok read_chan_ok [OF assms(1,2)] by simp
  next
    case (Check d)
    then show ?thesis using ok dist_check_ok [OF assms(1,2)] by simp
  next
    case AutoTurn
    then show ?thesis using ok auto_top_ok [OF assms(1,2)] by simp
  next
    case AutoRead
    then show ?thesis using auto_read_ok [OF assms] by simp
  next
    case AutoDone
    then show ?thesis using core [of "auto_done a"] same_core_passive(3) by simp
  next
    case (Cancel n)
    then show ?thesis using core [of "a\<lparr>wa_done := UserCtx n # wa_done a\<rparr>"] by (simp add: same_core_def)
  next
    case AutoFires
    then show ?thesis using core [of "if wa_auto a = AutoTimer then a\<lparr>wa_auto := AutoTop\<rparr> else a"] by (simp add: same_core_def)
  next
    case PassiveEnds
    then show ?thesis using core [of "if wa_sink a then a\<lparr>wa_sink := False, wa_wcClosed := True\<rparr> else a"] by (simp add: same_core_def)
  next
    case Closes
    then show ?thesis
      using core [of "if wa_autoWatch a \<or> wa_passiveClient a then a\<lparr>wa_done := AutoCtx # wa_done a\<rparr> else a"] by (simp add: same_core_def)
  qed
qed

lemma wa_run_ok:
  assumes "wa_inv a" "hist_ok rs a" "auto_reads_ok a"
  shows "\<exists>a'. wa_run evs a = Inr a' \<and> wa_inv a' \<and> hist_ok (rs @ received evs) a'"
  using assms
proof (induction evs arbitrary: a rs)
  case (Cons ev evs)
  obtain a1 where a1: "wa_step ev a = Inr a1" "wa_inv a1" "hist_ok (rs @ received [ev]) a1" using wa_step_ok [OF Cons.prems] by blast
  have "received (ev # evs) = received [ev] @ received evs" by (cases "(ev # evs)" rule: received.cases) auto
  then show ?case using Cons.IH [OF a1(2,3) wa_step_reads_ok [OF Cons.prems(1,3) a1(1)]] a1(1) by simp
qed simp

definition wa_init :: "bool \<Rightarrow> bool \<Rightarrow> int \<Rightarrow> watchAggregator" where
  "wa_init wc autoWatch retry = wa_Start (newWatchAggregator wc autoWatch retry)"

lemma wa_init_ok: "wa_inv (wa_init wc autoWatch retry)" "hist_ok [] (wa_init wc autoWatch retry)" "auto_reads_ok (wa_init wc autoWatch retry)"
  unfolding wa_init_def by (rule wa_inv_Start [OF wa_inv_new])
    (simp_all add: hist_ok_def auto_reads_ok_def wa_Start_def newWatchAggregator_def)

lemma wa_run_init: "wa_run evs (wa_init wc autoWatch retry) = Inr a \<Longrightarrow> wa_inv a \<and> hist_ok (received evs) a"
  using wa_run_ok [OF wa_init_ok, of evs wc autoWatch retry] by auto

section \<open>Properties\<close>

text \<open>
  C20. The watch aggregator is safe under every interleaving of its callers and goroutines: no send on
  a closed channel and no second close ever happens, a channel is open exactly as long as it is
  subscribed, its buffer never exceeds its size, what it carries is a subsequence of what came from
  the source, and as long as there is a subscriber some goroutine distributes to it.
\<close>

theorem aggregator_is_safe:
  "\<exists>a. wa_run evs (wa_Start (newWatchAggregator wc autoWatch retry)) = Inr a
     \<and> (\<forall>i < length (wa_chans a). subseq (delivered (wa_chans a ! i)) (received evs) \<and> length (wch_buf (wa_chans a ! i)) \<le> 5
          \<and> (wch_closed (wa_chans a ! i) \<longleftrightarrow> i \<notin> sub_c ` set (wa_subscribers a)))
     \<and> (wa_subscribers a = [] \<or> (\<exists>d. running d a))"
proof -
  obtain a where a: "wa_run evs (wa_init wc autoWatch retry) = Inr a" "wa_inv a" "hist_ok (received evs) a"
    using wa_run_ok [OF wa_init_ok, of evs wc autoWatch retry] by auto
  have "wch_closed (wa_chans a ! i) \<longleftrightarrow> i \<notin> sub_c ` set (wa_subscribers a)" if "i < length (wa_chans a)" for i
    using a(2) that by (auto simp: wa_inv_def subs_ok_def)
  then show ?thesis
    using a by (auto simp: wa_init_def wa_inv_def hist_ok_nth aggregatorWatchBuffer_def)
qed

theorem aggregator_is_safe_witness:
  "\<exists>a. wa_run [CallWatch 0] (wa_Start (newWatchAggregator False False 0)) = Inr a
     \<and> (\<forall>i < length (wa_chans a). subseq (delivered (wa_chans a ! i)) [] \<and> (wch_closed (wa_chans a ! i) \<longleftrightarrow> i \<notin> sub_c ` set (wa_subscribers a)))"
  using aggregator_is_safe [of "[CallWatch 0]" False False 0] by auto

text \<open>
  A result that arrives reaches every subscriber whose context is going on, unless its channel is full;
  the channels of the others are closed.
\<close>

lemma aggregator_distributes:
  assumes "wa_run evs (wa_init wc autoWatch retry) = Inr a" "running d a" "wa_dists a ! d \<noteq> Checking" "s \<in> set (wa_subscribers a)"
  shows "\<exists>a'. wa_step (Receives d (Some (Some r))) a = Inr a'
    \<and> (if sub_ctx s \<in> set (wa_done a) then s \<notin> set (wa_subscribers a') \<and> wch_closed (wa_chans a' ! sub_c s)
       else s \<in> set (wa_subscribers a') \<and> (length (wch_buf (wa_chans a ! sub_c s)) < 5 \<longrightarrow>
              wch_buf (wa_chans a' ! sub_c s) = wch_buf (wa_chans a ! sub_c s) @ [r]))"
proof -
  let ?keep = "\<lambda>s. True \<and> sub_ctx s \<notin> set (wa_done a)"
  have inv: "wa_inv a" using wa_run_init [OF assms(1)] by simp
  then have lt: "sub_c s < length (wa_chans a)" and dis: "distinct (map sub_c (wa_subscribers a))"
    using assms(4) by (auto simp: wa_inv_def subs_ok_def)
  have kept: "sub_c s \<in> sub_c ` {t \<in> set (wa_subscribers a). ?keep t} \<longleftrightarrow> ?keep s"
    using dis assms(4) by (auto simp: distinct_map inj_on_def)
  obtain chans where e: "dist_rest d (Some r) True a = Inr (let a = a\<lparr>wa_subscribers := filter ?keep (wa_subscribers a), wa_chans := chans\<rparr>
       in if True then a\<lparr>wa_dists := (wa_dists a)[d := Checking]\<rparr> else a\<lparr>wa_stopped := d # wa_stopped a\<rparr>)"
    "chans ! sub_c s = dist_chan (Some r) ?keep (wa_subscribers a) (sub_c s) (wa_chans a ! sub_c s)"
    using dist_rest_spec [OF inv, of d "Some r" True] lt by metis
  then show ?thesis
    using assms(2-4) kept by (auto simp: dist_chan_def send_to_def aggregatorWatchBuffer_def)
qed

text \<open>
  C38. When the subscriber that was first cancels its context, every other subscriber is cut off as
  well: the goroutine that waits for the source also waits for that one context, and when it is
  done it takes this for the end of the stream, closes all channels and returns.
\<close>

theorem first_subscriber_ends_all:
  assumes "wa_run evs (wa_Start (newWatchAggregator wc autoWatch retry)) = Inr a"
    and "running d a" "wa_dists a ! d = Selecting ctx" "ctx \<in> set (wa_done a)"
  shows "\<exists>a'. wa_step (SeesDone d) a = Inr a' \<and> wa_subscribers a' = [] \<and> (\<forall>c \<in> set (wa_chans a'). wch_closed c) \<and> wa_done a' = wa_done a"
proof -
  have inv: "wa_inv a" "hist_ok (received evs) a" using wa_run_init assms(1) by (auto simp: wa_init_def)
  obtain a' where a': "dist_rest d None False a = Inr a'" "wa_inv a'" using dist_rest_ok [OF inv assms(2)] by blast
  have "wa_subscribers a' = [] \<and> wa_done a' = wa_done a"
    by (rule dist_rest_spec [OF inv(1), of d None False]) (use a'(1) in \<open>auto simp: Let_def\<close>)
  moreover from this have "\<forall>c \<in> set (wa_chans a'). wch_closed c" using a'(2) by (auto simp: wa_inv_def all_set_conv_all_nth)
  ultimately show ?thesis using a' assms(2-4) by auto
qed

theorem first_subscriber_ends_all_witness:
  "\<exists>a a'. wa_run [CallWatch 0, CallWatch 1, Check 0, Cancel 0] (wa_Start (newWatchAggregator False False 0)) = Inr a
     \<and> wa_step (SeesDone 0) a = Inr a' \<and> UserCtx 1 \<notin> set (wa_done a') \<and> length (wa_subscribers a) = 2 \<and> wa_subscribers a' = []"
proof -
  let ?evs = "[CallWatch 0, CallWatch 1, Check 0, Cancel 0]"
  obtain a where a: "wa_run ?evs (wa_Start (newWatchAggregator False False 0)) = Inr a" "running 0 a" "wa_dists a ! 0 = Selecting (UserCtx 0)"
      "UserCtx 0 \<in> set (wa_done a)" "length (wa_subscribers a) = 2" "UserCtx 1 \<notin> set (wa_done a)"
    by (simp add: wa_Start_def newWatchAggregator_def wa_Watch_def dist_check_def running_def)
  then show ?thesis using first_subscriber_ends_all [OF a(1-4)] by auto
qed

text \<open>
  Two distributors: when the last subscriber has gone, the goroutine that served it may find a
  new one at its next check, for whom \<open>Watch\<close> has already started a second watch of the source.
  From then on both distribute, and the new subscriber gets every result twice.
\<close>

lemma new_subscriber_may_get_results_twice:
  "\<exists>a. wa_run [CallWatch 0, Check 0, Cancel 0, Receives 0 (Some (Some q)), CallWatch 1, Check 0, Check 1,
             Receives 0 (Some (Some r)), Receives 1 (Some (Some r))] (wa_Start (newWatchAggregator False False retry)) = Inr a
     \<and> running 0 a \<and> running 1 a \<and> wa_subscribers a = [\<lparr>sub_ctx = UserCtx 1, sub_c = 1\<rparr>]
     \<and> wch_buf (wa_chans a ! 1) = [r, r]"
  by (simp add: wa_Start_def newWatchAggregator_def wa_Watch_def dist_check_def running_def dist_rest_def wch_try_send_def
      close_chan_def aggregatorWatchBuffer_def)

text \<open>The auto watch that reads a nil channel does so until the client is closed.\<close>

lemma AutoNil_step:
  assumes "wa_step ev a = Inr a'" "wa_auto a = AutoNil" "AutoCtx \<notin> set (wa_done a)" "\<not> wa_sink a" "ev \<noteq> Closes" "wa_inv a"
  shows "wa_auto a' = AutoNil \<and> AutoCtx \<notin> set (wa_done a') \<and> \<not> wa_sink a'"
proof -
  have rest: "dist_rest d x ok a = Inr a' \<Longrightarrow> ?thesis" for d x ok
    by (rule dist_rest_spec [OF assms(6), of d x ok]) (use assms(2-4) in \<open>auto simp: Let_def split: if_splits\<close>)
  show ?thesis
  proof (cases ev)
    case (Receives d m)
    then show ?thesis using assms(1-4) rest by (auto split: if_splits option.splits)
  next
    case (SeesDone d)
    then show ?thesis using assms(1-4) rest by (auto split: if_splits)
  qed (use assms(1-5) in \<open>auto simp: wa_Watch_def Let_def read_chan_def dist_check_def auto_read_def auto_done_def split: list.splits if_splits\<close>)
qed

lemma AutoNil_run:
  assumes "wa_auto a = AutoNil" "AutoCtx \<notin> set (wa_done a)" "\<not> wa_sink a" "Closes \<notin> set evs" "wa_inv a" "hist_ok rs a" "auto_reads_ok a"
  shows "\<exists>a'. wa_run evs a = Inr a' \<and> wa_auto a' = AutoNil \<and> \<not> wa_sink a'"
  using assms
proof (induction evs arbitrary: a rs)
  case (Cons ev evs)
  obtain a1 where a1: "wa_step ev a = Inr a1" "wa_inv a1" "hist_ok (rs @ received [ev]) a1" using wa_step_ok [OF Cons.prems(5-7)] by blast
  have nil: "wa_auto a1 = AutoNil \<and> AutoCtx \<notin> set (wa_done a1) \<and> \<not> wa_sink a1"
    using AutoNil_step [OF a1(1) Cons.prems(1-3)] Cons.prems(4,5) by auto
  show ?case using Cons.IH [OF _ _ _ _ a1(2,3) wa_step_reads_ok [OF Cons.prems(5,7) a1(1)]] nil a1(1) Cons.prems(4) by simp
qed simp

lemma wa_run_append: "wa_run (xs @ ys) a = (case wa_run xs a of Inl e \<Rightarrow> Inl e | Inr a \<Rightarrow> wa_run ys a)"
  by (induction xs arbitrary: a) (simp_all split: sum.split)

text \<open>
  The passive watch is not taken up again: when the stream of the passive source ends by itself, the
  auto watch waits for its retry interval and asks for another passive watch, which is refused because
  the first was never cancelled. It then reads a nil channel, and whatever happens until the
  client is closed, the passive source is not watched any more.
\<close>

lemma passive_watch_is_not_reopened:
  assumes "0 \<le> retry" "Closes \<notin> set evs"
  shows "\<exists>a. wa_run ([AutoTurn, PassiveEnds, AutoRead, AutoFires, AutoTurn] @ evs) (wa_Start (newWatchAggregator True False retry)) = Inr a
     \<and> wa_auto a = AutoNil \<and> \<not> wa_sink a"
proof -
  let ?pre = "[AutoTurn, PassiveEnds, AutoRead, AutoFires, AutoTurn]"
  have "\<exists>a. wa_run ?pre (wa_init True False retry) = Inr a \<and> wa_auto a = AutoNil \<and> AutoCtx \<notin> set (wa_done a) \<and> \<not> wa_sink a \<and> auto_reads_ok a"
    using assms(1) by (simp add: wa_init_def wa_Start_def newWatchAggregator_def auto_top_def passiveWatch_def auto_read_def auto_ended_def
        defaultAutoWatchRetry_def Second_def auto_reads_ok_def)
  then obtain a where a: "wa_run ?pre (wa_init True False retry) = Inr a" "wa_auto a = AutoNil" "AutoCtx \<notin> set (wa_done a)" "\<not> wa_sink a"
    "auto_reads_ok a" by blast
  show ?thesis
    using AutoNil_run [OF a(2-4) assms(2) _ _ a(5)] wa_run_init [OF a(1)] a(1) unfolding wa_run_append wa_init_def by auto
qed

lemma passive_watch_is_not_reopened_example:
  "\<exists>a. wa_run [AutoTurn, PassiveEnds, AutoRead, AutoFires, AutoTurn, CallWatch 0, AutoFires, AutoTurn]
        (wa_Start (newWatchAggregator True False 0)) = Inr a \<and> wa_auto a = AutoNil \<and> \<not> wa_sink a"
  using passive_watch_is_not_reopened [of 0 "[CallWatch 0, AutoFires, AutoTurn]"] by simp

section \<open>The polling watcher\<close>

text \<open>The gets of the goroutine, one per entry of the list of times; a failed one is left out.\<close>

fun poll_loop :: "(int \<Rightarrow> uint64 \<Rightarrow> Result result) \<Rightarrow> (int \<Rightarrow> uint64) \<Rightarrow> int list \<Rightarrow> Result list" where
  "poll_loop get roundAt [] = []"
| "poll_loop get roundAt (now # ts) =
     (case get now (roundAt now) of Inl _ \<Rightarrow> poll_loop get roundAt ts | Inr r \<Rightarrow> r # poll_loop get roundAt ts)"

text \<open>How long it waits before the first of them, in nanoseconds; \<open>now\<close> is the time in seconds.\<close>

definition poll_wait :: "(float64 \<Rightarrow> uint64) \<Rightarrow> 'p Info \<Rightarrow> int \<Rightarrow> int" where
  "poll_wait impl info now =
     (let (_, nextTime) = NextRound impl now (inf_Period info) (inf_GenesisTime info) in wrap64 (wrap64 (nextTime - now) * Second))"

text \<open>
  The results on the channel. \<open>get\<close> gives what the source answers at a time, and \<open>ts\<close> are the
  times of the gets after the first, until the context is done.
\<close>

definition PollingWatcher :: "(int \<Rightarrow> uint64 \<Rightarrow> Result result) \<Rightarrow> (int \<Rightarrow> uint64) \<Rightarrow> int \<Rightarrow> int list \<Rightarrow> Result list" where
  "PollingWatcher get roundAt now ts =
     (case get now (roundAt now) of Inl _ \<Rightarrow> [] | Inr val \<Rightarrow> val # poll_loop get roundAt ts)"

text \<open>The times of the gets when every timer fires on time: after the first wait, then once per period.\<close>

definition poll_times :: "(float64 \<Rightarrow> uint64) \<Rightarrow> 'p Info \<Rightarrow> int \<Rightarrow> nat \<Rightarrow> int list" where
  "poll_times impl info now n =
     map (\<lambda>k. now + poll_wait impl info now div Second + int k * (inf_Period info div Second)) [0..<n]"

lemma poll_wait_whole:
  assumes "period_ok P" "genesis_ok g" "g \<le> now" "now - g < 2 ^ 53" "inf_Period i = P * Second" "inf_GenesisTime i = g"
  shows "poll_wait impl i now = (P - (now - g) mod P) * Second"
proof -
  have P: "1 \<le> P" "P < 2 ^ 32" using assms(1) by (simp_all add: period_ok_def)
  have e: "g + ((now - g) div P + 1) * P - now = P - (now - g) mod P"
    by (simp add: algebra_simps minus_mult_div_eq_mod [symmetric])
  have m: "0 \<le> (now - g) mod P" "(now - g) mod P < P" using P by simp_all
  have "wrap64 (P - (now - g) mod P) = P - (now - g) mod P" "wrap64 ((P - (now - g) mod P) * Second) = (P - (now - g) mod P) * Second"
    using P m by (simp_all add: is_int64_def Second_def)
  then show ?thesis using assms by (simp add: poll_wait_def NextRound_whole e)
qed

lemma poll_time_round:
  assumes "period_ok P" "genesis_ok g" "g \<le> now" "now - g + (int k + 1) * P < 2 ^ 53" "inf_Period i = P * Second" "inf_GenesisTime i = g"
  shows "CurrentRound impl (now + poll_wait impl i now div Second + int k * P) (P * Second) g
       = CurrentRound impl now (P * Second) g + of_nat (Suc k)"
proof -
  have P: "1 \<le> P" using assms(1) by (simp add: period_ok_def)
  define q where "q = (now - g) div P"
  have kP: "0 \<le> int k * P" using P by simp
  have "(int k + 1) * P = int k * P + P" by (simp add: algebra_simps)
  then have lt: "now - g < 2 ^ 53" using assms(4) P kP by linarith
  have w: "poll_wait impl i now div Second = P - (now - g) mod P"
    using poll_wait_whole [OF assms(1-3) lt assms(5,6)] by (simp add: Second_def)
  have t: "now + (P - (now - g) mod P) + int k * P - g = (q + 1 + int k) * P"
    by (simp add: q_def algebra_simps minus_mult_div_eq_mod [symmetric])
  have "(q + 1 + int k) * P \<le> now - g + (int k + 1) * P"
    using P by (simp add: q_def algebra_simps minus_mod_eq_mult_div [symmetric])
  moreover have "0 \<le> q" using assms(3) P by (simp add: q_def pos_imp_zdiv_nonneg_iff)
  ultimately have "0 \<le> (q + 1 + int k) * P" "(q + 1 + int k) * P < 2 ^ 53" using P assms(4) by simp_all
  moreover from this have "g \<le> now + (P - (now - g) mod P) + int k * P" using t by linarith
  ultimately have "CurrentRound impl (now + (P - (now - g) mod P) + int k * P) (P * Second) g = to_uint64 (q + 1 + int k + 1)"
    using P by (subst CurrentRound_whole [OF assms(1,2)]) (simp_all only: t, simp_all)
  then show ?thesis
    unfolding w CurrentRound_whole [OF assms(1-3) lt] by (simp add: q_def to_uint64_def algebra_simps)
qed

text \<open>
  A watcher that polls a source misses no round: with timers that fire on time and a source that has
  every round it is asked for, the results are the current round and then every later round, each
  once and in order.
\<close>

lemma polling_yields_every_round:
  assumes "period_ok P" "genesis_ok g" "g \<le> now" "now - g + (int n + 1) * P < 2 ^ 53" "inf_Period i = P * Second" "inf_GenesisTime i = g"
    and "\<forall>t rnd. \<exists>r. get t rnd = Inr r \<and> res_Round r = rnd"
  shows "map res_Round (PollingWatcher get (\<lambda>t. CurrentRound impl t (inf_Period i) (inf_GenesisTime i)) now (poll_times impl i now n))
       = map (\<lambda>k. CurrentRound impl now (inf_Period i) (inf_GenesisTime i) + of_nat k) [0..<Suc n]"
proof -
  let ?at = "\<lambda>t. CurrentRound impl t (P * Second) g"
  have loop: "map res_Round (poll_loop get ?at ts) = map ?at ts" for ts
  proof (induction ts)
    case (Cons t ts)
    obtain r where "get t (?at t) = Inr r" "res_Round r = ?at t" using assms(7) by blast
    then show ?case using Cons by simp
  qed simp
  obtain r0 where r0: "get now (?at now) = Inr r0" "res_Round r0 = ?at now" using assms(7) by blast
  have "?at (now + poll_wait impl i now div Second + int k * P) = ?at now + of_nat (Suc k)" if "k < n" for k
  proof (rule poll_time_round [OF assms(1-3) _ assms(5,6)])
    have "(int k + 1) * P \<le> (int n + 1) * P" using that assms(1) by (intro mult_right_mono) (simp_all add: period_ok_def)
    then show "now - g + (int k + 1) * P < 2 ^ 53" using assms(4) by simp
  qed
  then have "map ?at (poll_times impl i now n) = map (\<lambda>k. ?at now + of_nat (Suc k)) [0..<n]"
    unfolding poll_times_def assms(5) by (simp add: Second_def)
  then have "map res_Round (PollingWatcher get ?at now (poll_times impl i now n)) = ?at now # map (\<lambda>k. ?at now + of_nat (Suc k)) [0..<n]"
    using r0 by (simp add: PollingWatcher_def loop)
  also have "\<dots> = map (\<lambda>k. ?at now + of_nat k) [0..<Suc n]"
    by (simp add: map_upt_Suc del: upt_Suc)
  finally show ?thesis using assms(5,6) by simp
qed

lemma polling_yields_every_round_example:
  "map res_Round (PollingWatcher (\<lambda>_ rnd. Inr (OtherResult rnd [] [] None)) (\<lambda>t. CurrentRound (\<lambda>_. 0) t (30 * Second) 1595431050)
        1595431120 (poll_times (\<lambda>_. 0) (example_info\<lparr>inf_GenesisTime := 1595431050\<rparr>) 1595431120 2))
   = map (\<lambda>k. CurrentRound (\<lambda>_. 0) 1595431120 (30 * Second) 1595431050 + of_nat k) [0..<3]"
  using polling_yields_every_round [of 30 1595431050 1595431120 2 "example_info\<lparr>inf_GenesisTime := 1595431050\<rparr>"
      "\<lambda>_ rnd. Inr (OtherResult rnd [] [] None)" "\<lambda>_. 0"]
  by (simp add: period_ok_def genesis_ok_def example_info_def numeral_3_eq_3 del: upt_Suc)

end
