(* ===== verification/Client_Build.thy ===== *)
theory Client_Build
  imports Client_Optimizing Client_Aggregate Drand_Public
begin

text \<open>
  \<open>src/client/client.go\<close>: the options of a client and how its layers are put together; \<open>src/client/http/http.go\<close>
  and \<open>src/client/grpc/client.go\<close>: the sources that ask a relay or a node; \<open>src/core/drand_proxy.go\<close>: the
  source that asks the daemon itself.

  What a server answers is a parameter, as are the JSON codec and the context of a call. Loggers and
  the instrumentation of the transport are left out.
\<close>

section \<open>Options\<close>

text \<open>
  A source of type \<open>'c\<close>, or the client made around a watcher of type \<open>'w\<close>, which has no randomness but the
  chain information. \<open>cc_watcher\<close> makes a watcher from the information, which may be nil.
\<close>

datatype ('c, 'w, 'p) source = Source 'c | WatcherClient "'p Info option" 'w

record ('c, 'w, 'p) clientConfig =
  cc_clients :: "('c, 'w, 'p) source list"
  cc_watcher :: "('p Info option \<Rightarrow> 'w result) option"
  cc_chainHash :: "bytes option"
  cc_chainInfo :: "'p Info option"
  cc_previousResult :: "Result option"
  cc_fullVerify :: bool
  cc_insecure :: bool
  cc_cacheSize :: int
  cc_autoWatch :: bool
  cc_autoWatchRetry :: int
  cc_prometheus :: bool

type_synonym ('c, 'w, 'p) client_option = "('c, 'w, 'p) clientConfig \<Rightarrow> ('c, 'w, 'p) clientConfig result"

definition From :: "('c, 'w, 'p) source list \<Rightarrow> ('c, 'w, 'p) client_option" where
  "From c cfg = Inr (cfg\<lparr>cc_clients := c\<rparr>)"

definition Insecurely :: "('c, 'w, 'p) client_option" where
  "Insecurely cfg = Inr (cfg\<lparr>cc_insecure := True\<rparr>)"

definition WithCacheSize :: "int \<Rightarrow> ('c, 'w, 'p) client_option" where
  "WithCacheSize n cfg = Inr (cfg\<lparr>cc_cacheSize := n\<rparr>)"

text \<open>A nil slice compares equal to an empty one.\<close>

definition WithChainHash :: "(float64 \<Rightarrow> uint32) \<Rightarrow> ('p, 's) suite \<Rightarrow> bytes option \<Rightarrow> ('c, 'w, 'p) client_option" where
  "WithChainHash impl S chainHash cfg =
     (case cc_chainInfo cfg of
        Some i \<Rightarrow>
          if Info_Hash impl S i \<noteq> (case chainHash of None \<Rightarrow> [] | Some h \<Rightarrow> h)
          then Inl (Err ''refusing to override group with non-matching hash'') else Inr (cfg\<lparr>cc_chainHash := chainHash\<rparr>)
      | None \<Rightarrow> Inr (cfg\<lparr>cc_chainHash := chainHash\<rparr>))"

definition WithChainInfo :: "(float64 \<Rightarrow> uint32) \<Rightarrow> ('p, 's) suite \<Rightarrow> 'p Info option \<Rightarrow> ('c, 'w, 'p) client_option" where
  "WithChainInfo impl S chainInfo cfg =
     (case cc_chainHash cfg of
        Some h \<Rightarrow>
          (case chainInfo of
             None \<Rightarrow> Inl (Panic ''nil pointer dereference'')
           | Some i \<Rightarrow>
               if h \<noteq> Info_Hash impl S i then Inl (Err ''refusing to override hash with non-matching group'')
               else Inr (cfg\<lparr>cc_chainInfo := chainInfo\<rparr>))
      | None \<Rightarrow> Inr (cfg\<lparr>cc_chainInfo := chainInfo\<rparr>))"

definition WithVerifiedResult :: "Result \<Rightarrow> ('c, 'w, 'p) client_option" where
  "WithVerifiedResult result cfg =
     (case cc_previousResult cfg of
        Some p \<Rightarrow>
          if res_Round result < res_Round p then Inl (Err ''refusing to override verified result with an earlier result'')
          else Inr (cfg\<lparr>cc_previousResult := Some result\<rparr>)
      | None \<Rightarrow> Inr (cfg\<lparr>cc_previousResult := Some result\<rparr>))"

definition WithFullChainVerification :: "('c, 'w, 'p) client_option" where
  "WithFullChainVerification cfg = Inr (cfg\<lparr>cc_fullVerify := True\<rparr>)"

definition WithWatcher :: "('p Info option \<Rightarrow> 'w result) \<Rightarrow> ('c, 'w, 'p) client_option" where
  "WithWatcher wc cfg = Inr (cfg\<lparr>cc_watcher := Some wc\<rparr>)"

definition WithAutoWatch :: "('c, 'w, 'p) client_option" where
  "WithAutoWatch cfg = Inr (cfg\<lparr>cc_autoWatch := True\<rparr>)"

definition WithAutoWatchRetry :: "int \<Rightarrow> ('c, 'w, 'p) client_option" where
  "WithAutoWatchRetry interval cfg = Inr (cfg\<lparr>cc_autoWatchRetry := interval\<rparr>)"

definition WithPrometheus :: "('c, 'w, 'p) client_option" where
  "WithPrometheus cfg = Inr (cfg\<lparr>cc_prometheus := True\<rparr>)"

section \<open>Putting a client together\<close>

text \<open>
  \<open>ask\<close> gives what a source answers to \<open>Info\<close> and the error of the context of the call after that.
\<close>

fun populate :: "(('c, 'w, 'p) source \<Rightarrow> 'p Info result \<times> error option) \<Rightarrow> ('c, 'w, 'p) source list \<Rightarrow> error option \<Rightarrow> error option \<times> 'p Info option" where
  "populate ask [] err = (err, None)"
| "populate ask (cli # clients) err =
     (case ask cli of
        (Inr i, _) \<Rightarrow> (None, Some i)
      | (Inl e, Some ctx_err) \<Rightarrow> (Some ctx_err, None)
      | (Inl e, None) \<Rightarrow> populate ask clients (Some e))"

definition tryPopulateInfo ::
  "(('c, 'w, 'p) source \<Rightarrow> 'p Info result \<times> error option) \<Rightarrow> ('c, 'w, 'p) source list \<Rightarrow> ('c, 'w, 'p) clientConfig
    \<Rightarrow> error option \<times> ('c, 'w, 'p) clientConfig" where
  "tryPopulateInfo ask clients cfg =
     (case cc_chainInfo cfg of
        Some _ \<Rightarrow> (None, cfg)
      | None \<Rightarrow> let (err, info) = populate ask clients None in (err, cfg\<lparr>cc_chainInfo := info\<rparr>))"

definition makeWatcherClient ::
  "(('c, 'w, 'p) source \<Rightarrow> 'p Info result \<times> error option) \<Rightarrow> ('p Info option \<Rightarrow> 'w result) \<Rightarrow> ('c, 'w, 'p) clientConfig
    \<Rightarrow> (('c, 'w, 'p) source \<times> ('c, 'w, 'p) clientConfig) result" where
  "makeWatcherClient ask watcher cfg =
     (case tryPopulateInfo ask (cc_clients cfg) cfg of
        (Some e, _) \<Rightarrow> Inl e
      | (None, cfg) \<Rightarrow>
          (case watcher (cc_chainInfo cfg) of
             Inl e \<Rightarrow> Inl e
           | Inr w \<Rightarrow> Inr (WatcherClient (cc_chainInfo cfg) w, cfg)))"

text \<open>
  The layers of a client. The verifying clients are numbered in the order of their sources, and the numbers
  are the sources of the optimizing client; \<open>bc_caching\<close> says that there is a caching client between the
  optimizing client and the aggregator.
\<close>

record ('c, 'w, 'p, 'k) built =
  bc_sources :: "('c, 'w, 'p) source list"
  bc_verifiers :: "verifyingClient list"
  bc_optimizing :: "nat optimizingClient"
  bc_cache :: "'k cache"
  bc_caching :: bool
  bc_aggregator :: watchAggregator

definition makeOptimizingClient :: "int \<Rightarrow> nat list \<Rightarrow> nat option \<Rightarrow> nat optimizingClient result" where
  "makeOptimizingClient now verifiers watcher =
     (case newOptimizingClient now verifiers 0 0 0 0 of
        Inl e \<Rightarrow> Inl e
      | Inr oc \<Rightarrow> Inr (case watcher of None \<Rightarrow> oc | Some w \<Rightarrow> MarkPassive w oc))"

definition makeClient ::
  "int \<Rightarrow> (int \<Rightarrow> 'k result) \<Rightarrow> (('c, 'w, 'p) source \<Rightarrow> 'p Info result \<times> error option) \<Rightarrow> ('c, 'w, 'p) clientConfig
    \<Rightarrow> ('c, 'w, 'p, 'k) built result" where
  "makeClient now newARC ask cfg =
     (if \<not> cc_insecure cfg \<and> cc_chainHash cfg = None \<and> cc_chainInfo cfg = None then Inl (Err ''no root of trust specified'')
      else if cc_clients cfg = [] \<and> cc_watcher cfg = None then Inl (Err ''no points of contact specified'')
      else case makeCache newARC (cc_cacheSize cfg) of
        Inl e \<Rightarrow> Inl e
      | Inr cache \<Rightarrow>
          (case (case cc_watcher cfg of
                   None \<Rightarrow> Inr (cfg, None)
                 | Some w \<Rightarrow> map_sum id (\<lambda>(wc, cfg). (cfg\<lparr>cc_clients := cc_clients cfg @ [wc]\<rparr>, Some (length (cc_clients cfg))))
                               (makeWatcherClient ask w cfg)) of
             Inl e \<Rightarrow> Inl e
           | Inr (cfg, wc) \<Rightarrow>
               let verifiers = map (\<lambda>_. newVerifyingClient (cc_previousResult cfg) (cc_fullVerify cfg)) (cc_clients cfg)
               in case makeOptimizingClient now [0..<length verifiers] wc of
                    Inl e \<Rightarrow> Inl e
                  | Inr oc \<Rightarrow>
                      Inr \<lparr>bc_sources = cc_clients cfg, bc_verifiers = verifiers, bc_optimizing = oc, bc_cache = cache,
                           bc_caching = (0 < cc_cacheSize cfg),
                           bc_aggregator = wa_Start (newWatchAggregator (wc \<noteq> None) (cc_autoWatch cfg) (cc_autoWatchRetry cfg))\<rparr>))"

definition initial_config :: "('c, 'w, 'p) clientConfig" where
  "initial_config =
     \<lparr>cc_clients = [], cc_watcher = None, cc_chainHash = None, cc_chainInfo = None, cc_previousResult = None, cc_fullVerify = False,
      cc_insecure = False, cc_cacheSize = 32, cc_autoWatch = False, cc_autoWatchRetry = 0, cc_prometheus = False\<rparr>"

fun apply_options :: "('c, 'w, 'p) client_option list \<Rightarrow> ('c, 'w, 'p) client_option" where
  "apply_options [] cfg = Inr cfg"
| "apply_options (opt # options) cfg = (case opt cfg of Inl e \<Rightarrow> Inl e | Inr cfg \<Rightarrow> apply_options options cfg)"

text \<open>\<open>New\<close>, up to the registration of metrics.\<close>

definition client_New ::
  "int \<Rightarrow> (int \<Rightarrow> 'k result) \<Rightarrow> (('c, 'w, 'p) source \<Rightarrow> 'p Info result \<times> error option) \<Rightarrow> ('c, 'w, 'p) client_option list
    \<Rightarrow> ('c, 'w, 'p, 'k) built result" where
  "client_New now newARC ask options =
     (case apply_options options initial_config of Inl e \<Rightarrow> Inl e | Inr cfg \<Rightarrow> makeClient now newARC ask cfg)"

definition client_Wrap ::
  "int \<Rightarrow> (int \<Rightarrow> 'k result) \<Rightarrow> (('c, 'w, 'p) source \<Rightarrow> 'p Info result \<times> error option) \<Rightarrow> ('c, 'w, 'p) source list \<Rightarrow> ('c, 'w, 'p) client_option list
    \<Rightarrow> ('c, 'w, 'p, 'k) built result" where
  "client_Wrap now newARC ask clients options = client_New now newARC ask (options @ [From clients])"

section \<open>The HTTP source\<close>

record 'p httpClient =
  hc_root :: string
  hc_chainInfo :: "'p Info option"

definition with_slash :: "string \<Rightarrow> string" where
  "with_slash url = (if url \<noteq> [] \<and> last url = CHR ''/'' then url else url @ ''/'')"

text \<open>
  \<open>fetch\<close> gives what the server answers for a URL, and \<open>dec\<close> decodes it; the key of decoded information is
  never nil. No client is closed before it is returned.
\<close>

definition FetchChainInfo ::
  "(float64 \<Rightarrow> uint32) \<Rightarrow> ('p, 's) suite \<Rightarrow> (bytes \<Rightarrow> ChainInfoPacket result) \<Rightarrow> (string \<Rightarrow> bytes result) \<Rightarrow> bytes option \<Rightarrow> 'p httpClient
    \<Rightarrow> 'p Info result" where
  "FetchChainInfo impl S dec fetch chainHash h =
     (case hc_chainInfo h of
        Some i \<Rightarrow> Inr i
      | None \<Rightarrow>
          (case fetch (hc_root h @ ''info'') of
             Inl e \<Rightarrow> Inl (Wrap ''doing request: %w'' e)
           | Inr body \<Rightarrow>
               (case InfoFromJSON dec S body of
                  Inl e \<Rightarrow> Inl (Wrap ''decoding response: %w'' e)
                | Inr chainInfo \<Rightarrow>
                    if (case chainHash of None \<Rightarrow> False | Some hash \<Rightarrow> Info_Hash impl S chainInfo \<noteq> hash)
                    then Inl (Err ''%s does not advertise the expected drand group (%x vs %x)'') else Inr chainInfo)))"

definition httpClient_New ::
  "(float64 \<Rightarrow> uint32) \<Rightarrow> ('p, 's) suite \<Rightarrow> (bytes \<Rightarrow> ChainInfoPacket result) \<Rightarrow> (string \<Rightarrow> bytes result) \<Rightarrow> string \<Rightarrow> bytes option
    \<Rightarrow> 'p httpClient result" where
  "httpClient_New impl S dec fetch url chainHash =
     (let c = \<lparr>hc_root = with_slash url, hc_chainInfo = None\<rparr>
      in map_sum id (\<lambda>i. c\<lparr>hc_chainInfo := Some i\<rparr>) (FetchChainInfo impl S dec fetch chainHash c))"

definition NewWithInfo :: "string \<Rightarrow> 'p Info option \<Rightarrow> 'p httpClient" where
  "NewWithInfo url info = \<lparr>hc_root = with_slash url, hc_chainInfo = info\<rparr>"

text \<open>The first loop of \<open>ForURLs\<close>: the clients so far, the information once it is known, and the URLs skipped.\<close>

fun ForURLs_loop ::
  "(string \<Rightarrow> 'p httpClient result) \<Rightarrow> string list \<Rightarrow> 'p Info option \<Rightarrow> 'p httpClient list \<times> 'p Info option \<times> string list" where
  "ForURLs_loop new [] info = ([], info, [])"
| "ForURLs_loop new (u # urls) info =
     (case info of
        None \<Rightarrow>
          (case new u of
             Inr c \<Rightarrow> let (cs, info, skipped) = ForURLs_loop new urls (hc_chainInfo c) in (c # cs, info, skipped)
           | Inl _ \<Rightarrow> let (cs, info, skipped) = ForURLs_loop new urls None in (cs, info, u # skipped))
      | Some i \<Rightarrow> let (cs, info, skipped) = ForURLs_loop new urls info in (NewWithInfo u (Some i) # cs, info, skipped))"

definition ForURLs ::
  "(float64 \<Rightarrow> uint32) \<Rightarrow> ('p, 's) suite \<Rightarrow> (bytes \<Rightarrow> ChainInfoPacket result) \<Rightarrow> (string \<Rightarrow> bytes result) \<Rightarrow> string list \<Rightarrow> bytes option
    \<Rightarrow> 'p httpClient list" where
  "ForURLs impl S dec fetch urls chainHash =
     (let (clients, info, skipped) = ForURLs_loop (\<lambda>u. httpClient_New impl S dec fetch u chainHash) urls None
      in case info of None \<Rightarrow> clients | Some i \<Rightarrow> clients @ map (\<lambda>u. NewWithInfo u (Some i)) skipped)"

definition round_url :: "string \<Rightarrow> uint64 \<Rightarrow> string" where
  "round_url base rnd = (if rnd = 0 then base @ ''public/latest'' else base @ ''public/'' @ fmtInt (unat rnd))"

text \<open>\<open>is_closed\<close> says that the client is closed before the answer is there.\<close>

definition httpClient_Get ::
  "(bytes \<Rightarrow> RandomData result) \<Rightarrow> (string \<Rightarrow> bytes result) \<Rightarrow> bool \<Rightarrow> uint64 \<Rightarrow> 'p httpClient \<Rightarrow> Result result" where
  "httpClient_Get dec fetch is_closed rnd h =
     (if is_closed then Inl (Err ''client closed'')
      else case fetch (round_url (hc_root h) rnd) of
        Inl e \<Rightarrow> Inl (Wrap ''doing request: %w'' e)
      | Inr body \<Rightarrow>
          (case dec body of
             Inl e \<Rightarrow> Inl (Wrap ''decoding response: %w'' e)
           | Inr randResp \<Rightarrow>
               if rd_Sig randResp = [] \<or> rd_PreviousSignature randResp = None \<or> rd_PreviousSignature randResp = Some []
               then Inl (Err ''insufficient response'') else Inr (RD randResp)))"

definition httpClient_RoundAt :: "(float64 \<Rightarrow> uint64) \<Rightarrow> int \<Rightarrow> 'p httpClient \<Rightarrow> uint64 result" where
  "httpClient_RoundAt impl t h =
     (case hc_chainInfo h of
        None \<Rightarrow> Inl (Panic ''nil pointer dereference'')
      | Some i \<Rightarrow> Inr (CurrentRound impl t (inf_Period i) (inf_GenesisTime i)))"

section \<open>The gRPC source and the proxy\<close>

text \<open>An empty field of a message that was received is nil; the proxy passes on the message of the daemon.\<close>

definition asRD :: "PublicRandResponse \<Rightarrow> RandomData" where
  "asRD r =
     \<lparr>rd_Rnd = pr_Round r, rd_Random = pr_Randomness r, rd_Sig = pr_Signature r,
      rd_PreviousSignature = (if pr_PreviousSignature r = [] then None else Some (pr_PreviousSignature r))\<rparr>"

definition grpcClient_Get :: "(uint64 \<Rightarrow> PublicRandResponse option result) \<Rightarrow> uint64 \<Rightarrow> Result result" where
  "grpcClient_Get publicRand rnd =
     (case publicRand rnd of
        Inl e \<Rightarrow> Inl e
      | Inr None \<Rightarrow> Inl (Err ''no received randomness - unexpected gPRC response'')
      | Inr (Some cur) \<Rightarrow> Inr (RD (asRD cur)))"

definition grpcClient_Info :: "('p, 's) suite \<Rightarrow> ChainInfoPacket option result \<Rightarrow> 'p Info result" where
  "grpcClient_Info S chainInfo =
     (case chainInfo of
        Inl e \<Rightarrow> Inl e
      | Inr None \<Rightarrow> Inl (Err ''no received group - unexpected gPRC response'')
      | Inr (Some p) \<Rightarrow> InfoFromProto S p)"

text \<open>What comes on the stream before its first error; \<open>going\<close> says that its context is going on at that time.\<close>

fun grpcClient_translate :: "(PublicRandResponse result \<times> bool) list \<Rightarrow> Result list" where
  "grpcClient_translate [] = []"
| "grpcClient_translate ((nxt, going) # stream) =
     (case nxt of Inr r \<Rightarrow> if going then RD (asRD r) # grpcClient_translate stream else [] | Inl _ \<Rightarrow> [])"

definition grpcClient_RoundAt :: "(float64 \<Rightarrow> uint64) \<Rightarrow> ChainInfoPacket result \<Rightarrow> int \<Rightarrow> uint64" where
  "grpcClient_RoundAt impl chainInfo t =
     (case chainInfo of
        Inl _ \<Rightarrow> 0
      | Inr info \<Rightarrow> CurrentRound impl t (wrap64 (Second * uint (ci_Period info))) (ci_GenesisTime info))"

definition drandProxy_Get :: "uint64 \<Rightarrow> ('db, 'p, 's) Drand \<Rightarrow> Result result" where
  "drandProxy_Get rnd d = map_sum id (\<lambda>resp. RD (asRD resp)) (Drand_PublicRand rnd d)"

definition drandProxy_Info :: "('p, 's) suite \<Rightarrow> ChainInfoPacket result \<Rightarrow> 'p Info result" where
  "drandProxy_Info S chainInfo = (case chainInfo of Inl e \<Rightarrow> Inl e | Inr info \<Rightarrow> InfoFromProto S info)"

definition drandProxy_RoundAt :: "(float64 \<Rightarrow> uint64) \<Rightarrow> ('p, 's) suite \<Rightarrow> ChainInfoPacket result \<Rightarrow> int \<Rightarrow> uint64" where
  "drandProxy_RoundAt impl S chainInfo t =
     (case drandProxy_Info S chainInfo of Inl _ \<Rightarrow> 0 | Inr info \<Rightarrow> CurrentRound impl t (inf_Period info) (inf_GenesisTime info))"

text \<open>The stream of the proxy: its channel has room for one result.\<close>

record streamProxy =
  sp_outgoing :: "Result list"
  sp_closed :: bool
  sp_done :: bool

definition newStreamProxy :: streamProxy where
  "newStreamProxy = \<lparr>sp_outgoing = [], sp_closed = False, sp_done = False\<rparr>"

text \<open>\<open>Send\<close> with what the \<open>select\<close> chooses when both the channel and the context are ready.\<close>

definition streamProxy_Send :: "bool \<Rightarrow> PublicRandResponse \<Rightarrow> streamProxy \<Rightarrow> (error option \<times> streamProxy) result" where
  "streamProxy_Send send_first nxt s =
     (let room = (sp_outgoing s = [] \<or> sp_closed s)
      in if room \<and> (send_first \<or> \<not> sp_done s)
         then (if sp_closed s then Inl (Panic ''send on closed channel'') else Inr (None, s\<lparr>sp_outgoing := [RD (asRD nxt)]\<rparr>))
         else if sp_done s
         then (if sp_closed s then Inl (Panic ''close of closed channel'') else Inr (Some (Err ''context canceled''), s\<lparr>sp_closed := True\<rparr>))
         else Inr (None, s))"

definition streamProxy_Close :: "streamProxy \<Rightarrow> streamProxy" where
  "streamProxy_Close s = s\<lparr>sp_done := True\<rparr>"

section \<open>The root of trust\<close>

definition package_option :: "(float64 \<Rightarrow> uint32) \<Rightarrow> ('p, 's) suite \<Rightarrow> ('c, 'w, 'p) client_option \<Rightarrow> bool" where
  "package_option impl S opt \<longleftrightarrow>
     (\<exists>c. opt = From c) \<or> opt = Insecurely \<or> (\<exists>n. opt = WithCacheSize n) \<or> (\<exists>h. opt = WithChainHash impl S h) \<or> (\<exists>i. opt = WithChainInfo impl S i)
   \<or> (\<exists>r. opt = WithVerifiedResult r) \<or> opt = WithFullChainVerification \<or> (\<exists>w. opt = WithWatcher w) \<or> opt = WithAutoWatch
   \<or> (\<exists>t. opt = WithAutoWatchRetry t) \<or> opt = WithPrometheus"

definition one_root :: "(float64 \<Rightarrow> uint32) \<Rightarrow> ('p, 's) suite \<Rightarrow> ('c, 'w, 'p) clientConfig \<Rightarrow> bool" where
  "one_root impl S cfg \<longleftrightarrow> (\<forall>i h. cc_chainInfo cfg = Some i \<and> cc_chainHash cfg = Some h \<longrightarrow> Info_Hash impl S i = h)"

lemma package_option_root:
  assumes "package_option impl S opt" "opt cfg = Inr cfg'" "one_root impl S cfg"
  shows "one_root impl S cfg'"
  using assms
  by (auto simp: package_option_def one_root_def From_def Insecurely_def WithCacheSize_def WithChainHash_def WithChainInfo_def WithVerifiedResult_def
      WithFullChainVerification_def WithWatcher_def WithAutoWatch_def WithAutoWatchRetry_def WithPrometheus_def split: option.splits if_splits)

text \<open>Options never leave a configuration with two roots of trust that disagree.\<close>

lemma options_keep_one_root:
  assumes "\<forall>opt \<in> set opts. package_option impl S opt" "apply_options opts cfg = Inr cfg'" "one_root impl S cfg"
  shows "one_root impl S cfg'"
  using assms
proof (induction opts arbitrary: cfg)
  case (Cons opt opts)
  obtain cfg1 where "opt cfg = Inr cfg1" "apply_options opts cfg1 = Inr cfg'" using Cons.prems(2) by (auto split: sum.splits)
  then show ?case using Cons.IH [of cfg1] Cons.prems package_option_root by fastforce
qed simp

lemma initial_config_root: "one_root impl S initial_config"
  by (simp add: one_root_def initial_config_def)

text \<open>Every source of a client is verified, from the same checkpoint and in the same way, and the watcher, if any, is passive.\<close>

lemma makeClient_layers:
  assumes "makeClient now newARC ask cfg = Inr b"
  shows "length (bc_verifiers b) = length (bc_sources b) \<and> (\<forall>v \<in> set (bc_verifiers b). v = newVerifyingClient (cc_previousResult cfg) (cc_fullVerify cfg))
       \<and> oc_clients (bc_optimizing b) = [0..<length (bc_sources b)]
       \<and> oc_passiveClients (bc_optimizing b) = (if cc_watcher cfg = None then [] else [length (cc_clients cfg)])
       \<and> take (length (cc_clients cfg)) (bc_sources b) = cc_clients cfg"
proof (cases "cc_watcher cfg")
  case None
  then show ?thesis
    using assms by (auto simp: makeClient_def makeOptimizingClient_def newOptimizingClient_def Let_def split: if_splits sum.splits)
next
  case (Some w)
  have keep: "wc_cfg = (wc, cfg1) \<Longrightarrow> cc_clients cfg1 = cc_clients cfg \<and> cc_previousResult cfg1 = cc_previousResult cfg \<and> cc_fullVerify cfg1 = cc_fullVerify cfg"
    if "makeWatcherClient ask w cfg = Inr wc_cfg" for wc_cfg wc cfg1
    using that by (auto simp: makeWatcherClient_def tryPopulateInfo_def split_beta split: sum.splits option.splits prod.splits)
  obtain wc cfg1 where m: "makeWatcherClient ask w cfg = Inr (wc, cfg1)"
    using assms Some by (cases "makeWatcherClient ask w cfg") (auto simp: makeClient_def split: if_splits sum.splits)
  show ?thesis
    using assms Some m keep [OF m]
    by (auto simp: makeClient_def makeOptimizingClient_def newOptimizingClient_def MarkPassive_def Let_def split: if_splits sum.splits)
qed



section \<open>Sources for a list of URLs\<close>

lemma httpClient_New_ok:
  assumes "httpClient_New impl S dec fetch u (Some h) = Inr c"
  shows "hc_root c = with_slash u \<and> (\<exists>i. hc_chainInfo c = Some i \<and> Info_Hash impl S i = h)"
  using assms by (auto simp: httpClient_New_def FetchChainInfo_def Let_def map_sum_def split: sum.splits if_splits)

lemma ForURLs_loop_known:
  "ForURLs_loop new urls (Some i) = (map (\<lambda>u. NewWithInfo u (Some i)) urls, Some i, [])"
  by (induction urls) simp_all

lemma ForURLs_loop_spec:
  assumes "ForURLs_loop new urls None = (cs, info, skipped)" "\<And>u c. new u = Inr c \<Longrightarrow> hc_root c = with_slash u \<and> (\<exists>i. hc_chainInfo c = Some i \<and> ok i)"
  shows "info = None \<and> cs = [] \<and> skipped = urls
       \<or> (\<exists>i. info = Some i \<and> ok i \<and> (\<forall>c \<in> set cs. hc_chainInfo c = Some i)
            \<and> mset (map hc_root cs) + mset (map with_slash skipped) = mset (map with_slash urls))"
  using assms(1)
proof (induction urls arbitrary: cs skipped)
  case (Cons u urls)
  show ?case
  proof (cases "new u")
    case (Inl e)
    obtain cs' info' skipped' where l: "ForURLs_loop new urls None = (cs', info', skipped')" by (cases "ForURLs_loop new urls None") auto
    then have "cs' = cs" "info' = info" "skipped = u # skipped'" using Cons.prems Inl by simp_all
    then show ?thesis using Cons.IH l by auto
  next
    case (Inr c)
    obtain i where i: "hc_chainInfo c = Some i" "ok i" "hc_root c = with_slash u" using assms(2) [OF Inr] by blast
    have "cs = c # map (\<lambda>u. NewWithInfo u (Some i)) urls" "info = Some i" "skipped = []"
      using Cons.prems Inr i(1) by (auto simp: ForURLs_loop_known)
    then show ?thesis using i by (simp add: NewWithInfo_def comp_def)
  qed
qed simp


text \<open>And a source is made for the URL that reports the chain, so that the list is not empty.\<close>

lemma ForURLs_finds_the_root:
  assumes "u \<in> set urls" "httpClient_New impl S dec fetch u (Some h) = Inr c"
  shows "ForURLs impl S dec fetch urls (Some h) \<noteq> []"
proof -
  have "fst (ForURLs_loop (\<lambda>u. httpClient_New impl S dec fetch u (Some h)) urls None) \<noteq> []"
    using assms(1)
  proof (induction urls)
    case (Cons v urls)
    then show ?case using assms(2) by (auto simp: split_beta split: sum.split)
  qed simp
  then show ?thesis by (auto simp: ForURLs_def split_beta split: option.split)
qed


section \<open>The proxy\<close>

text \<open>What the proxy gets is what the daemon serves.\<close>

lemma drandProxy_Get_result:
  assumes "drandProxy_Get rnd d = Inr r"
  shows "\<exists>resp. Drand_PublicRand rnd d = Inr resp \<and> res_Round r = pr_Round resp \<and> res_Signature r = pr_Signature resp
       \<and> res_Randomness r = pr_Randomness resp"
  using assms by (cases "Drand_PublicRand rnd d") (auto simp: drandProxy_Get_def asRD_def)

text \<open>A second send of the daemon after the context of the stream is done crashes the program.\<close>

lemma proxy_send_can_panic:
  assumes "sp_done s" "\<not> sp_closed s" "\<not> send_first"
  shows "\<exists>e s'. streamProxy_Send send_first nxt s = Inr (Some e, s') \<and> (\<forall>b nxt'. \<exists>msg. streamProxy_Send b nxt' s' = Inl (Panic msg))"
  using assms by (auto simp: streamProxy_Send_def Let_def)

end
