(* ===== verification/Client_Gossip.thy ===== *)
theory Client_Gossip
  imports Client_Verify Drand_Public
begin

text \<open>
  \<open>src/lp2p/client/validator.go\<close>, \<open>src/lp2p/client/client.go\<close> and the publishing loop of
  \<open>src/lp2p/relaynode.go\<close>: randomness that travels over a gossip network.

  The network and the protobuf codec are other modules: a message is its bytes, and \<open>unmarshal\<close> and
  \<open>marshal\<close> are parameters. A goroutine step is one event. A channel is its buffer with what the reader
  has taken from it; a send on an unbuffered one succeeds when its reader waits.
\<close>

section \<open>The validator\<close>

datatype ValidationResult = ValidationAccept | ValidationReject | ValidationIgnore

definition gossip_beacon :: "PublicRandResponse \<Rightarrow> Beacon" where
  "gossip_beacon rand = \<lparr>b_PreviousSig = pr_PreviousSignature rand, b_Round = pr_Round rand, b_Signature = pr_Signature rand\<rparr>"

text \<open>
  \<open>cache\<close> is \<open>None\<close> for a nil interface, and \<open>now\<close> the time in nanoseconds. The second component
  is the cache after the lookup.
\<close>

definition randomnessValidator ::
  "('p, 's) suite \<Rightarrow> 'c arc \<Rightarrow> (bytes \<Rightarrow> PublicRandResponse result) \<Rightarrow> int \<Rightarrow> 'p Info option \<Rightarrow> bytes \<Rightarrow> 'c cache option
    \<Rightarrow> ValidationResult \<times> 'c cache option" where
  "randomnessValidator S A unmarshal now info data cache =
     (case unmarshal data of
        Inl _ \<Rightarrow> (ValidationReject, cache)
      | Inr rand \<Rightarrow>
          (case info of
             None \<Rightarrow> (ValidationAccept, cache)
           | Some i \<Rightarrow>
               let b = gossip_beacon rand
               in if now < TimeOfRound (inf_Period i) (inf_GenesisTime i) (b_Round b) * Second then (ValidationReject, cache)
                  else
                    let (current, cache) = (case cache of
                          None \<Rightarrow> (None, None)
                        | Some c \<Rightarrow> map_prod id Some (cache_TryGet A (pr_Round rand) c))
                    in case current of
                         Some (RD cur) \<Rightarrow>
                           let curB = \<lparr>b_PreviousSig = (case rd_PreviousSignature cur of None \<Rightarrow> [] | Some p \<Rightarrow> p),
                                       b_Round = rd_Rnd cur, b_Signature = rd_Sig cur\<rparr>
                           in (if Beacon_Equal b curB then ValidationIgnore else ValidationReject, cache)
                       | Some other \<Rightarrow> (if b_Signature b = res_Signature other then ValidationIgnore else ValidationReject, cache)
                       | None \<Rightarrow>
                           (case VerifyBeacon S (inf_PublicKey i) b of
                              Some _ \<Rightarrow> (ValidationReject, cache)
                            | None \<Rightarrow> (ValidationAccept, cache))))"

section \<open>The client\<close>

record gchan =
  gch_cap :: nat
  gch_buf :: "PublicRandResponse list"
  gch_closed :: bool
  gch_read :: "PublicRandResponse list"

text \<open>A goroutine of \<open>Watch\<close>: its inner channel, its context, what it has sent on, and whether it has returned.\<close>

record gwatch =
  gw_inner :: nat
  gw_done :: bool
  gw_out :: "Result list"
  gw_returned :: bool

text \<open>
  The client: \<open>gc_subs\<close> are the channels in its map, each entry with a fresh key, \<open>gc_cancelled\<close> says that its
  context is done and \<open>gc_stopped\<close> that its goroutine has returned.
\<close>

record 'c gossip_client =
  gc_latest :: uint64
  gc_cache :: "'c cache option"
  gc_subs :: "nat list"
  gc_chans :: "gchan list"
  gc_watches :: "gwatch list"
  gc_cancelled :: bool
  gc_stopped :: bool

definition PubSubTopic :: "string \<Rightarrow> string" where
  "PubSubTopic h = ''/drand/pubsub/v0.0.0/'' @ h"

definition new_gossip_client :: "'c cache option \<Rightarrow> 'c gossip_client" where
  "new_gossip_client cache =
     \<lparr>gc_latest = 0, gc_cache = cache, gc_subs = [], gc_chans = [], gc_watches = [], gc_cancelled = False, gc_stopped = False\<rparr>"

text \<open>\<open>NewWithPubsub\<close>; \<open>register\<close>, \<open>subscribe\<close> and \<open>join\<close> are what the network answers for a topic.\<close>

definition NewWithPubsub ::
  "(float64 \<Rightarrow> uint32) \<Rightarrow> ('p, 's) suite \<Rightarrow> (string \<Rightarrow> error option) \<Rightarrow> (string \<Rightarrow> error option) \<Rightarrow> (string \<Rightarrow> error option)
    \<Rightarrow> 'p Info option \<Rightarrow> 'c cache option \<Rightarrow> 'c gossip_client result" where
  "NewWithPubsub impl S register join subscribe info cache =
     (case info of
        None \<Rightarrow> Inl (Err ''No chain supplied for joining'')
      | Some i \<Rightarrow>
          let topic = PubSubTopic (hex_EncodeToString (Info_Hash impl S i))
          in case register topic of
               Some e \<Rightarrow> Inl (Wrap ''creating topic: %w'' e)
             | None \<Rightarrow>
                 (case join topic of
                    Some e \<Rightarrow> Inl (Wrap ''joining pubsub: %w'' e)
                  | None \<Rightarrow>
                      (case subscribe topic of
                         Some e \<Rightarrow> Inl (Wrap ''subscribe: %w'' e)
                       | None \<Rightarrow> Inr (new_gossip_client cache))))"

definition gchan_close :: "nat \<Rightarrow> gchan list \<Rightarrow> gchan list result" where
  "gchan_close i chans =
     (if gch_closed (chans ! i) then Inl (Panic ''close of closed channel'')
      else Inr (chans[i := (chans ! i)\<lparr>gch_closed := True\<rparr>]))"

text \<open>A send that does not block: \<open>waiting\<close> are the unbuffered channels with a waiting reader.\<close>

definition gchan_send :: "nat list \<Rightarrow> PublicRandResponse \<Rightarrow> nat \<Rightarrow> gchan list \<Rightarrow> gchan list result" where
  "gchan_send waiting rand i chans =
     (let ch = chans ! i
      in if gch_closed ch then Inl (Panic ''send on closed channel'')
         else if (if gch_cap ch = 0 then i \<in> set waiting \<and> gch_buf ch = [] else length (gch_buf ch) < gch_cap ch)
         then Inr (chans[i := ch\<lparr>gch_buf := gch_buf ch @ [rand]\<rparr>]) else Inr chans)"

fun gchan_each :: "(nat \<Rightarrow> gchan list \<Rightarrow> gchan list result) \<Rightarrow> nat list \<Rightarrow> gchan list \<Rightarrow> gchan list result" where
  "gchan_each f [] chans = Inr chans"
| "gchan_each f (i # is) chans = (case f i chans of Inl e \<Rightarrow> Inl e | Inr chans \<Rightarrow> gchan_each f is chans)"

text \<open>One turn of the goroutine: \<open>msg\<close> is what the subscription gave.\<close>

definition gossip_turn :: "(bytes \<Rightarrow> PublicRandResponse result) \<Rightarrow> nat list \<Rightarrow> bytes result \<Rightarrow> 'c gossip_client \<Rightarrow> 'c gossip_client result" where
  "gossip_turn unmarshal waiting msg c =
     (if gc_cancelled c
      then map_sum id (\<lambda>chans. c\<lparr>gc_chans := chans, gc_subs := [], gc_stopped := True\<rparr>) (gchan_each gchan_close (gc_subs c) (gc_chans c))
      else case msg of
        Inl _ \<Rightarrow> Inr c
      | Inr data \<Rightarrow>
          (case unmarshal data of
             Inl _ \<Rightarrow> Inr c
           | Inr rand \<Rightarrow>
               if pr_Round rand \<le> gc_latest c then Inr c
               else map_sum id (\<lambda>chans. c\<lparr>gc_latest := pr_Round rand, gc_chans := chans\<rparr>)
                      (gchan_each (gchan_send waiting rand) (gc_subs c) (gc_chans c))))"

text \<open>\<open>Sub\<close> with a new channel of the given capacity, and the function it returns.\<close>

definition gossip_Sub :: "nat \<Rightarrow> 'c gossip_client \<Rightarrow> 'c gossip_client" where
  "gossip_Sub n c =
     c\<lparr>gc_chans := gc_chans c @ [\<lparr>gch_cap = n, gch_buf = [], gch_closed = False, gch_read = []\<rparr>],
       gc_subs := gc_subs c @ [length (gc_chans c)]\<rparr>"

definition UnsubFunc :: "nat \<Rightarrow> 'c gossip_client \<Rightarrow> 'c gossip_client result" where
  "UnsubFunc i c = map_sum id (\<lambda>chans. c\<lparr>gc_subs := removeAll i (gc_subs c), gc_chans := chans\<rparr>) (gchan_close i (gc_chans c))"

definition gossip_Watch :: "'c gossip_client \<Rightarrow> 'c gossip_client" where
  "gossip_Watch c =
     (let w = \<lparr>gw_inner = length (gc_chans c), gw_done = False, gw_out = [], gw_returned = False\<rparr>
      in (gossip_Sub 0 c)\<lparr>gc_watches := gc_watches c @ [w]\<rparr>)"

definition gossip_Close :: "'c gossip_client \<Rightarrow> 'c gossip_client" where
  "gossip_Close c = c\<lparr>gc_cancelled := True\<rparr>"

text \<open>An empty field of a decoded message is nil.\<close>

definition gossip_data :: "PublicRandResponse \<Rightarrow> RandomData" where
  "gossip_data resp =
     \<lparr>rd_Rnd = pr_Round resp, rd_Random = pr_Randomness resp, rd_Sig = pr_Signature resp,
      rd_PreviousSignature = (if pr_PreviousSignature resp = [] then None else Some (pr_PreviousSignature resp))\<rparr>"

text \<open>
  A goroutine of \<open>Watch\<close> reads its inner channel: the data goes into the cache, and then to the reader when
  \<open>taken\<close> says that it waits.
\<close>

definition watch_read :: "'c arc \<Rightarrow> bool \<Rightarrow> nat \<Rightarrow> 'c gossip_client \<Rightarrow> 'c gossip_client" where
  "watch_read A taken n c =
     (let w = gc_watches c ! n; i = gw_inner w; ch = gc_chans c ! i
      in case gch_buf ch of
           [] \<Rightarrow> if gch_closed ch then c\<lparr>gc_watches := (gc_watches c)[n := w\<lparr>gw_returned := True\<rparr>]\<rparr> else c
         | resp # buf \<Rightarrow>
             let dat = gossip_data resp
             in c\<lparr>gc_chans := (gc_chans c)[i := ch\<lparr>gch_buf := buf, gch_read := gch_read ch @ [resp]\<rparr>],
                  gc_cache := map_option (cache_Add A (pr_Round resp) (RD dat)) (gc_cache c),
                  gc_watches := (gc_watches c)[n := w\<lparr>gw_out := gw_out w @ (if taken then [RD dat] else [])\<rparr>]\<rparr>)"

text \<open>It sees its context done. What is left on the inner channel is drained once that is closed.\<close>

definition watch_stop :: "nat \<Rightarrow> 'c gossip_client \<Rightarrow> 'c gossip_client result" where
  "watch_stop n c =
     (let w = gc_watches c ! n
      in map_sum id (\<lambda>c. c\<lparr>gc_watches := (gc_watches c)[n := w\<lparr>gw_returned := True\<rparr>]\<rparr>) (UnsubFunc (gw_inner w) c))"

section \<open>Runs\<close>

datatype gossip_event =
  Turn "nat list" "bytes result" | CallSub nat | SubReads nat | CallUnsub nat | WatchStarts | WatchCancelled nat | WatchReads nat bool
  | WatchStops nat | ClientCloses

definition gwatching :: "nat \<Rightarrow> 'c gossip_client \<Rightarrow> bool" where
  "gwatching n c \<longleftrightarrow> n < length (gc_watches c) \<and> \<not> gw_returned (gc_watches c ! n)"

text \<open>A caller reads its own channel and calls its function to unsubscribe, for which it holds the index of its channel.\<close>

fun gossip_step :: "'c arc \<Rightarrow> (bytes \<Rightarrow> PublicRandResponse result) \<Rightarrow> gossip_event \<Rightarrow> 'c gossip_client \<Rightarrow> 'c gossip_client result" where
  "gossip_step A um (Turn waiting msg) c = (if gc_stopped c then Inr c else gossip_turn um waiting msg c)"
| "gossip_step A um (CallSub n) c = Inr (gossip_Sub n c)"
| "gossip_step A um (SubReads i) c =
     Inr (if i < length (gc_chans c) \<and> gch_buf (gc_chans c ! i) \<noteq> [] \<and> i \<notin> gw_inner ` set (gc_watches c)
          then c\<lparr>gc_chans := (gc_chans c)[i := (gc_chans c ! i)\<lparr>gch_buf := tl (gch_buf (gc_chans c ! i)),
                               gch_read := gch_read (gc_chans c ! i) @ [hd (gch_buf (gc_chans c ! i))]\<rparr>]\<rparr>
          else c)"
| "gossip_step A um (CallUnsub i) c =
     (if i < length (gc_chans c) \<and> i \<notin> gw_inner ` set (gc_watches c) then UnsubFunc i c else Inr c)"
| "gossip_step A um WatchStarts c = Inr (gossip_Watch c)"
| "gossip_step A um (WatchCancelled n) c =
     Inr (if n < length (gc_watches c) then c\<lparr>gc_watches := (gc_watches c)[n := (gc_watches c ! n)\<lparr>gw_done := True\<rparr>]\<rparr> else c)"
| "gossip_step A um (WatchReads n taken) c = Inr (if gwatching n c then watch_read A taken n c else c)"
| "gossip_step A um (WatchStops n) c = (if gwatching n c \<and> gw_done (gc_watches c ! n) then watch_stop n c else Inr c)"
| "gossip_step A um ClientCloses c = Inr (gossip_Close c)"

fun gossip_run :: "'c arc \<Rightarrow> (bytes \<Rightarrow> PublicRandResponse result) \<Rightarrow> gossip_event list \<Rightarrow> 'c gossip_client \<Rightarrow> 'c gossip_client result" where
  "gossip_run A um [] c = Inr c"
| "gossip_run A um (ev # evs) c = (case gossip_step A um ev c of Inl e \<Rightarrow> Inl e | Inr c \<Rightarrow> gossip_run A um evs c)"

section \<open>The relay\<close>

text \<open>
  \<open>background\<close>: the messages published for the results of one watch; \<open>marshal\<close> and \<open>publish\<close> may fail.
\<close>

fun relay_message :: "Result \<Rightarrow> PublicRandResponse option" where
  "relay_message (RD rd) =
     Some \<lparr>pr_Round = rd_Rnd rd, pr_Signature = rd_Sig rd,
           pr_PreviousSignature = (case rd_PreviousSignature rd of None \<Rightarrow> [] | Some p \<Rightarrow> p), pr_Randomness = rd_Random rd\<rparr>"
| "relay_message _ = None"

fun relay_background :: "(PublicRandResponse \<Rightarrow> bytes result) \<Rightarrow> (bytes \<Rightarrow> error option) \<Rightarrow> Result list \<Rightarrow> bytes list" where
  "relay_background marshal publish [] = []"
| "relay_background marshal publish (res # results) =
     (case relay_message res of
        None \<Rightarrow> relay_background marshal publish results
      | Some m \<Rightarrow>
          (case marshal m of
             Inl _ \<Rightarrow> relay_background marshal publish results
           | Inr randB \<Rightarrow>
               if publish randB = None then randB # relay_background marshal publish results
               else relay_background marshal publish results))"

section \<open>What the validator lets through\<close>

text \<open>
  The gossip validator, which knows the chain, accepts a message exactly when it decodes to a beacon
  that is not of the future, that is not cached yet, and that the group has signed.
\<close>

lemma validator_accepts_iff:
  "fst (randomnessValidator S A unmarshal now (Some i) data cache) = ValidationAccept \<longleftrightarrow>
     (\<exists>rand. unmarshal data = Inr rand
        \<and> TimeOfRound (inf_Period i) (inf_GenesisTime i) (pr_Round rand) * Second \<le> now
        \<and> (case cache of None \<Rightarrow> True | Some c \<Rightarrow> fst (cache_TryGet A (pr_Round rand) c) = None)
        \<and> VerifyBeacon S (inf_PublicKey i) \<lparr>b_PreviousSig = pr_PreviousSignature rand, b_Round = pr_Round rand, b_Signature = pr_Signature rand\<rparr> = None)"
proof (cases "unmarshal data")
  case (Inl e)
  then show ?thesis by (simp add: randomnessValidator_def)
next
  case (Inr rand)
  show ?thesis
  proof (cases cache)
    case None
    then show ?thesis using Inr by (auto simp: randomnessValidator_def gossip_beacon_def Let_def split: option.splits)
  next
    case (Some c)
    obtain cur c' where "cache_TryGet A (pr_Round rand) c = (cur, c')" by fastforce
    then show ?thesis
      using Inr Some by (auto simp: randomnessValidator_def gossip_beacon_def Let_def split: option.splits Result.splits)
  qed
qed

text \<open>A message about a cached round is never accepted: it is ignored when it agrees with the cache, and rejected otherwise.\<close>

lemma validator_cached:
  assumes "unmarshal data = Inr rand" "TimeOfRound (inf_Period i) (inf_GenesisTime i) (pr_Round rand) * Second \<le> now"
    and "cache_TryGet A (pr_Round rand) c = (Some (RD cur), c')"
  shows "randomnessValidator S A unmarshal now (Some i) data (Some c) =
     (if gossip_beacon rand = \<lparr>b_PreviousSig = (case rd_PreviousSignature cur of None \<Rightarrow> [] | Some p \<Rightarrow> p), b_Round = rd_Rnd cur, b_Signature = rd_Sig cur\<rparr>
      then ValidationIgnore else ValidationReject, Some c')"
  using assms by (simp add: randomnessValidator_def gossip_beacon_def Let_def)

text \<open>A relay passes on what its client verified in such a way that validators accept it.\<close>

lemma relayed_result_is_accepted:
  assumes "relay_message (RD rd) = Some m" "marshal m = Inr data" "unmarshal data = Inr m"
    and "VerifyBeacon S (inf_PublicKey i) \<lparr>b_PreviousSig = (case rd_PreviousSignature rd of None \<Rightarrow> [] | Some p \<Rightarrow> p),
           b_Round = rd_Rnd rd, b_Signature = rd_Sig rd\<rparr> = None"
    and "TimeOfRound (inf_Period i) (inf_GenesisTime i) (rd_Rnd rd) * Second \<le> now"
  shows "relay_background marshal (\<lambda>_. None) [RD rd] = [data]
    \<and> randomnessValidator S A unmarshal now (Some i) data None = (ValidationAccept, None)"
  using assms by (auto simp: randomnessValidator_def gossip_beacon_def Let_def)

section \<open>The order of what subscribers get\<close>

definition gch_all :: "gchan \<Rightarrow> PublicRandResponse list" where
  "gch_all ch = gch_read ch @ gch_buf ch"

definition gch_ok :: "uint64 \<Rightarrow> gchan \<Rightarrow> bool" where
  "gch_ok latest ch \<longleftrightarrow> sorted_wrt (<) (map pr_Round (gch_all ch)) \<and> (\<forall>m \<in> set (gch_all ch). pr_Round m \<le> latest)"

definition gossip_inv :: "'c gossip_client \<Rightarrow> bool" where
  "gossip_inv c \<longleftrightarrow> (\<forall>ch \<in> set (gc_chans c). gch_ok (gc_latest c) ch) \<and> distinct (gc_subs c) \<and> (\<forall>i \<in> set (gc_subs c). i < length (gc_chans c))
     \<and> (\<forall>w \<in> set (gc_watches c). gw_inner w < length (gc_chans c))"

lemma gchan_close_ok:
  assumes "gchan_close i chans = Inr chans'" "\<forall>ch \<in> set chans. gch_ok l ch"
  shows "length chans' = length chans \<and> (\<forall>ch \<in> set chans'. gch_ok l ch)"
proof (cases "i < length chans")
  case True
  then have "gch_ok l (chans ! i)" using assms(2) by simp
  then have "gch_ok l ((chans ! i)\<lparr>gch_closed := True\<rparr>)" by (simp add: gch_ok_def gch_all_def)
  then show ?thesis
    using assms set_update_subset_insert [of chans i] by (auto simp: gchan_close_def split: if_splits)
qed (use assms in \<open>auto simp: gchan_close_def list_update_beyond split: if_splits\<close>)

lemma gchan_each_close_ok:
  assumes "gchan_each gchan_close is chans = Inr chans'" "\<forall>ch \<in> set chans. gch_ok l ch"
  shows "length chans' = length chans \<and> (\<forall>ch \<in> set chans'. gch_ok l ch)"
  using assms
proof (induction "is" arbitrary: chans)
  case (Cons i js)
  then obtain chans1 where s: "gchan_close i chans = Inr chans1" "gchan_each gchan_close js chans1 = Inr chans'" by (auto split: sum.splits)
  show ?case using Cons.IH [OF s(2)] gchan_close_ok [OF s(1) Cons.prems(2)] by simp
qed simp

text \<open>While one message is sent, a channel either has it, or all that it has is older.\<close>

definition gch_during :: "PublicRandResponse \<Rightarrow> uint64 \<Rightarrow> nat list \<Rightarrow> gchan list \<Rightarrow> bool" where
  "gch_during m l is chans \<longleftrightarrow> (\<forall>j < length chans. gch_ok (if j \<in> set is then l else pr_Round m) (chans ! j))"

lemma gch_ok_mono: "gch_ok l ch \<Longrightarrow> l \<le> l' \<Longrightarrow> gch_ok l' ch"
  by (auto simp: gch_ok_def)

lemma gch_ok_send: "gch_ok l ch \<Longrightarrow> l < pr_Round m \<Longrightarrow> gch_ok (pr_Round m) (ch\<lparr>gch_buf := gch_buf ch @ [m]\<rparr>)"
proof -
  assume a: "gch_ok l ch" "l < pr_Round m"
  have "gch_all (ch\<lparr>gch_buf := gch_buf ch @ [m]\<rparr>) = gch_all ch @ [m]" by (simp add: gch_all_def)
  moreover have "\<forall>x \<in> set (gch_all ch). pr_Round x < pr_Round m" using a by (auto simp: gch_ok_def)
  ultimately show ?thesis using a(1) by (auto simp: gch_ok_def sorted_wrt_append intro: less_imp_le)
qed

lemma gchan_each_send_ok:
  assumes "gchan_each (gchan_send waiting m) is chans = Inr chans'" "distinct is" "gch_during m l is chans" "l < pr_Round m"
    and "\<forall>i \<in> set is. i < length chans"
  shows "length chans' = length chans \<and> (\<forall>ch \<in> set chans'. gch_ok (pr_Round m) ch)"
  using assms
proof (induction "is" arbitrary: chans)
  case Nil
  then show ?case by (auto simp: gch_during_def in_set_conv_nth)
next
  case (Cons i js)
  obtain chans1 where s: "gchan_send waiting m i chans = Inr chans1" "gchan_each (gchan_send waiting m) js chans1 = Inr chans'"
    using Cons.prems(1) by (auto split: sum.splits)
  have i: "gch_ok l (chans ! i)" "i < length chans" using Cons.prems(3,5) by (auto simp: gch_during_def)
  have c1: "chans1 = chans[i := chans1 ! i] \<and> (chans1 ! i = chans ! i \<or> chans1 ! i = (chans ! i)\<lparr>gch_buf := gch_buf (chans ! i) @ [m]\<rparr>)"
    using s(1) i(2) by (auto simp: gchan_send_def Let_def split: if_splits)
  then have "gch_ok (pr_Round m) (chans1 ! i)"
    using gch_ok_send [OF i(1) Cons.prems(4)] gch_ok_mono [OF i(1)] Cons.prems(4) by (auto intro: less_imp_le)
  moreover have "gch_ok (if j \<in> set js then l else pr_Round m) (chans1 ! j)" if "j < length chans" "j \<noteq> i" for j
  proof -
    have "chans1 ! j = chans ! j" by (subst conjunct1 [OF c1]) (use that in simp)
    then show ?thesis using Cons.prems(3) that by (auto simp: gch_during_def)
  qed
  moreover have len: "length chans1 = length chans" by (subst conjunct1 [OF c1]) simp
  ultimately have "gch_ok (if j \<in> set js then l else pr_Round m) (chans1 ! j)" if "j < length chans1" for j
    using that Cons.prems(2) by (cases "j = i") auto
  then have "gch_during m l js chans1" by (simp add: gch_during_def)
  then show ?case using Cons.IH [OF s(2)] Cons.prems(2,4,5) len by simp
qed

lemma gossip_turn_ok:
  assumes "gossip_inv c" "gossip_turn um waiting msg c = Inr c'"
  shows "gossip_inv c'"
proof -
  have ch: "\<forall>ch \<in> set (gc_chans c). gch_ok (gc_latest c) ch" using assms(1) by (simp add: gossip_inv_def)
  show ?thesis
  proof (cases "gc_cancelled c")
    case True
    then obtain chans where c: "gchan_each gchan_close (gc_subs c) (gc_chans c) = Inr chans"
        "c' = c\<lparr>gc_chans := chans, gc_subs := [], gc_stopped := True\<rparr>"
      using assms(2) by (cases "gchan_each gchan_close (gc_subs c) (gc_chans c)") (simp_all add: gossip_turn_def)
    show ?thesis using gchan_each_close_ok [OF c(1) ch] assms(1) c(2) by (simp add: gossip_inv_def)
  next
    case False
    show ?thesis
    proof (cases "\<exists>data m. msg = Inr data \<and> um data = Inr m \<and> gc_latest c < pr_Round m")
      case True
      then obtain data m where m: "msg = Inr data" "um data = Inr m" "gc_latest c < pr_Round m" by blast
      obtain chans where c: "gchan_each (gchan_send waiting m) (gc_subs c) (gc_chans c) = Inr chans"
          "c' = c\<lparr>gc_latest := pr_Round m, gc_chans := chans\<rparr>"
        using assms(2) False m by (cases "gchan_each (gchan_send waiting m) (gc_subs c) (gc_chans c)") (simp_all add: gossip_turn_def flip: not_less)
      have "gch_during m (gc_latest c) (gc_subs c) (gc_chans c)"
        using ch gch_ok_mono [OF _ less_imp_le [OF m(3)]] by (simp add: gch_during_def)
      then show ?thesis using gchan_each_send_ok [OF c(1) _ _ m(3)] assms(1) c by (simp add: gossip_inv_def)
    next
      case old: False
      then have "c' = c" using assms(2) False by (simp add: gossip_turn_def not_less split: sum.splits if_splits)
      then show ?thesis using assms(1) by simp
    qed
  qed
qed

lemma UnsubFunc_ok:
  assumes "gossip_inv c" "UnsubFunc i c = Inr c'"
  shows "gossip_inv c' \<and> gc_watches c' = gc_watches c"
proof -
  obtain chans where s: "gchan_close i (gc_chans c) = Inr chans" "c' = c\<lparr>gc_subs := removeAll i (gc_subs c), gc_chans := chans\<rparr>"
    using assms(2) by (auto simp: UnsubFunc_def map_sum_def split: sum.splits)
  have "\<forall>ch \<in> set (gc_chans c). gch_ok (gc_latest c) ch" using assms(1) by (simp add: gossip_inv_def)
  then show ?thesis using gchan_close_ok [OF s(1)] assms(1) s(2) by (auto simp: gossip_inv_def distinct_removeAll)
qed

lemma gch_read_ok:
  assumes "gch_ok l ch" "gch_buf ch = m # buf"
  shows "gch_ok l (ch\<lparr>gch_buf := buf, gch_read := gch_read ch @ [m]\<rparr>)"
proof -
  have "gch_all (ch\<lparr>gch_buf := buf, gch_read := gch_read ch @ [m]\<rparr>) = gch_all ch" using assms(2) by (simp add: gch_all_def)
  then show ?thesis using assms(1) by (simp add: gch_ok_def)
qed

lemma gossip_inv_update:
  assumes "gossip_inv c" "gch_ok (gc_latest c) ch" "set (gc_watches c') \<subseteq> insert w (set (gc_watches c))" "gw_inner w < length (gc_chans c)"
    and "gc_latest c' = gc_latest c" "gc_subs c' = gc_subs c" "gc_chans c' = (gc_chans c)[i := ch]"
  shows "gossip_inv c'"
  using assms set_update_subset_insert [of "gc_chans c" i ch] unfolding gossip_inv_def by auto

lemma watch_read_ok:
  assumes "gossip_inv c" "n < length (gc_watches c)"
  shows "gossip_inv (watch_read A taken n c)"
proof -
  let ?w = "gc_watches c ! n"
  let ?i = "gw_inner ?w"
  let ?ch = "gc_chans c ! ?i"
  have w: "?i < length (gc_chans c)" using assms by (simp add: gossip_inv_def)
  then have ok: "gch_ok (gc_latest c) ?ch" using assms(1) by (simp add: gossip_inv_def)
  show ?thesis
  proof (cases "gch_buf ?ch")
    case Nil
    show ?thesis
      by (rule gossip_inv_update [OF assms(1) ok, where w = "?w\<lparr>gw_returned := True\<rparr>" and i = ?i])
        (use w Nil in \<open>auto simp: watch_read_def Let_def dest: set_update_subset_insert [THEN subsetD] split: if_splits\<close>)
  next
    case (Cons m buf)
    show ?thesis
      by (rule gossip_inv_update [OF assms(1) gch_read_ok [OF ok Cons],
            where w = "?w\<lparr>gw_out := gw_out ?w @ (if taken then [RD (gossip_data m)] else [])\<rparr>" and i = ?i])
        (use w Cons in \<open>auto simp: watch_read_def Let_def dest: set_update_subset_insert [THEN subsetD]\<close>)
  qed
qed

lemma gossip_step_ok:
  assumes "gossip_inv c" "gossip_step A um ev c = Inr c'"
  shows "gossip_inv c'"
proof (cases ev)
  case (Turn waiting msg)
  then show ?thesis using assms gossip_turn_ok [OF assms(1), of um waiting msg c'] by (auto split: if_splits)
next
  case (SubReads i)
  show ?thesis
  proof (cases "i < length (gc_chans c) \<and> gch_buf (gc_chans c ! i) \<noteq> [] \<and> i \<notin> gw_inner ` set (gc_watches c)")
    case True
    then obtain m buf where b: "gch_buf (gc_chans c ! i) = m # buf" by (auto simp: neq_Nil_conv)
    have "gch_ok (gc_latest c) (gc_chans c ! i)" using assms(1) True by (simp add: gossip_inv_def)
    note ok = gch_read_ok [OF this b]
    have "gc_chans c' = (gc_chans c)[i := (gc_chans c ! i)\<lparr>gch_buf := buf, gch_read := gch_read (gc_chans c ! i) @ [m]\<rparr>]"
      using assms(2) SubReads True b by auto
    then have "\<forall>ch \<in> set (gc_chans c'). gch_ok (gc_latest c) ch"
      using assms(1) ok subsetD [OF set_update_subset_insert] unfolding gossip_inv_def by fastforce
    then show ?thesis using assms SubReads True by (auto simp: gossip_inv_def)
  qed (use assms SubReads in auto)
next
  case (CallUnsub i)
  then show ?thesis using assms UnsubFunc_ok [OF assms(1), of i c'] by (auto split: if_splits)
next
  case (WatchReads n taken)
  then show ?thesis using assms watch_read_ok [OF assms(1), of n A taken] by (auto simp: gwatching_def split: if_splits)
next
  case (WatchStops n)
  show ?thesis
  proof (cases "gwatching n c \<and> gw_done (gc_watches c ! n)")
    case True
    then obtain c1 where c1: "UnsubFunc (gw_inner (gc_watches c ! n)) c = Inr c1"
        "c' = c1\<lparr>gc_watches := (gc_watches c1)[n := (gc_watches c ! n)\<lparr>gw_returned := True\<rparr>]\<rparr>"
      using assms(2) WatchStops by (auto simp: watch_stop_def Let_def map_sum_def split: sum.splits)
    note u = UnsubFunc_ok [OF assms(1) c1(1)]
    have "gc_watches c ! n \<in> set (gc_watches c1)" using True u by (simp add: gwatching_def)
    then show ?thesis using u c1(2) set_update_subset_insert [of "gc_watches c1" n] by (fastforce simp: gossip_inv_def)
  qed (use assms WatchStops in auto)
next
  case (WatchCancelled n)
  show ?thesis
  proof (cases "n < length (gc_watches c)")
    case True
    then have "gc_watches c ! n \<in> set (gc_watches c)" by simp
    then show ?thesis
      using True assms WatchCancelled set_update_subset_insert [of "gc_watches c" n] by (fastforce simp: gossip_inv_def)
  qed (use assms WatchCancelled in auto)
qed (use assms in \<open>auto simp: gossip_inv_def gossip_Sub_def gossip_Watch_def gossip_Close_def Let_def gch_ok_def gch_all_def less_Suc_eq\<close>)

lemma gossip_run_ok: "gossip_inv c \<Longrightarrow> gossip_run A um evs c = Inr c' \<Longrightarrow> gossip_inv c'"
  by (induction evs arbitrary: c) (auto split: sum.splits dest: gossip_step_ok)

lemma NewWithPubsub_inv: "NewWithPubsub impl S register join subscribe info cache = Inr c \<Longrightarrow> gossip_inv c"
  by (auto simp: NewWithPubsub_def new_gossip_client_def Let_def gossip_inv_def split: option.splits)

text \<open>
  C21. Whatever messages the network delivers, in whatever order and however often, every subscriber of a gossip
  client gets each round at most once and rounds only in increasing order.
\<close>

theorem gossip_rounds_increase:
  assumes "NewWithPubsub impl S register join subscribe info cache = Inr c" "gossip_run A um evs c = Inr c'" "ch \<in> set (gc_chans c')"
  shows "sorted_wrt (<) (map pr_Round (gch_read ch @ gch_buf ch))"
proof -
  have "gch_ok (gc_latest c') ch" using gossip_run_ok [OF NewWithPubsub_inv [OF assms(1)] assms(2)] assms(3) by (simp add: gossip_inv_def)
  then show ?thesis by (simp add: gch_ok_def gch_all_def)
qed

definition example_rand :: "bytes \<Rightarrow> PublicRandResponse" where
  "example_rand random = \<lparr>pr_Round = 5, pr_Signature = [7] @ Message 5 [9], pr_PreviousSignature = [9], pr_Randomness = random\<rparr>"

lemma NewWithPubsub_example: "NewWithPubsub impl S (\<lambda>_. None) (\<lambda>_. None) (\<lambda>_. None) (Some i) cache = Inr (new_gossip_client cache)"
  by (simp add: NewWithPubsub_def new_gossip_client_def Let_def)

theorem gossip_rounds_increase_witness:
  "\<exists>c. gossip_run \<lparr>arc_Get = \<lambda>_ c. (None, c), arc_Add = \<lambda>_ _ c. c\<rparr> (\<lambda>_. Inr (example_rand [])) [CallSub 3, Turn [] (Inr [1]), Turn [] (Inr [1])]
          (new_gossip_client (None :: unit cache option)) = Inr c
     \<and> map pr_Round (gch_buf (gc_chans c ! 0)) = [5] \<and> sorted_wrt (<) (map pr_Round (gch_read (gc_chans c ! 0) @ gch_buf (gc_chans c ! 0)))"
proof -
  let ?A = "\<lparr>arc_Get = \<lambda>_ c. (None, c), arc_Add = \<lambda>_ _ c. c\<rparr> :: unit arc" and ?um = "\<lambda>_ :: bytes. Inr (example_rand [])"
  let ?evs = "[CallSub 3, Turn [] (Inr [1]), Turn [] (Inr [1])]"
  obtain c where c: "gossip_run ?A ?um ?evs (new_gossip_client None) = Inr c" "length (gc_chans c) = 1" "map pr_Round (gch_buf (gc_chans c ! 0)) = [5]"
    by (simp add: gossip_turn_def new_gossip_client_def gossip_Sub_def gchan_send_def example_rand_def)
  then have "gc_chans c ! 0 \<in> set (gc_chans c)" by simp
  from gossip_rounds_increase [OF NewWithPubsub_example [of "\<lambda>_. 0" plain_suite example_info None] c(1) this]
  show ?thesis by (intro exI [of _ c] conjI c(1,3))
qed

section \<open>Randomness that nobody checks\<close>

text \<open>
  C19. Gossip can put false randomness into the cache: the validator checks the signature of a message but not
  its randomness, and the watcher of the gossip client adds the message to the cache of the whole
  client before it passes it on to be verified. When the reader does not wait at that moment
  the message is dropped, and from then on a get of that round is answered from the cache with the
  randomness that the sender of the message chose.
\<close>

theorem gossip_can_forge_randomness:
  assumes "VerifyBeacon S (inf_PublicKey i) \<lparr>b_PreviousSig = prev, b_Round = rnd, b_Signature = sig\<rparr> = None"
    and "TimeOfRound (inf_Period i) (inf_GenesisTime i) rnd * Second \<le> now" "0 < rnd"
    and "unmarshal data = Inr \<lparr>pr_Round = rnd, pr_Signature = sig, pr_PreviousSignature = prev, pr_Randomness = random\<rparr>"
    and "fst (arc_Get A rnd cache) = None" "\<forall>v c. fst (arc_Get A rnd (arc_Add A rnd v c)) = Some v"
  shows "fst (randomnessValidator S A unmarshal now (Some i) data (Some (TypedCache cache))) = ValidationAccept
     \<and> (\<exists>c dat. gossip_run A unmarshal [WatchStarts, Turn [0] (Inr data), WatchReads 0 False] (new_gossip_client (Some (TypedCache cache))) = Inr c
          \<and> gw_out (gc_watches c ! 0) = []
          \<and> fst (cachingClient_Get A get rnd (the (gc_cache c))) = Inr (RD dat) \<and> rd_Rnd dat = rnd \<and> rd_Sig dat = sig \<and> rd_Random dat = random)"
proof
  show "fst (randomnessValidator S A unmarshal now (Some i) data (Some (TypedCache cache))) = ValidationAccept"
    using assms(1,2,4,5) by (simp add: validator_accepts_iff split_beta)
  let ?resp = "\<lparr>pr_Round = rnd, pr_Signature = sig, pr_PreviousSignature = prev, pr_Randomness = random\<rparr>"
  let ?dat = "gossip_data ?resp"
  have turn: "\<not> rnd \<le> 0" using assms(3) by (simp add: not_le)
  obtain c where c: "gossip_run A unmarshal [WatchStarts, Turn [0] (Inr data), WatchReads 0 False] (new_gossip_client (Some (TypedCache cache))) = Inr c"
      "gw_out (gc_watches c ! 0) = []" "gc_cache c = Some (TypedCache (arc_Add A rnd (RD ?dat) cache))"
    using turn assms(4) by (simp add: new_gossip_client_def gossip_Watch_def gossip_Sub_def gossip_turn_def gchan_send_def gwatching_def
        watch_read_def gossip_data_def Let_def)
  have "fst (cachingClient_Get A get rnd (the (gc_cache c))) = Inr (RD ?dat)"
    using assms(6) by (simp add: c(3) cachingClient_Get_def split_beta)
  then show "\<exists>c dat. gossip_run A unmarshal [WatchStarts, Turn [0] (Inr data), WatchReads 0 False] (new_gossip_client (Some (TypedCache cache))) = Inr c
      \<and> gw_out (gc_watches c ! 0) = []
      \<and> fst (cachingClient_Get A get rnd (the (gc_cache c))) = Inr (RD dat) \<and> rd_Rnd dat = rnd \<and> rd_Sig dat = sig \<and> rd_Random dat = random"
    using c(1,2) by (intro exI [of _ c] exI [of _ ?dat]) (simp add: gossip_data_def)
qed

text \<open>A cache without a bound, to show that the assumption on the library can hold.\<close>

definition map_arc :: "(uint64 \<Rightarrow> Result option) arc" where
  "map_arc = \<lparr>arc_Get = \<lambda>k c. (c k, c), arc_Add = \<lambda>k v c. c(k := Some v)\<rparr>"

lemma map_arc_laws: "arc_laws map_arc (\<lambda>c k. set_option (c k))"
  by (auto simp: arc_laws_def map_arc_def)

theorem gossip_can_forge_randomness_witness:
  "\<exists>c dat. gossip_run map_arc (\<lambda>_. Inr (example_rand [66])) [WatchStarts, Turn [0] (Inr []), WatchReads 0 False]
          (new_gossip_client (Some (TypedCache Map.empty))) = Inr c
     \<and> fst (cachingClient_Get map_arc (\<lambda>_. Inl (Err ''no'')) 5 (the (gc_cache c))) = Inr (RD dat) \<and> rd_Random dat = [66]"
proof -
  have "TimeOfRound (inf_Period example_info) (inf_GenesisTime example_info) 5 * Second \<le> 1600000120 * Second"
    using TimeOfRound_small [of 30 1600000000 4] by (simp add: example_info_def period_ok_def genesis_ok_def to_uint64_def)
  moreover have "VerifyBeacon plain_suite (inf_PublicKey example_info) \<lparr>b_PreviousSig = [9], b_Round = 5, b_Signature = [7] @ Message 5 [9]\<rparr> = None"
    using data_upon_valid [of "[9]" 5] by (simp add: data_upon_def)
  ultimately show ?thesis
    using gossip_can_forge_randomness [of plain_suite example_info "[9]" 5 "[7] @ Message 5 [9]" "1600000120 * Second" "\<lambda>_. Inr (example_rand [66])" "[]"
        "[66]" map_arc Map.empty "\<lambda>_. Inl (Err ''no'')"]
    by (auto simp: map_arc_def example_rand_def)
qed

section \<open>Closing twice\<close>

text \<open>
  Closing a gossip client while the context of one of its watchers is done may crash the program: the goroutine of the
  client has closed the inner channel of the watcher, and the watcher, which may as well see
  that its own context is done, closes it again.
\<close>

lemma gossip_close_can_panic:
  "gossip_run A um [WatchStarts, WatchCancelled 0, ClientCloses, Turn [] msg, WatchStops 0] (new_gossip_client cache)
     = Inl (Panic ''close of closed channel'')"
  by (simp add: new_gossip_client_def gossip_Watch_def gossip_Sub_def gossip_Close_def gossip_turn_def gchan_close_def gwatching_def
      watch_stop_def UnsubFunc_def Let_def)

end
