(* ===== verification/Http_Server.thy ===== *)
theory Http_Server
  imports Client_Verify Chain_Time Go_Duration "HOL-Library.Sublist"
begin

text \<open>
  \<open>src/http/server.go\<close>: the public HTTP interface of a node or relay, over any client.

  The JSON form of a result, which the encoder always gives, is a parameter. Times are nanoseconds. A request that waits for the
  next round is split where it waits.
\<close>

section \<open>The handler\<close>

text \<open>
  A waiter has a number and the round it asked for; \<open>hd_got\<close> holds what has been put into the
  channels of waiters.
\<close>

record 'p handler =
  hd_chainInfo :: "'p Info option"
  hd_pending :: "(nat \<times> uint64) list"
  hd_latestRound :: uint64
  hd_got :: "((nat \<times> uint64) \<times> bytes) list"

definition http_New :: "'p handler" where
  "http_New = \<lparr>hd_chainInfo = None, hd_pending = [], hd_latestRound = 0, hd_got = []\<rparr>"

text \<open>An iteration of \<open>Watch\<close>: the stream ends, or gives the next result.\<close>

definition Watch_closed :: "'p handler \<Rightarrow> 'p handler" where
  "Watch_closed h = h\<lparr>hd_latestRound := 0\<rparr>"

definition Watch_next :: "(Result \<Rightarrow> bytes) \<Rightarrow> Result \<Rightarrow> 'p handler \<Rightarrow> 'p handler" where
  "Watch_next json next h =
     (let b = (if hd_latestRound h + 1 \<noteq> res_Round next \<and> hd_latestRound h \<noteq> 0 then [] else json next)
      in h\<lparr>hd_latestRound := res_Round next, hd_pending := [], hd_got := hd_got h @ map (\<lambda>waiter. (waiter, b)) (hd_pending h)\<rparr>)"

definition getChainInfo :: "'p Info option result \<Rightarrow> 'p handler \<Rightarrow> 'p Info option \<times> 'p handler" where
  "getChainInfo client_info h =
     (case hd_chainInfo h of
        Some info \<Rightarrow> (Some info, h)
      | None \<Rightarrow>
          (case client_info of
             Inl _ \<Rightarrow> (None, h)
           | Inr None \<Rightarrow> (None, h)
           | Inr (Some info) \<Rightarrow> (Some info, h\<lparr>hd_chainInfo := Some info\<rparr>)))"

text \<open>
  \<open>getRand\<close> up to the point where it may wait: \<open>seen\<close> is the latest round when it looked first.
  It becomes the waiter \<open>w\<close>, or asks the client. Then what it returns, with no data for a round
  that does not exist yet.
\<close>

definition getRand_block :: "uint64 \<Rightarrow> nat \<Rightarrow> uint64 \<Rightarrow> 'p handler \<Rightarrow> bool \<times> 'p handler" where
  "getRand_block seen w rnd h =
     (if seen + 1 = rnd \<and> seen \<noteq> 0 \<and> hd_latestRound h + 1 = rnd \<and> hd_latestRound h \<noteq> 0
      then (True, h\<lparr>hd_pending := hd_pending h @ [(w, rnd)]\<rparr>) else (False, h))"

definition getRand_cancel :: "nat \<Rightarrow> 'p handler \<Rightarrow> 'p handler" where
  "getRand_cancel w h =
     h\<lparr>hd_pending := (case find (\<lambda>(v, _). v = w) (hd_pending h) of None \<Rightarrow> hd_pending h | Some c \<Rightarrow> remove1 c (hd_pending h))\<rparr>"

definition getRand_ask ::
  "(Result \<Rightarrow> bytes) \<Rightarrow> int \<Rightarrow> (uint64 \<Rightarrow> Result result) \<Rightarrow> 'p Info \<Rightarrow> uint64 \<Rightarrow> bytes option result" where
  "getRand_ask json now get info rnd =
     (if now < TimeOfRound (inf_Period info) (inf_GenesisTime info) rnd * Second then Inr None
      else map_sum id (\<lambda>resp. Some (json resp)) (get rnd))"

section \<open>Requests\<close>

datatype cache_control = NoHeader | FutureMaxAge int | NoCache | Immutable | MaxAge int

record http_response =
  hr_Status :: int
  hr_CacheControl :: cache_control
  hr_Body :: bytes

fun remove_first :: "string \<Rightarrow> string \<Rightarrow> string" where
  "remove_first pat [] = []"
| "remove_first pat (c # cs) = (if prefix pat (c # cs) then drop (length pat) (c # cs) else c # remove_first pat cs)"

fun parse_digits :: "nat \<Rightarrow> string \<Rightarrow> nat option" where
  "parse_digits n [] = Some n"
| "parse_digits n (c # cs) = (if is_digit c then parse_digits (10 * n + (of_char c - 48)) cs else None)"

definition ParseUint :: "string \<Rightarrow> uint64 result" where
  "ParseUint s =
     (if s = [] then Inl (Err ''invalid syntax'')
      else case parse_digits 0 s of
             None \<Rightarrow> Inl (Err ''invalid syntax'')
           | Some n \<Rightarrow> if n < 2 ^ 64 then Inr (of_nat n) else Inl (Err ''value out of range''))"

text \<open>\<open>PublicRand\<close> before it asks for the data: it replies at once, or goes on with a round.\<close>

definition PublicRand_request :: "int \<Rightarrow> 'p Info option \<Rightarrow> string \<Rightarrow> http_response + uint64" where
  "PublicRand_request now info path =
     (case ParseUint (remove_first ''/public/'' path) of
        Inl _ \<Rightarrow> Inl \<lparr>hr_Status = 400, hr_CacheControl = NoHeader, hr_Body = []\<rparr>
      | Inr roundN \<Rightarrow>
          (case info of
             None \<Rightarrow> Inl \<lparr>hr_Status = 500, hr_CacheControl = NoHeader, hr_Body = []\<rparr>
           | Some info \<Rightarrow>
               let roundExpectedTime = TimeOfRound (inf_Period info) (inf_GenesisTime info) roundN * Second
               in if now + inf_Period info < roundExpectedTime
                  then Inl \<lparr>hr_Status = 404, hr_CacheControl = FutureMaxAge (trunc_seconds (time_Sub roundExpectedTime now)), hr_Body = []\<rparr>
                  else Inr roundN))"

definition PublicRand_respond :: "bytes option result \<Rightarrow> http_response" where
  "PublicRand_respond data =
     (case data of
        Inl _ \<Rightarrow> \<lparr>hr_Status = 500, hr_CacheControl = NoHeader, hr_Body = []\<rparr>
      | Inr None \<Rightarrow> \<lparr>hr_Status = 404, hr_CacheControl = NoCache, hr_Body = []\<rparr>
      | Inr (Some d) \<Rightarrow> \<lparr>hr_Status = 200, hr_CacheControl = Immutable, hr_Body = d\<rparr>)"

text \<open>\<open>int (math.Ceil (d.Seconds ()))\<close>.\<close>

definition ceil_seconds :: "int \<Rightarrow> int" where
  "ceil_seconds d = (case Seconds d of Fin q \<Rightarrow> \<lceil>q\<rceil> | _ \<Rightarrow> 0)"

text \<open>
  \<open>LatestRand\<close>, whose clock is read once here. The last component is the time in the header \<open>Expires\<close>.
\<close>

definition LatestRand :: "(Result \<Rightarrow> bytes) \<Rightarrow> int \<Rightarrow> Result result \<Rightarrow> 'p Info option \<Rightarrow> http_response \<times> int" where
  "LatestRand json now latest info =
     (case latest of
        Inl _ \<Rightarrow> (\<lparr>hr_Status = 500, hr_CacheControl = NoHeader, hr_Body = []\<rparr>, now)
      | Inr resp \<Rightarrow>
          let nextTime =
                (case info of
                   None \<Rightarrow> now
                 | Some info \<Rightarrow>
                     let next = TimeOfRound (inf_Period info) (inf_GenesisTime info) (res_Round resp + 1) * Second
                     in if now < next then next else now + quot64 (inf_Period info) 2);
              remaining = time_Sub nextTime now
          in (\<lparr>hr_Status = 200,
              hr_CacheControl =
                (case info of
                   None \<Rightarrow> NoHeader
                 | Some info \<Rightarrow> if 0 < remaining \<and> remaining < inf_Period info then MaxAge (ceil_seconds remaining) else NoHeader),
              hr_Body = json resp\<rparr>, nextTime))"

definition http_ChainInfo :: "('p Info \<Rightarrow> bytes result) \<Rightarrow> 'p Info option \<Rightarrow> http_response" where
  "http_ChainInfo to_json info =
     (case info of
        None \<Rightarrow> \<lparr>hr_Status = 204, hr_CacheControl = NoHeader, hr_Body = []\<rparr>
      | Some info \<Rightarrow>
          (case to_json info of
             Inl _ \<Rightarrow> \<lparr>hr_Status = 500, hr_CacheControl = NoHeader, hr_Body = []\<rparr>
           | Inr b \<Rightarrow> \<lparr>hr_Status = 200, hr_CacheControl = Immutable, hr_Body = b\<rparr>))"

text \<open>The status of \<open>Health\<close>, with the current and the expected round.\<close>

definition Health :: "(float64 \<Rightarrow> uint64) \<Rightarrow> int \<Rightarrow> 'p Info option \<Rightarrow> 'p handler \<Rightarrow> int \<times> uint64 \<times> uint64" where
  "Health impl now info h =
     (let lastSeen = hd_latestRound h
      in case info of
           None \<Rightarrow> (503, lastSeen, 0)
         | Some info \<Rightarrow>
             let expected = CurrentRound impl (now div Second) (inf_Period info) (inf_GenesisTime info)
             in (if lastSeen = expected \<or> lastSeen + 1 = expected then 200 else 503, lastSeen, expected))"

section \<open>Starting the watch\<close>

text \<open>
  \<open>start\<close> holds the lock, starts \<open>Watch\<close> and then receives on the channel \<open>ready\<close>; \<open>Watch\<close> connects
  and sends on it if somebody is receiving. The lock is free once \<open>start\<close> has returned.
\<close>

datatype start_pc = StartSpawned | StartReceiving | StartReturned
datatype watch_pc = WatchConnecting | WatchSignalling | WatchStreaming | WatchReset

inductive start_step :: "start_pc \<times> watch_pc \<Rightarrow> start_pc \<times> watch_pc \<Rightarrow> bool" where
  receive: "start_step (StartSpawned, w) (StartReceiving, w)"
| connect: "start_step (s, WatchConnecting) (s, WatchSignalling)"
| signal: "start_step (StartReceiving, WatchSignalling) (StartReturned, WatchStreaming)"
| default: "s \<noteq> StartReceiving \<Longrightarrow> start_step (s, WatchSignalling) (s, WatchStreaming)"
| item: "start_step (StartReturned, WatchStreaming) (StartReturned, WatchStreaming)"
| closed: "start_step (StartReturned, WatchStreaming) (StartReturned, WatchReset)"
| backoff: "start_step (s, WatchReset) (s, WatchConnecting)"

code_pred start_step .

inductive_cases start_stepE: "start_step (s, w) t"

section \<open>Waiters\<close>

text \<open>What happens to a handler: a request, the end of a waiting request, a result or the end of the stream.\<close>

datatype http_event = Ask nat uint64 uint64 | Cancel nat | Next Result | StreamEnd

fun http_step :: "(Result \<Rightarrow> bytes) \<Rightarrow> http_event \<Rightarrow> 'p handler \<Rightarrow> 'p handler" where
  "http_step json (Ask w rnd seen) h = snd (getRand_block seen w rnd h)"
| "http_step json (Cancel w) h = getRand_cancel w h"
| "http_step json (Next r) h = Watch_next json r h"
| "http_step json StreamEnd h = Watch_closed h"

definition waiters_ok :: "(Result \<Rightarrow> bytes) \<Rightarrow> 'p handler \<Rightarrow> bool" where
  "waiters_ok json h \<longleftrightarrow>
     (\<forall>(w, rnd) \<in> set (hd_pending h). rnd = hd_latestRound h + 1 \<and> hd_latestRound h \<noteq> 0)
   \<and> (\<forall>((w, rnd), b) \<in> set (hd_got h). b = [] \<or> (\<exists>r. res_Round r = rnd \<and> b = json r))"

lemma waiters_okD: "waiters_ok json h \<Longrightarrow> ((w, rnd), b) \<in> set (hd_got h) \<Longrightarrow> b = [] \<or> (\<exists>r. res_Round r = rnd \<and> b = json r)"
  unfolding waiters_ok_def by fastforce

lemma http_step_waiters:
  assumes "waiters_ok json h" "ev \<noteq> StreamEnd"
  shows "waiters_ok json (http_step json ev h)"
proof (cases ev)
  case (Next r)
  then show ?thesis using assms by (fastforce simp: waiters_ok_def Watch_next_def Let_def)
next
  case (Cancel w)
  have "set (hd_pending (getRand_cancel w h)) \<subseteq> set (hd_pending h)"
    using set_remove1_subset by (fastforce simp: getRand_cancel_def split: option.splits)
  moreover have "hd_latestRound (getRand_cancel w h) = hd_latestRound h" "hd_got (getRand_cancel w h) = hd_got h"
    by (simp_all add: getRand_cancel_def)
  ultimately show ?thesis using assms(1) Cancel by (auto simp: waiters_ok_def)
qed (use assms in \<open>auto simp: waiters_ok_def getRand_block_def\<close>)

lemma http_run_waiters:
  assumes "waiters_ok json h" "StreamEnd \<notin> set es"
  shows "waiters_ok json (fold (http_step json) es h)"
  using assms
proof (induction es arbitrary: h)
  case (Cons e es)
  have "waiters_ok json (http_step json e h)" using Cons.prems by (intro http_step_waiters) auto
  then show ?case using Cons.IH [of "http_step json e h"] Cons.prems(2) by simp
qed simp

text \<open>
  C18. A request that waits for the next round gets that round: as long as the stream of the
  client does not end, whatever requests come, wait and give up and whatever rounds the stream
  delivers, a waiter gets the form of a result of the round it asked for, or an empty reply.
\<close>

theorem waiters_get_their_round:
  assumes "StreamEnd \<notin> set evs" "((w, rnd), b) \<in> set (hd_got (fold (http_step json) evs http_New))"
  shows "b = [] \<or> (\<exists>r. res_Round r = rnd \<and> b = json r)"
  by (rule waiters_okD [OF http_run_waiters [OF _ assms(1)] assms(2)]) (simp add: waiters_ok_def http_New_def)

theorem waiters_get_their_round_witness:
  "\<exists>b. ((0, 5), b) \<in> set (hd_got (fold (http_step res_Signature) [Next (RD checkpoint), Ask 0 5 4, Next (RD (data_upon 5 [9]))] (http_New :: bytes handler)))
     \<and> (b = [] \<or> (\<exists>r. res_Round r = 5 \<and> b = res_Signature r))"
proof -
  let ?evs = "[Next (RD checkpoint), Ask 0 5 4, Next (RD (data_upon 5 [9]))]"
  have "hd_got (fold (http_step res_Signature) ?evs (http_New :: bytes handler)) = [((0, 5), rd_Sig (data_upon 5 [9]))]"
    by (simp add: http_New_def Watch_next_def getRand_block_def checkpoint_def data_upon_def)
  then have "((0, 5), rd_Sig (data_upon 5 [9])) \<in> set (hd_got (fold (http_step res_Signature) ?evs (http_New :: bytes handler)))" by simp
  with waiters_get_their_round [OF _ this] show ?thesis by auto
qed

text \<open>
  When the stream ends while a request waits, the request gets whatever round the next
  stream delivers first; and when a round is missed it gets an empty reply. Either is served
  with status 200, to be cached for a week as the round that was asked for.
\<close>

lemma waiter_gets_another_round:
  assumes "hd_latestRound h \<noteq> 0" "rnd = hd_latestRound h + 1"
  shows "((w, rnd), json r) \<in> set (hd_got (fold (http_step json) [Ask w rnd (hd_latestRound h), StreamEnd, Next r] h))
       \<and> (res_Round r \<noteq> rnd \<longrightarrow> ((w, rnd), []) \<in> set (hd_got (fold (http_step json) [Ask w rnd (hd_latestRound h), Next r] h)))
       \<and> (\<forall>b. PublicRand_respond (Inr (Some b)) = \<lparr>hr_Status = 200, hr_CacheControl = Immutable, hr_Body = b\<rparr>)"
  using assms by (auto simp: getRand_block_def Watch_closed_def Watch_next_def PublicRand_respond_def Let_def)

lemma waiter_gets_another_round_example:
  "((0, 5), [9]) \<in> set (hd_got (fold (http_step res_Signature) [Ask 0 5 4, StreamEnd, Next (RD (checkpoint\<lparr>rd_Rnd := 80\<rparr>))]
      ((http_New :: bytes handler)\<lparr>hd_latestRound := 4\<rparr>)))"
  using waiter_gets_another_round [of "(http_New :: bytes handler)\<lparr>hd_latestRound := 4\<rparr>" 5 0 res_Signature "RD (checkpoint\<lparr>rd_Rnd := 80\<rparr>)"]
  by (simp add: checkpoint_def)

text \<open>
  Starting the handler can hang for ever: when \<open>Watch\<close> has connected before \<open>start\<close> receives,
  its signal is dropped, \<open>start\<close> keeps the lock while it waits for another one, and \<open>Watch\<close> needs
  the lock before it can send one. No step is possible from there.
\<close>

lemma start_can_hang:
  "start_step\<^sup>*\<^sup>* (StartSpawned, WatchConnecting) (StartReceiving, WatchStreaming)
   \<and> (\<forall>t. \<not> start_step (StartReceiving, WatchStreaming) t)"
proof -
  have "start_step (StartSpawned, WatchConnecting) (StartSpawned, WatchSignalling)"
    "start_step (StartSpawned, WatchSignalling) (StartSpawned, WatchStreaming)"
    "start_step (StartSpawned, WatchStreaming) (StartReceiving, WatchStreaming)"
    by (auto intro: start_step.intros)
  then have 1: "start_step\<^sup>*\<^sup>* (StartSpawned, WatchConnecting) (StartReceiving, WatchStreaming)"
    by (rule converse_rtranclp_into_rtranclp [OF _ converse_rtranclp_into_rtranclp [OF _ r_into_rtranclp]])
  have 2: "\<not> start_step (StartReceiving, WatchStreaming) t" for t by (auto elim: start_stepE)
  show ?thesis using 1 2 by blast
qed

text \<open>The number of a round and its path.\<close>

lemma parse_digits_fmtInt: "parse_digits 0 (fmtInt n @ r) = parse_digits n r"
proof (induction n arbitrary: r rule: fmtInt.induct)
  case (1 n)
  show ?case
  proof (cases "n < 10")
    case True
    then show ?thesis by (simp add: fmtInt.simps [of n])
  next
    case False
    then have "parse_digits 0 (fmtInt n @ r) = parse_digits (n div 10) (digit (n mod 10) # r)"
      using 1 [OF False] by (simp add: fmtInt.simps [of n])
    then show ?thesis by simp
  qed
qed

lemma round_path:
  assumes "prefix pat (pat @ s)" "pat \<noteq> []"
  shows "remove_first pat (pat @ s) = s"
  using assms by (cases pat) auto

lemma ParseUint_path: "ParseUint (remove_first ''/public/'' (''/public/'' @ fmtInt (unat rnd))) = Inr rnd"
proof -
  have "unat rnd < 2 ^ 64" using unsigned_less [of rnd] by simp
  then show ?thesis
    using parse_digits_fmtInt [of "unat rnd" "[]"] by (simp add: round_path ParseUint_def)
qed

text \<open>Asking for round zero gives the latest round, to be cached for a week as round zero.\<close>

lemma round_zero_is_cached:
  assumes "get 0 = Inr r" "inf_GenesisTime info * Second \<le> now" "0 \<le> inf_Period info"
  shows "PublicRand_request now (Some info) ''/public/0'' = Inr 0"
    "PublicRand_respond (getRand_ask json now get info 0) = \<lparr>hr_Status = 200, hr_CacheControl = Immutable, hr_Body = json r\<rparr>"
proof -
  have t: "TimeOfRound (inf_Period info) (inf_GenesisTime info) 0 = inf_GenesisTime info" by (simp add: TimeOfRound_def)
  have "ParseUint (remove_first ''/public/'' ''/public/0'') = Inr 0" using ParseUint_path [of 0] by (simp add: fmtInt_0)
  then show "PublicRand_request now (Some info) ''/public/0'' = Inr 0" using assms(2,3) by (simp add: PublicRand_request_def t)
  show "PublicRand_respond (getRand_ask json now get info 0) = \<lparr>hr_Status = 200, hr_CacheControl = Immutable, hr_Body = json r\<rparr>"
    using assms(1,2) by (simp add: getRand_ask_def t PublicRand_respond_def)
qed

end
