(* ===== verification/Spec2Isabelle.thy ===== *)
theory Spec2Isabelle
  imports Drand_Public Client_Build Client_Gossip Http_Server
begin

text \<open>
  Verification of drand, a distributed randomness beacon written in Go: the daemon that runs on every node
  of a group, and the clients that fetch and check its randomness.

  \<^bold>\<open>The parts and how they interact.\<close>  A node has a long-term key pair. A leader collects the signed keys of the
  participants and sends them the group; the nodes then run a distributed key generation, whose packets are broadcast
  with echoes, and each ends up with a share of the group key. From the genesis time on a ticker announces one round
  per period: every node signs the round upon the previous signature with its share and sends the partial signature to
  the others; as soon as a threshold of partials is there, the signature is recovered and appended to the chain, which is kept
  in a database. Nodes that are behind follow the chains of their peers. The daemon serves the chain over gRPC and HTTP
  and to a gossip network. Clients ask several sources, verify what they get against the chain information, cache it
  and distribute it to their subscribers.

  \<^bold>\<open>Conventions.\<close>  One Go function is one definition, named \<open>Type_Method\<close> for a method; a struct is a record whose fields have a short
  prefix; an interface value is a record of its methods. Unsigned integers are words; \<open>int64\<close> values are integers with
  \<open>wrap64\<close> where they can overflow. Every operation returns its new state; an error is \<open>Inl\<close>, and a
  panic is the error \<open>Panic\<close>. In \<open>('a result \<times> 's) result\<close> the outer error is a panic. A goroutine is a part of the
  state of its owner, and a loop with a \<open>select\<close> is one function per branch, so that a run is a list of events in any
  order. A call that waits is split where it waits. Code of other modules is a parameter: the pairing library is the record
  \<open>suite\<close> with the laws \<open>codec_laws\<close>, \<open>auth_laws\<close>, \<open>tbls_laws\<close> and \<open>dkg_laws\<close>, the database the record \<open>bolt\<close>, the cache library
  the record \<open>arc\<close> with \<open>arc_laws\<close>, the JSON, TOML and protobuf codecs functions with a round trip. Witnesses use the concrete
  instances \<open>plain_suite\<close>, \<open>byte_suite\<close> and \<open>map_arc\<close>, for which these laws are proved.

  \<^bold>\<open>Theories.\<close>

  \<^item> \<open>Prelude\<close>: machine types, errors, byte encodings, and the collections \<open>wire\<close> and \<open>bytelen\<close>. \<open>Sha256\<close>, \<open>Go_Float\<close>, \<open>Go_Strings\<close>
    and \<open>Go_Duration\<close>: the parts of the Go standard library that the sources use.
  \<^item> \<open>Chain_Time\<close> (\<open>chain/time.go\<close>): rounds and times, with the float arithmetic of the source. For whole-second periods the current and
    next round bracket the present, and round times are monotone and never wrap.
  \<^item> \<open>Keys\<close>, \<open>Keys_Codec\<close>, \<open>Key_Group\<close> (\<open>key/keys.go\<close>, \<open>node.go\<close>, \<open>encoding.go\<close>, \<open>group.go\<close>): identities, shares and groups with their hashes
    and wire forms: round trips, and what a decoded group satisfies. \<open>Key_Store\<close> (\<open>key/store.go\<close>, \<open>fs/fs.go\<close>): the files of a node.
  \<^item> \<open>Chain_Beacon\<close> (\<open>chain/beacon.go\<close>, \<open>info.go\<close>, \<open>convert.go\<close>): beacons, what they sign, and chain information.
  \<^item> \<open>Store_Interface\<close> (\<open>chain/store.go\<close>): the store as the locale \<open>chain_store\<close>, a map from rounds to beacons. \<open>Bolt_Store\<close>
    (\<open>chain/boltdb/store.go\<close>) interprets it on the database store. \<open>Beacon_Stores\<close> (\<open>chain/beacon/store.go\<close>) has one locale per
    wrapping store, each with a \<open>sublocale\<close> that gives the contract back, interpreted on the stack the node uses: the
    stored chain is always unbroken, and callbacks see it in order.
  \<^item> \<open>Partial_Cache\<close>, \<open>Chain_Store\<close>, \<open>Syncer\<close>, \<open>Ticker\<close>, \<open>Beacon_Node\<close> (\<open>chain/beacon/cache.go\<close>, \<open>crypto.go\<close>, \<open>chain.go\<close>, \<open>sync.go\<close>, \<open>ticker.go\<close>,
    \<open>node.go\<close>): the beacon protocol. Only verified beacons are appended whatever arrives; a threshold of partials completes a round;
    following peers only extends the chain; a handler restores the chain of an earlier run and changes groups at the right round.
  \<^item> \<open>Dkg_Broadcast\<close>, \<open>Group_Setup\<close>, \<open>Entropy\<close> (\<open>core/broadcast.go\<close>, \<open>convert.go\<close>, \<open>group_setup.go\<close>, \<open>entropy/entropy.go\<close>): each packet is delivered
    once and echoed; the leader creates a valid group of distinct signed nodes.
  \<^item> \<open>Drand_Node\<close>, \<open>Drand_Control\<close>, \<open>Drand_Public\<close> (\<open>core/drand.go\<close>, \<open>config.go\<close>, \<open>drand_control.go\<close>, \<open>drand_public.go\<close>, \<open>net/peer.go\<close>): the daemon and
    its services. Leader and participants agree on the group, the group goes out to thresholds of old and new nodes, and
    a restarted node loads what the key generation left.
  \<^item> \<open>Http_Server\<close> (\<open>http/server.go\<close>): requests that wait get their round.
  \<^item> \<open>Client_Verify\<close> (\<open>client/verify.go\<close>, \<open>cache.go\<close>, \<open>random.go\<close>, \<open>empty.go\<close>): results of full verification are linked to a root of trust.
    \<open>Client_Optimizing\<close> (\<open>client/optimizing.go\<close>): a get succeeds when a source does, and the dispatcher of watched sources keeps
    its invariant. \<open>Client_Aggregate\<close> (\<open>client/aggregator.go\<close>, \<open>poll.go\<close>): no channel is misused under any interleaving, and polling yields every round.
    \<open>Client_Build\<close> (\<open>client/client.go\<close>, \<open>client/http/http.go\<close>, \<open>client/grpc/client.go\<close>, \<open>core/drand_proxy.go\<close>): options, the layers of a client, and its
    sources. \<open>Client_Gossip\<close> (\<open>lp2p/client\<close>, \<open>lp2p/relaynode.go\<close>): the validator, the gossip client and the relay.

  Several theorems show behaviour that the code does not intend; the text before each says what happens.

  \<^bold>\<open>Bounds and fuel.\<close>  The walks over a cursor (\<open>walk\<close>, \<open>sendCursor\<close>, \<open>streamCursor\<close>) take one more step than the store has beacons;
  a theorem of \<open>Bolt_Store\<close> shows that this visits all of them. All other loops are recursive functions with a termination proof, or single
  iterations over a list of events. The theorems on times assume periods of whole seconds below \<open>2^32\<close>, as the wire format
  carries them, genesis times below \<open>2^32\<close>, and less than \<open>2^53\<close> seconds since genesis, below which \<open>float64\<close> is exact. Hash functions are
  computed, never assumed to be injective: where a theorem needs this it is about the bytes that are hashed.

  \<^bold>\<open>Not modelled.\<close>

  \<^item> \<open>StartFollowChain\<close>, \<open>PingPong\<close> and \<open>Shutdown\<close> of the control service: the first runs the syncer, which is modelled over the stack of
    stores of a node, over a second stack without its append store; the others answer at once or stop the daemon.
  \<^item> The transport (\<open>net\<close> except \<open>peer.go\<close>, \<open>core/client_public.go\<close>, certificates): calls of gRPC and TLS. What is sent is in the results of the handlers,
    and what comes back is a parameter.
  \<^item> The rest of \<open>lp2p\<close>: the construction of a libp2p host. The registration of metrics in \<open>client/client.go\<close>, \<open>client/metric.go\<close>,
    the instrumentation of the HTTP source, \<open>metrics\<close> and \<open>log\<close>: nothing reads what they record.
  \<^item> The commands (\<open>cmd\<close>, \<open>main.go\<close>), which read flags, print, and call the packages above; \<open>demo\<close> and the fakes of \<open>test\<close>, which start processes; the
    generated code of \<open>protobuf\<close>, whose messages are records where they are used; \<open>key/curve.go\<close>, which names the parts of \<open>suite\<close>.
\<close>

end
